(* ===== verification/Mcast_Prelude.thy ===== *)
theory Mcast_Prelude
  imports Main "HOL-Library.Word" "HOL-Library.Monad_Syntax"
begin

text \<open>
  Shared vocabulary of the development: the machine-integer types of the C++ sources, the
  collections of simplification rules the component theories feed, and generic lemmas on
  lists, options and words.

  The sources are compiled in release mode by default (the top-level build file selects
  \<open>Release\<close>, which defines \<open>NDEBUG\<close>), so \<open>assert\<close> is no code at all and is not part of
  any definition; what the sources assert is proved as a lemma where it holds.  \<open>CHECK\<close>
  stays in every build and aborts the process when it fails: an operation that contains a
  \<open>CHECK\<close> returns an option, and \<open>None\<close> is the abort.
\<close>

unbundle bit_operations_syntax

type_synonym u8 = "8 word"
type_synonym u16 = "16 word"
type_synonym u32 = "32 word"
type_synonym u64 = "64 word"

named_theorems event_simps \<open>bit tests on the event masks of the scheduler\<close>
named_theorems wheel_simps \<open>placement arithmetic of the timer wheel\<close>
named_theorems sched_simps \<open>field equations of the scheduler's operations\<close>

subsection \<open>Options as fallible results\<close>

text \<open>A \<open>CHECK\<close>: the process goes on only when the condition holds.\<close>

definition CHECK :: "bool \<Rightarrow> unit option" where
  "CHECK b = (if b then Some () else None)"

lemma CHECK_simps [simp]: "CHECK True = Some ()" "CHECK False = None"
  by (simp_all add: CHECK_def)

lemma CHECK_bind [simp]: "(CHECK b \<bind> f) = (if b then f () else None)"
  by (simp add: CHECK_def)

lemma bind_eq_SomeE:
  assumes "(m \<bind> f) = Some y"
  obtains x where "m = Some x" and "f x = Some y"
  using assms by (cases m) auto

subsection \<open>Lists\<close>

lemma in_set_remove1_distinct:
  "distinct xs \<Longrightarrow> y \<in> set (remove1 x xs) \<longleftrightarrow> y \<in> set xs \<and> y \<noteq> x"
  by auto

lemma take_Suc_nth: "n < length xs \<Longrightarrow> take (Suc n) xs = take n xs @ [xs ! n]"
  by (rule take_Suc_conv_app_nth)

lemma nth_append_beyond [simp]: "k < length xs \<Longrightarrow> (xs @ ys) ! k = xs ! k"
  by (simp add: nth_append)

lemma distinct_append_single:
  "distinct (xs @ [x]) \<longleftrightarrow> distinct xs \<and> x \<notin> set xs"
  by auto

subsection \<open>Words\<close>

lemma unat_lt_size: "unat x < 2 ^ LENGTH('a)"
  for x :: "'a::len word"
  by (rule unsigned_less)

lemma unat_and_mask: "unat (x AND mask n) = unat x mod 2 ^ n"
  for x :: "'a::len word"
  unfolding take_bit_eq_mask [symmetric] unsigned_take_bit_eq by (rule take_bit_eq_mod)

lemma unat_shiftr: "unat (drop_bit n x) = unat x div 2 ^ n"
  for x :: "'a::len word"
  unfolding unat_drop_bit_eq by (rule drop_bit_eq_div)

lemma unat_power_two:
  assumes "k < LENGTH('a)"
  shows "unat (2 ^ k :: 'a::len word) = 2 ^ k"
proof -
  have "(2 ^ k :: 'a word) = of_nat (2 ^ k)" by simp
  moreover have "(2::nat) ^ k < 2 ^ LENGTH('a)"
    using assms by (intro power_strict_increasing) auto
  ultimately show ?thesis by (simp only: unat_of_nat mod_less)
qed

lemma int_unat_minus: "int (unat (x - y)) = (int (unat x) - int (unat y)) mod 2 ^ LENGTH('a)"
  for x y :: "'a::len word"
  by (simp add: uint_word_ariths(2))

lemma bit_word_iff_odd: "bit x n \<longleftrightarrow> n < LENGTH('a) \<and> odd (unat x div 2 ^ n)"
  for x :: "'a::len word"
proof -
  have "bit x n \<longleftrightarrow> n < LENGTH('a) \<and> bit (unat x) n"
    by (auto simp: bit_unsigned_iff bit_imp_le_length)
  then show ?thesis by (simp only: bit_iff_odd)
qed

lemma top_bit:
  fixes y :: "'a::len word"
  assumes "2 ^ t \<le> unat y" "unat y < 2 ^ Suc t"
  shows "bit y m \<Longrightarrow> m \<le> t" "bit y t"
proof -
  have t: "t < LENGTH('a)"
    using assms(1) unat_lt_size [of y]
    by (meson le_less_trans one_less_numeral_iff power_less_imp_less_exp semiring_norm(76))
  have "unat y div 2 ^ t = 1"
    using assms by (simp add: div_nat_eqI)
  then show "bit y t" using t by (simp add: bit_word_iff_odd)
  show "m \<le> t" if "bit y m"
  proof (rule ccontr)
    assume "\<not> m \<le> t"
    then have "(2::nat) ^ Suc t \<le> 2 ^ m" by (intro power_increasing) auto
    then have "unat y div 2 ^ m = 0" using assms(2) by simp
    with that show False by (simp add: bit_word_iff_odd)
  qed
qed

lemma unat_ucast_up:
  "LENGTH('a) \<le> LENGTH('b) \<Longrightarrow> unat (ucast x :: 'b::len word) = unat x"
  for x :: "'a::len word"
  by (simp add: unsigned_ucast_eq take_bit_nat_eq_self order_less_le_trans [OF unat_lt_size])

lemma unat_ucast_mod: "unat (ucast x :: 'b::len word) = unat x mod 2 ^ LENGTH('b)"
  for x :: "'a::len word"
  by (simp add: unsigned_ucast_eq take_bit_eq_mod)

lemma and_not_low_bits: "x AND NOT (2 ^ k - 1) = x div 2 ^ k * 2 ^ k"
  for x :: int
proof -
  have "x AND NOT (mask k) = push_bit k (drop_bit k x)"
    by (rule bit_eqI) (auto simp: bit_simps)
  then show ?thesis
    by (simp add: mask_eq_exp_minus_1 push_bit_eq_mult drop_bit_eq_div)
qed

end
