(* ===== verification/Util.thy ===== *)
theory Util
  imports Mcast_Prelude
begin

text \<open>
  The free functions of \<open>util/util.h\<close> (rounding to a power of two, the power-of-two test,
  the address parser), the constants of \<open>util/util_config.h\<close> and the size computations at
  the head of \<open>util/ObjectCache.h\<close>.
\<close>

section \<open>Constants\<close>

definition kCacheLineSize :: int where "kCacheLineSize = 64"
definition kPageSize :: int where "kPageSize = 4096"
definition kWordSize :: int where "kWordSize = 8"
definition kPointerSize :: int where "kPointerSize = 8"

section \<open>Powers of two on \<open>size_t\<close>\<close>

definition PowOfTwo :: "u64 \<Rightarrow> u64" where
  "PowOfTwo x0 =
     (let x = x0 - 1;
          x = x OR drop_bit 1 x;
          x = x OR drop_bit 2 x;
          x = x OR drop_bit 4 x;
          x = x OR drop_bit 8 x;
          x = x OR drop_bit 16 x;
          x = x OR drop_bit 32 x
      in x + 1)"

definition IsPowOfTwo :: "u64 \<Rightarrow> bool" where
  "IsPowOfTwo x0 =
     (let x = x0 OR push_bit 1 x0;
          x = x OR push_bit 2 x;
          x = x OR push_bit 4 x;
          x = x OR push_bit 8 x;
          x = x OR push_bit 16 x;
          x = x OR push_bit 32 x;
          x = x - 1
      in (x AND x) = 0)"

section \<open>Addresses: \<open>host:port\<close>\<close>

text \<open>
  \<open>std::atoi\<close> skips white space, reads an optional sign and the longest run of decimal
  digits.  The C library computes \<open>strtol\<close>, which saturates at 64 bits, and truncates to
  \<open>int\<close>; the caller then truncates to 16 bits, so only the saturated value matters.
\<close>

definition is_digit :: "char \<Rightarrow> bool" where
  "is_digit c \<longleftrightarrow> 48 \<le> (of_char c :: nat) \<and> (of_char c :: nat) \<le> 57"

definition is_space :: "char \<Rightarrow> bool" where
  "is_space c \<longleftrightarrow> c = CHR '' '' \<or> (9 \<le> (of_char c :: nat) \<and> (of_char c :: nat) \<le> 13)"

definition digit_value :: "char \<Rightarrow> int" where
  "digit_value c = int (of_char c) - 48"

definition digits_value :: "string \<Rightarrow> int" where
  "digits_value ds = foldl (\<lambda>a c. 10 * a + digit_value c) 0 ds"

definition strtol10 :: "string \<Rightarrow> int" where
  "strtol10 s =
     (let t = dropWhile is_space s;
          neg = (t \<noteq> [] \<and> hd t = CHR ''-'');
          u = (if t \<noteq> [] \<and> (hd t = CHR ''-'' \<or> hd t = CHR ''+'') then tl t else t);
          v = digits_value (takeWhile is_digit u);
          w = (if neg then - v else v)
      in max (- (2 ^ 63)) (min (2 ^ 63 - 1) w))"

definition atoi_u16 :: "string \<Rightarrow> u16" where
  "atoi_u16 s = word_of_int (sint (word_of_int (strtol10 s) :: 32 word))"

fun find_last_of :: "char \<Rightarrow> string \<Rightarrow> nat option" where
  "find_last_of c [] = None"
| "find_last_of c (x # xs) =
     (case find_last_of c xs of
        Some i \<Rightarrow> Some (Suc i)
      | None \<Rightarrow> (if x = c then Some 0 else None))"

definition ParseIPAddress :: "string \<Rightarrow> (string \<times> u16) option" where
  "ParseIPAddress host_port_str =
     (let host_port = filter (\<lambda>c. c \<noteq> CHR '' '') host_port_str
      in if host_port = [] then None
         else case find_last_of (CHR '':'') host_port of
             None \<Rightarrow> None
           | Some d \<Rightarrow>
               if d = 0 \<or> d = length host_port - 1 then None
               else Some (take d host_port, atoi_u16 (drop (d + 1) host_port)))"

text \<open>\<open>std::to_string\<close> of an unsigned number: its decimal digits, most significant first.\<close>

definition digit_char :: "nat \<Rightarrow> char" where
  "digit_char d = char_of (48 + d)"

fun to_string :: "nat \<Rightarrow> string" where
  "to_string n = (if n < 10 then [digit_char n] else to_string (n div 10) @ [digit_char (n mod 10)])"

declare to_string.simps [simp del]

section \<open>Object and buffer sizes\<close>

definition AlignedObjectSize :: "int \<Rightarrow> int \<Rightarrow> int" where
  "AlignedObjectSize objsize alignment =
     (let align_mask = alignment - 1
      in (objsize + align_mask) AND NOT align_mask)"

definition EstimateBufferSize :: "int \<Rightarrow> int \<Rightarrow> int" where
  "EstimateBufferSize align_objsize alignment =
     (let buf_size = kPageSize;
          num = (if align_objsize < buf_size then buf_size div align_objsize else 16);
          num = (if num < 16 then 16 else num)
      in (num * align_objsize + kPageSize - 1) div kPageSize * kPageSize)"

definition EstimateNumOfBufferObjects :: "int \<Rightarrow> int \<Rightarrow> int \<Rightarrow> int" where
  "EstimateNumOfBufferObjects buf_size align_objsize alignment = buf_size div align_objsize"

definition EstimateNumOfObjectsPerBlock :: "int \<Rightarrow> int" where
  "EstimateNumOfObjectsPerBlock aligned_objsize =
     (if aligned_objsize * 32 \<le> kPageSize then kPageSize div aligned_objsize else 32)"

section \<open>Rounding to a power of two\<close>

lemma smear_step:
  fixes x y :: "'a::len word"
  assumes "\<And>n. bit y n \<longleftrightarrow> (\<exists>j<m. bit x (n + j))"
  shows "bit (y OR drop_bit m y) n \<longleftrightarrow> (\<exists>j<m + m. bit x (n + j))"
proof -
  have "bit (y OR drop_bit m y) n \<longleftrightarrow> (\<exists>j<m. bit x (n + j)) \<or> (\<exists>j<m. bit x (n + (m + j)))"
    by (simp add: bit_simps assms ac_simps)
  also have "\<dots> \<longleftrightarrow> (\<exists>j<m + m. bit x (n + j))"
  proof
    assume "\<exists>j<m + m. bit x (n + j)"
    then obtain j where j: "j < m + m" "bit x (n + j)" by blast
    show "(\<exists>j<m. bit x (n + j)) \<or> (\<exists>j<m. bit x (n + (m + j)))"
    proof (cases "j < m")
      case False
      then have "j - m < m" "bit x (n + (m + (j - m)))" using j by auto
      then show ?thesis by blast
    qed (use j in blast)
  next
    assume "(\<exists>j<m. bit x (n + j)) \<or> (\<exists>j<m. bit x (n + (m + j)))"
    then show "\<exists>j<m + m. bit x (n + j)"
      by (meson add_strict_left_mono trans_less_add1)
  qed
  finally show ?thesis .
qed

lemma bit_smear:
  fixes x :: u64
  defines "x1 \<equiv> x OR drop_bit 1 x"
  defines "x2 \<equiv> x1 OR drop_bit 2 x1"
  defines "x3 \<equiv> x2 OR drop_bit 4 x2"
  defines "x4 \<equiv> x3 OR drop_bit 8 x3"
  defines "x5 \<equiv> x4 OR drop_bit 16 x4"
  shows "bit (x5 OR drop_bit 32 x5) n \<longleftrightarrow> (\<exists>j<64. bit x (n + j))"
proof -
  have 0: "bit x n \<longleftrightarrow> (\<exists>j<1. bit x (n + j))" for n by simp
  have 1: "bit x1 n \<longleftrightarrow> (\<exists>j<2. bit x (n + j))" for n
    using smear_step [of x 1 x n, OF 0] by (simp only: x1_def one_add_one)
  have 2: "bit x2 n \<longleftrightarrow> (\<exists>j<4. bit x (n + j))" for n
    using smear_step [of x1 2 x n, OF 1] by (simp add: x2_def)
  have 3: "bit x3 n \<longleftrightarrow> (\<exists>j<8. bit x (n + j))" for n
    using smear_step [of x2 4 x n, OF 2] by (simp add: x3_def)
  have 4: "bit x4 n \<longleftrightarrow> (\<exists>j<16. bit x (n + j))" for n
    using smear_step [of x3 8 x n, OF 3] by (simp add: x4_def)
  have 5: "bit x5 n \<longleftrightarrow> (\<exists>j<32. bit x (n + j))" for n
    using smear_step [of x4 16 x n, OF 4] by (simp add: x5_def)
  show ?thesis
    using smear_step [of x5 32 x n, OF 5] by simp
qed

lemma smear_eq_mask:
  fixes y :: u64
  assumes "2 ^ t \<le> unat y" "unat y < 2 ^ Suc t"
  shows "(\<exists>j<64. bit y (n + j)) \<longleftrightarrow> bit (mask (Suc t) :: u64) n"
proof -
  have t: "t < 64" using top_bit(2) [OF assms] by (simp add: bit_word_iff_odd)
  have "(\<exists>j<64. bit y (n + j)) \<longleftrightarrow> n \<le> t"
  proof
    show "\<exists>j<64. bit y (n + j) \<Longrightarrow> n \<le> t"
      using top_bit(1) [OF assms] by fastforce
    assume "n \<le> t"
    then show "\<exists>j<64. bit y (n + j)"
      using top_bit(2) [OF assms] t by (intro exI [of _ "t - n"]) auto
  qed
  then show ?thesis using t by (auto simp: bit_mask_iff)
qed

lemma PowOfTwo_bounds:
  assumes "1 < unat x" "unat x \<le> 2 ^ 63"
  obtains k where "k \<le> 63" "unat (PowOfTwo x) = 2 ^ k" "unat x \<le> 2 ^ k" "2 ^ k < 2 * unat x"
proof -
  let ?y = "x - 1"
  have x0: "x \<noteq> 0" using assms by auto
  then have y: "unat ?y = unat x - 1" by (rule unat_minus_one)
  obtain t where t: "2 ^ t \<le> unat ?y" "unat ?y < 2 ^ Suc t"
  proof -
    have "1 \<le> unat ?y" using y assms by linarith
    then show thesis using ex_power_ivl1 [of 2 "unat ?y"] that by auto
  qed
  have "(2::nat) ^ t < 2 ^ 63" using t(1) y assms by linarith
  then have "t < 63" by (rule power_less_imp_less_exp [rotated]) simp
  then have t63: "Suc t \<le> 63" by (simp add: Suc_le_eq)
  have "PowOfTwo x = mask (Suc t) + 1"
    unfolding PowOfTwo_def Let_def
    by (rule arg_cong [where f = "\<lambda>z. z + 1"], rule bit_eqI)
       (simp only: bit_smear smear_eq_mask [OF t])
  also have "\<dots> = 2 ^ Suc t" by (simp only: mask_eq_exp_minus_1 diff_add_cancel)
  finally have P: "PowOfTwo x = 2 ^ Suc t" .
  have U: "unat (PowOfTwo x) = 2 ^ Suc t"
    unfolding P using t63 by (intro unat_power_two) simp
  show thesis
    by (rule that [of "Suc t", OF t63 U]) (use t y assms in auto)
qed


lemma PowOfTwo_one: "PowOfTwo 1 = 1"
  by (simp add: PowOfTwo_def)

lemma IsPowOfTwo_never: "\<not> IsPowOfTwo x"
proof
  define x1 where "x1 = x OR push_bit 1 x"
  define x2 where "x2 = x1 OR push_bit 2 x1"
  define x3 where "x3 = x2 OR push_bit 4 x2"
  define x4 where "x4 = x3 OR push_bit 8 x3"
  define x5 where "x5 = x4 OR push_bit 16 x4"
  define x6 where "x6 = x5 OR push_bit 32 x5"
  have step: "(\<not> bit y 0 \<or> bit y 1) \<Longrightarrow> 2 \<le> k \<Longrightarrow>
      \<not> bit (y OR push_bit k y) 0 \<or> bit (y OR push_bit k y) 1" for y :: u64 and k
    unfolding bit_or_iff bit_push_bit_iff by auto
  have "\<not> bit x1 0 \<or> bit x1 1"
    unfolding x1_def bit_or_iff bit_push_bit_iff by auto
  then have "\<not> bit x6 0 \<or> bit x6 1"
    unfolding x2_def x3_def x4_def x5_def x6_def by (intro step) simp_all
  moreover assume "IsPowOfTwo x"
  then have "x6 = 1"
    by (simp add: IsPowOfTwo_def Let_def x1_def x2_def x3_def x4_def x5_def x6_def)
  ultimately show False by (simp add: bit_1_iff)
qed

section \<open>Printing and parsing addresses\<close>

lemma digit_char_simps [simp]:
  assumes "d < 10"
  shows "is_digit (digit_char d)" "digit_value (digit_char d) = int d"
    "\<not> is_space (digit_char d)" "digit_char d \<noteq> CHR ''-''" "digit_char d \<noteq> CHR ''+''"
    "digit_char d \<noteq> CHR '':''" "digit_char d \<noteq> CHR '' ''"
proof -
  have c: "(of_char (digit_char d) :: nat) = 48 + d"
    using assms by (simp add: digit_char_def)
  then show d: "is_digit (digit_char d)" and "digit_value (digit_char d) = int d"
    using assms by (simp_all add: is_digit_def digit_value_def)
  have "\<not> is_digit (CHR ''-'')" "\<not> is_digit (CHR ''+'')" "\<not> is_digit (CHR '':'')"
    "\<not> is_digit (CHR '' '')"
    by (simp_all add: is_digit_def)
  with d show "digit_char d \<noteq> CHR ''-''" "digit_char d \<noteq> CHR ''+''"
    "digit_char d \<noteq> CHR '':''" "digit_char d \<noteq> CHR '' ''"
    by auto
  then show "\<not> is_space (digit_char d)"
    using c by (simp add: is_space_def)
qed

lemma to_string_chars:
  "set (to_string n) \<subseteq> digit_char ` {..<10}" "to_string n \<noteq> []"
  by (induction n rule: to_string.induct; subst to_string.simps; auto)+

lemma to_string_value: "digits_value (to_string n) = int n"
proof (induction n rule: to_string.induct)
  case (1 n)
  then show ?case
    by (subst to_string.simps) (auto simp: digits_value_def zdiv_int zmod_int)
qed


lemma to_string_all:
  "c \<in> set (to_string n) \<Longrightarrow> is_digit c \<and> \<not> is_space c \<and> c \<noteq> CHR ''-'' \<and> c \<noteq> CHR ''+'' \<and>
     c \<noteq> CHR '':'' \<and> c \<noteq> CHR '' ''"
proof -
  assume "c \<in> set (to_string n)"
  then obtain d where "d < 10" "c = digit_char d"
    using to_string_chars(1) [of n] by auto
  then show ?thesis by simp
qed

lemma find_last_of_append:
  "c \<notin> set ys \<Longrightarrow> find_last_of c (xs @ c # ys) = Some (length xs)"
proof (induction xs)
  case Nil
  then have "find_last_of c ys = None" by (induction ys) auto
  then show ?case by simp
qed simp

lemma strtol10_to_string:
  assumes "n < 2 ^ 63"
  shows "strtol10 (to_string n) = int n"
proof -
  obtain c cs where cs: "to_string n = c # cs"
    using to_string_chars(2) [of n] by (cases "to_string n") auto
  then have c: "\<not> is_space c" "c \<noteq> CHR ''-''" "c \<noteq> CHR ''+''"
    using to_string_all [of c n] by auto
  have t: "is_digit c" "takeWhile is_digit cs = cs"
    using to_string_all [of _ n] cs by simp_all
  have v: "digits_value (c # cs) = int n"
    using to_string_value [of n] cs by simp
  have "int n < 2 ^ 63" using assms by simp
  then show ?thesis
    using c unfolding strtol10_def cs Let_def by (simp add: t v)
qed

lemma ParseIPAddress_printed:
  assumes "host \<noteq> []" "CHR '' '' \<notin> set host" "port < 65536"
  shows "ParseIPAddress (host @ '':'' @ to_string port) = Some (host, of_nat port)"
proof -
  let ?s = "host @ CHR '':'' # to_string port"
  have f: "filter (\<lambda>c. c \<noteq> CHR '' '') ?s = ?s"
    using assms(2) to_string_all [of _ port] by (subst filter_True) auto
  have l: "find_last_of (CHR '':'') ?s = Some (length host)"
    using to_string_all [of _ port] by (intro find_last_of_append) auto
  have "strtol10 (to_string port) = int port"
    using assms(3) by (intro strtol10_to_string) simp
  moreover have "sint (word_of_int (int port) :: 32 word) = int port"
    unfolding sint_sbintrunc' using assms(3) by (intro signed_take_bit_int_eq_self) simp_all
  ultimately have a: "atoi_u16 (to_string port) = of_nat port"
    unfolding atoi_u16_def by (simp only: of_int_of_nat_eq)
  show ?thesis
    using assms(1) f l a to_string_chars(2) [of port] by (simp add: ParseIPAddress_def)
qed

section \<open>Alignment and buffer sizes\<close>

lemma AlignedObjectSize_pow2:
  "AlignedObjectSize n (2 ^ k) = (n + (2 ^ k - 1)) div 2 ^ k * 2 ^ k"
  by (simp add: AlignedObjectSize_def Let_def and_not_low_bits)

lemma round_up_div:
  fixes n m :: int
  assumes "0 < m"
  shows "n \<le> (n + (m - 1)) div m * m" "(n + (m - 1)) div m * m < n + m"
proof -
  have e: "(n + (m - 1)) div m * m = (n + (m - 1)) - (n + (m - 1)) mod m"
    by (rule minus_mod_eq_div_mult [symmetric])
  have "0 \<le> (n + (m - 1)) mod m" "(n + (m - 1)) mod m < m" using assms by simp_all
  then show "n \<le> (n + (m - 1)) div m * m" "(n + (m - 1)) div m * m < n + m"
    unfolding e by linarith+
qed

lemma AlignedObjectSize_aligned:
  "2 ^ k dvd AlignedObjectSize n (2 ^ k)" "n \<le> AlignedObjectSize n (2 ^ k)"
  "AlignedObjectSize n (2 ^ k) < n + 2 ^ k"
  using round_up_div [of "2 ^ k" n] by (simp_all add: AlignedObjectSize_pow2)

lemma EstimateBufferSize_holds:
  assumes "0 < n"
  shows "kPageSize dvd EstimateBufferSize n a"
    "16 * n \<le> EstimateBufferSize n a"
    "16 \<le> EstimateNumOfBufferObjects (EstimateBufferSize n a) n a"
proof -
  let ?num = "if (if n < kPageSize then kPageSize div n else 16) < 16 then 16
              else (if n < kPageSize then kPageSize div n else 16)"
  have e: "EstimateBufferSize n a = (?num * n + (kPageSize - 1)) div kPageSize * kPageSize"
    by (simp only: EstimateBufferSize_def Let_def add_diff_eq)
  show "kPageSize dvd EstimateBufferSize n a" unfolding e by simp
  have "16 * n \<le> ?num * n" using assms by (intro mult_right_mono) auto
  also have "\<dots> \<le> EstimateBufferSize n a"
    unfolding e by (rule round_up_div) (simp add: kPageSize_def)
  finally show b: "16 * n \<le> EstimateBufferSize n a" .
  then show "16 \<le> EstimateNumOfBufferObjects (EstimateBufferSize n a) n a"
    using assms zdiv_mono1 [OF b assms] by (simp add: EstimateNumOfBufferObjects_def)
qed

section \<open>Properties\<close>

text \<open>
  C21: \<open>PowOfTwo\<close> rounds up to a power of two.  For \<open>1 \<le> x \<le> 2 ^ 63\<close> the result is a power of two
  that is at least \<open>x\<close> and less than twice \<open>x\<close>.
\<close>

theorem PowOfTwo_rounds_up:
  assumes "0 < unat x" "unat x \<le> 2 ^ 63"
  shows "\<exists>k\<le>63. unat (PowOfTwo x) = 2 ^ k \<and> unat x \<le> 2 ^ k \<and> 2 ^ k < 2 * unat x"
proof (cases "unat x = 1")
  case True
  then have "x = 1" by (metis unat_1 unsigned_word_eqI)
  then show ?thesis by (intro exI [of _ 0]) (simp add: PowOfTwo_one)
next
  case False
  then have "1 < unat x" using assms(1) by linarith
  from PowOfTwo_bounds [OF this assms(2)] show ?thesis by blast
qed

theorem PowOfTwo_rounds_up_witness: "\<exists>k\<le>63. unat (PowOfTwo 100) = 2 ^ k \<and> unat (100 :: u64) \<le> 2 ^ k"
  using PowOfTwo_rounds_up [of 100] by auto

text \<open>
  C22: an address that is printed as host, colon, port is parsed back.  The host must be non-empty and
  free of blanks (it may contain colons, as IPv6 addresses do) and the port must fit 16 bits.
\<close>

theorem ParseIPAddress_roundtrip:
  assumes "host \<noteq> []" "CHR '' '' \<notin> set host" "port < 65536"
  shows "ParseIPAddress (host @ '':'' @ to_string port) = Some (host, of_nat port)"
  using assms by (rule ParseIPAddress_printed)

theorem ParseIPAddress_roundtrip_witness:
  "ParseIPAddress (''127.0.0.1'' @ '':'' @ to_string 8080) = Some (''127.0.0.1'', of_nat 8080)"
  by (rule ParseIPAddress_roundtrip) simp_all

text \<open>
  The object cache's blocks are big enough.  Every block is a whole number of pages and holds at
  least 16 objects of the size it was estimated for; and \<open>AlignedObjectSize\<close> with a power-of-two
  alignment rounds up to the next multiple of the alignment.
\<close>

lemma cache_blocks_are_big_enough:
  assumes "0 < n"
  shows "kPageSize dvd EstimateBufferSize n a \<and> 16 * n \<le> EstimateBufferSize n a \<and>
    16 \<le> EstimateNumOfBufferObjects (EstimateBufferSize n a) n a \<and>
    2 ^ k dvd AlignedObjectSize n (2 ^ k) \<and> n \<le> AlignedObjectSize n (2 ^ k) \<and>
    AlignedObjectSize n (2 ^ k) < n + 2 ^ k"
  using EstimateBufferSize_holds [OF assms] AlignedObjectSize_aligned [where n = n and k = k] by blast

text \<open>
  \<open>IsPowOfTwo\<close> never holds.  Its last line tests \<open>!(x & x)\<close>, which is \<open>x == 0\<close>, on
  a word that is never zero there, so the function answers \<open>false\<close> for powers of two too.
\<close>

lemma IsPowOfTwo_is_constant: "IsPowOfTwo x = False"
  using IsPowOfTwo_never by simp

end
