(* ===== verification/Fifo_Spec.thy ===== *)
theory Fifo_Spec
  imports Mcast_Prelude
begin

text \<open>
  The contract every queue of the library keeps with its clients: a queue holds a list,
  pushing appends to it, popping takes its head.  The locale states the contract; the
  client lemmas (a run of pushes and pops hands out what was pushed, in order, nothing
  lost and nothing invented) are proved once from it.  \<open>limit\<close> is the number of elements
  the queue is promised to hold.
\<close>

datatype 'a queue_op = Push 'a | Pop

fun pushed :: "'a queue_op list \<Rightarrow> 'a list" where
  "pushed [] = []"
| "pushed (Push x # ops) = x # pushed ops"
| "pushed (Pop # ops) = pushed ops"

text \<open>Running operations against a queue, collecting what the successful pops return.\<close>

fun queue_run ::
  "('a \<Rightarrow> 'q \<Rightarrow> 'q) \<Rightarrow> ('q \<Rightarrow> ('a \<times> 'q) option) \<Rightarrow> 'a queue_op list \<Rightarrow> 'q \<Rightarrow> 'a list \<times> 'q"
where
  "queue_run push pop [] q = ([], q)"
| "queue_run push pop (Push x # ops) q = queue_run push pop ops (push x q)"
| "queue_run push pop (Pop # ops) q =
     (case pop q of
        None \<Rightarrow> queue_run push pop ops q
      | Some (x, q') \<Rightarrow> (let (out, q'') = queue_run push pop ops q' in (x # out, q'')))"

locale fifo_queue =
  fixes invar :: "'q \<Rightarrow> bool"
    and contents :: "'q \<Rightarrow> 'a list"
    and limit :: nat
    and push :: "'a \<Rightarrow> 'q \<Rightarrow> 'q"
    and pop :: "'q \<Rightarrow> ('a \<times> 'q) option"
  assumes push_invar: "invar q \<Longrightarrow> length (contents q) < limit \<Longrightarrow> invar (push x q)"
    and push_contents:
      "invar q \<Longrightarrow> length (contents q) < limit \<Longrightarrow> contents (push x q) = contents q @ [x]"
    and pop_Nil: "invar q \<Longrightarrow> contents q = [] \<Longrightarrow> pop q = None"
    and pop_Cons: "invar q \<Longrightarrow> contents q = x # xs \<Longrightarrow>
      \<exists>q'. pop q = Some (x, q') \<and> invar q' \<and> contents q' = xs"
begin

lemma pop_cases:
  assumes "invar q"
  obtains (empty) "contents q = []" "pop q = None"
    | (elem) x q' where "pop q = Some (x, q')" "invar q'" "contents q = x # contents q'"
proof (cases "contents q")
  case Nil
  then show thesis using pop_Nil [OF assms] that(1) by blast
next
  case (Cons x xs)
  then show thesis using pop_Cons [OF assms Cons] that(2) by blast
qed

lemma run_conserves:
  assumes "invar q" "length (contents q) + length (pushed ops) \<le> limit"
    and "queue_run push pop ops q = (out, q')"
  shows "invar q' \<and> contents q @ pushed ops = out @ contents q'"
  using assms
proof (induction ops arbitrary: q out q')
  case Nil
  then show ?case by auto
next
  case (Cons op ops)
  show ?case
  proof (cases op)
    case (Push x)
    with Cons.prems have len: "length (contents q) < limit" by simp
    have "invar q' \<and> contents (push x q) @ pushed ops = out @ contents q'"
      using Cons.prems Push push_invar [OF Cons.prems(1) len] push_contents [OF Cons.prems(1) len]
      by (intro Cons.IH) auto
    then show ?thesis using Push push_contents [OF Cons.prems(1) len] by simp
  next
    case Pop
    from Cons.prems(1) show ?thesis
    proof (cases rule: pop_cases)
      case empty
      with Cons.IH [of q out q'] Cons.prems Pop show ?thesis by simp
    next
      case (elem x q1)
      obtain out1 where "queue_run push pop ops q1 = (out1, q')" "out = x # out1"
        using Cons.prems(3) Pop elem by (auto split: prod.splits)
      with Cons.IH [of q1 out1 q'] Cons.prems(2) Pop elem show ?thesis by simp
    qed
  qed
qed

end

end
