(* ===== verification/Circular_Buffer.thy ===== *)
theory Circular_Buffer
  imports Util Fifo_Spec
begin

text \<open>
  \<open>util/CircularBuffer.h\<close>: a growing ring buffer.  The raw storage is a list of cells, each
  \<open>Some x\<close> while an object lives there and \<open>None\<close> while the cell is raw memory; \<open>begin_\<close> and
  \<open>end_\<close> are free-running 64-bit counters that are reduced to a cell by masking with
  \<open>capacity_ - 1\<close>.
\<close>

section \<open>State and operations\<close>

record 'a circular_buffer =
  cb_size :: u64
  cb_capacity :: u64
  cb_begin :: u64
  cb_end :: u64
  cb_vector :: "'a option list"

definition CircularBuffer_NewBlock :: "u64 \<Rightarrow> 'a option list" where
  "CircularBuffer_NewBlock n = replicate (unat n) None"

definition CircularBuffer :: "u64 \<Rightarrow> 'a circular_buffer" where
  "CircularBuffer cap =
     \<lparr>cb_size = 0, cb_capacity = PowOfTwo cap, cb_begin = 0, cb_end = 0,
      cb_vector = CircularBuffer_NewBlock (PowOfTwo cap)\<rparr>"

definition CircularBuffer_GetIndex :: "'a circular_buffer \<Rightarrow> u64 \<Rightarrow> u64" where
  "CircularBuffer_GetIndex q p = p AND (cb_capacity q - 1)"

definition CircularBuffer_Get :: "'a circular_buffer \<Rightarrow> u64 \<Rightarrow> 'a option" where
  "CircularBuffer_Get q i = cb_vector q ! unat (CircularBuffer_GetIndex q i)"

definition CircularBuffer_BeginPosition :: "'a circular_buffer \<Rightarrow> u64" where
  "CircularBuffer_BeginPosition q = CircularBuffer_GetIndex q (cb_begin q)"

definition CircularBuffer_EndPosition :: "'a circular_buffer \<Rightarrow> u64" where
  "CircularBuffer_EndPosition q = CircularBuffer_GetIndex q (cb_end q)"

definition CircularBuffer_Construct :: "'a circular_buffer \<Rightarrow> u64 \<Rightarrow> 'a \<Rightarrow> 'a circular_buffer" where
  "CircularBuffer_Construct q i x = q\<lparr>cb_vector := (cb_vector q)[unat (CircularBuffer_GetIndex q i) := Some x]\<rparr>"

definition CircularBuffer_Destroy :: "'a circular_buffer \<Rightarrow> u64 \<Rightarrow> 'a circular_buffer" where
  "CircularBuffer_Destroy q i = q\<lparr>cb_vector := (cb_vector q)[unat (CircularBuffer_GetIndex q i) := None]\<rparr>"

fun CircularBuffer_Grow_loop :: "'a circular_buffer \<Rightarrow> nat \<Rightarrow> nat \<Rightarrow> u64 \<Rightarrow> 'a option list \<Rightarrow> 'a option list" where
  "CircularBuffer_Grow_loop q 0 i b new_vector = new_vector"
| "CircularBuffer_Grow_loop q (Suc n) i b new_vector =
     CircularBuffer_Grow_loop q n (Suc i) (b + 1) (new_vector[i := CircularBuffer_Get q b])"

definition CircularBuffer_Grow :: "'a circular_buffer \<Rightarrow> u64 \<Rightarrow> 'a circular_buffer" where
  "CircularBuffer_Grow q new_cap =
     q\<lparr>cb_vector := CircularBuffer_Grow_loop q (unat (cb_size q)) 0 (cb_begin q) (CircularBuffer_NewBlock new_cap),
       cb_begin := 0, cb_end := cb_size q, cb_capacity := new_cap\<rparr>"

definition CircularBuffer_PushBack :: "'a \<Rightarrow> 'a circular_buffer \<Rightarrow> 'a circular_buffer" where
  "CircularBuffer_PushBack x q0 =
     (let q = (if cb_size q0 = cb_capacity q0 then CircularBuffer_Grow q0 (cb_capacity q0 * 2) else q0);
          q = CircularBuffer_Construct q (cb_end q) x
      in q\<lparr>cb_end := cb_end q + 1, cb_size := cb_size q + 1\<rparr>)"

definition CircularBuffer_Back :: "'a circular_buffer \<Rightarrow> 'a option" where
  "CircularBuffer_Back q = CircularBuffer_Get q (cb_end q - 1)"

definition CircularBuffer_Front :: "'a circular_buffer \<Rightarrow> 'a option" where
  "CircularBuffer_Front q = CircularBuffer_Get q (cb_begin q)"

definition CircularBuffer_PopFront :: "'a circular_buffer \<Rightarrow> 'a circular_buffer" where
  "CircularBuffer_PopFront q0 =
     (let q = CircularBuffer_Destroy q0 (cb_begin q0)
      in q\<lparr>cb_begin := cb_begin q + 1, cb_size := cb_size q - 1\<rparr>)"

definition CircularBuffer_Size :: "'a circular_buffer \<Rightarrow> u64" where
  "CircularBuffer_Size q = cb_size q"

definition CircularBuffer_Empty :: "'a circular_buffer \<Rightarrow> bool" where
  "CircularBuffer_Empty q \<longleftrightarrow> CircularBuffer_Size q = 0"

fun CircularBuffer_Clear_loop :: "nat \<Rightarrow> u64 \<Rightarrow> 'a circular_buffer \<Rightarrow> 'a circular_buffer" where
  "CircularBuffer_Clear_loop 0 first q = q"
| "CircularBuffer_Clear_loop (Suc n) first q =
     CircularBuffer_Clear_loop n (first + 1) ((CircularBuffer_Destroy q first)\<lparr>cb_size := cb_size q - 1\<rparr>)"

definition CircularBuffer_Clear :: "'a circular_buffer \<Rightarrow> 'a circular_buffer" where
  "CircularBuffer_Clear q = (CircularBuffer_Clear_loop (unat (cb_size q)) (cb_begin q) q)\<lparr>cb_begin := 0, cb_end := 0\<rparr>"

text \<open>The consumer's step: look at the front, then drop it.\<close>

definition CircularBuffer_TakeFront :: "'a circular_buffer \<Rightarrow> ('a \<times> 'a circular_buffer) option" where
  "CircularBuffer_TakeFront q =
     (if CircularBuffer_Empty q then None
      else case CircularBuffer_Front q of None \<Rightarrow> None | Some x \<Rightarrow> Some (x, CircularBuffer_PopFront q))"

definition kBlockNumObjects :: "int \<Rightarrow> int" where
  "kBlockNumObjects kObjectSize = (if kObjectSize * 32 \<le> kPageSize then kPageSize div kObjectSize else 32)"

definition CircularBuffer_capacity :: "'a circular_buffer \<Rightarrow> u64" where
  "CircularBuffer_capacity q = cb_capacity q"

text \<open>The destructor; the storage it frees is the second result, with what still lives in it.\<close>

definition CircularBuffer_destroy :: "'a circular_buffer \<Rightarrow> 'a circular_buffer \<times> 'a option list" where
  "CircularBuffer_destroy q = (let q = CircularBuffer_Clear q in (q\<lparr>cb_vector := []\<rparr>, cb_vector q))"

subsection \<open>Iterators\<close>

text \<open>
  An index and the address of a buffer, \<open>None\<close> for the null pointer; \<open>bufs\<close> are the buffers in
  memory.  The post-increment is written as in the source.  \<open>ConstIterator\<close> has the same fields; its
  post-increment and post-decrement do not compile when they are used.
\<close>

record cb_iterator =
  it_index :: u64
  it_buffer :: "nat option"

definition Iterator_default :: cb_iterator where "Iterator_default = \<lparr>it_index = 0, it_buffer = None\<rparr>"

definition Iterator :: "u64 \<Rightarrow> nat \<Rightarrow> cb_iterator" where "Iterator i buf = \<lparr>it_index = i, it_buffer = Some buf\<rparr>"

definition Iterator_deref :: "(nat \<Rightarrow> 'a circular_buffer) \<Rightarrow> cb_iterator \<Rightarrow> 'a option" where
  "Iterator_deref bufs it =
     (case it_buffer it of None \<Rightarrow> None | Some buf \<Rightarrow> CircularBuffer_Get (bufs buf) (it_index it))"

definition Iterator_pre_inc :: "cb_iterator \<Rightarrow> cb_iterator" where
  "Iterator_pre_inc it = it\<lparr>it_index := it_index it + 1\<rparr>"

definition Iterator_pre_dec :: "cb_iterator \<Rightarrow> cb_iterator" where
  "Iterator_pre_dec it = it\<lparr>it_index := it_index it - 1\<rparr>"

text \<open>The result and the iterator after it.\<close>

definition Iterator_post_inc :: "cb_iterator \<Rightarrow> cb_iterator \<times> cb_iterator" where
  "Iterator_post_inc it = (it, it\<lparr>it_index := it_index it - 1\<rparr>)"

definition Iterator_post_dec :: "cb_iterator \<Rightarrow> cb_iterator \<times> cb_iterator" where
  "Iterator_post_dec it = (it, it\<lparr>it_index := it_index it - 1\<rparr>)"

definition Iterator_eq :: "cb_iterator \<Rightarrow> cb_iterator \<Rightarrow> bool" where
  "Iterator_eq lhs rhs \<longleftrightarrow> it_buffer lhs = it_buffer rhs \<and> it_index lhs = it_index rhs"

definition Iterator_neq :: "cb_iterator \<Rightarrow> cb_iterator \<Rightarrow> bool" where
  "Iterator_neq lhs rhs \<longleftrightarrow> \<not> Iterator_eq lhs rhs"

definition CircularBuffer_begin :: "(nat \<Rightarrow> 'a circular_buffer) \<Rightarrow> nat \<Rightarrow> cb_iterator" where
  "CircularBuffer_begin bufs buf = Iterator (cb_begin (bufs buf)) buf"

definition CircularBuffer_end :: "(nat \<Rightarrow> 'a circular_buffer) \<Rightarrow> nat \<Rightarrow> cb_iterator" where
  "CircularBuffer_end bufs buf = Iterator (cb_end (bufs buf)) buf"

definition ConstIterator :: "u64 \<Rightarrow> nat \<Rightarrow> cb_iterator" where
  "ConstIterator i buf = \<lparr>it_index = i, it_buffer = Some buf\<rparr>"

definition ConstIterator_deref :: "(nat \<Rightarrow> 'a circular_buffer) \<Rightarrow> cb_iterator \<Rightarrow> 'a option" where
  "ConstIterator_deref bufs it =
     (case it_buffer it of None \<Rightarrow> None | Some buf \<Rightarrow> CircularBuffer_Get (bufs buf) (it_index it))"

definition ConstIterator_pre_inc :: "cb_iterator \<Rightarrow> cb_iterator" where
  "ConstIterator_pre_inc it = it\<lparr>it_index := it_index it + 1\<rparr>"

definition ConstIterator_pre_dec :: "cb_iterator \<Rightarrow> cb_iterator" where
  "ConstIterator_pre_dec it = it\<lparr>it_index := it_index it - 1\<rparr>"

definition ConstIterator_eq :: "cb_iterator \<Rightarrow> cb_iterator \<Rightarrow> bool" where
  "ConstIterator_eq lhs rhs \<longleftrightarrow> it_buffer lhs = it_buffer rhs \<and> it_index lhs = it_index rhs"

definition CircularBuffer_cbegin :: "(nat \<Rightarrow> 'a circular_buffer) \<Rightarrow> nat \<Rightarrow> cb_iterator" where
  "CircularBuffer_cbegin bufs buf = ConstIterator (cb_begin (bufs buf)) buf"

definition CircularBuffer_cend :: "(nat \<Rightarrow> 'a circular_buffer) \<Rightarrow> nat \<Rightarrow> cb_iterator" where
  "CircularBuffer_cend bufs buf = ConstIterator (cb_end (bufs buf)) buf"

section \<open>The abstract queue\<close>

definition cb_slot :: "'a circular_buffer \<Rightarrow> nat \<Rightarrow> nat" where
  "cb_slot q i = unat (CircularBuffer_GetIndex q (cb_begin q + of_nat i))"

definition cb_elems :: "'a circular_buffer \<Rightarrow> 'a list" where
  "cb_elems q = map (\<lambda>i. the (cb_vector q ! cb_slot q i)) [0..<unat (cb_size q)]"

definition cb_invar :: "'a circular_buffer \<Rightarrow> bool" where
  "cb_invar q \<longleftrightarrow>
     (\<exists>k\<le>63. cb_capacity q = 2 ^ k) \<and>
     cb_size q \<le> cb_capacity q \<and>
     cb_end q = cb_begin q + cb_size q \<and>
     length (cb_vector q) = unat (cb_capacity q) \<and>
     (\<forall>i < unat (cb_capacity q). cb_vector q ! cb_slot q i \<noteq> None \<longleftrightarrow> i < unat (cb_size q))"

text \<open>The promised number of elements: growth doubles a capacity below \<open>2 ^ 63\<close>.\<close>

definition cb_limit :: nat where
  "cb_limit = 2 ^ 62"

lemma cb_slot_eq:
  assumes "cb_capacity q = 2 ^ k" "k \<le> 63"
  shows "cb_slot q i = (unat (cb_begin q) + i) mod 2 ^ k"
proof -
  have "cb_slot q i = unat (cb_begin q + of_nat i) mod 2 ^ k"
    using assms by (simp add: cb_slot_def CircularBuffer_GetIndex_def unat_and_mask flip: mask_eq_exp_minus_1)
  also have "\<dots> = (unat (cb_begin q) + i) mod 2 ^ 64 mod 2 ^ k"
    by (simp add: unat_word_ariths unat_of_nat mod_simps)
  also have "\<dots> = (unat (cb_begin q) + i) mod 2 ^ k"
    using assms(2) by (intro mod_mod_cancel le_imp_power_dvd) simp
  finally show ?thesis .
qed


lemma cb_slot_less: "cb_capacity q = 2 ^ k \<Longrightarrow> k \<le> 63 \<Longrightarrow> cb_slot q i < 2 ^ k"
  by (simp add: cb_slot_eq)

lemma add_mod_inj:
  fixes b i j c :: nat
  assumes "i < c" "j < c" "(b + i) mod c = (b + j) mod c"
  shows "i = j"
proof -
  have aux: "i = j" if "i \<le> j" "j < c" "(b + i) mod c = (b + j) mod c" for i j
  proof -
    have "c dvd (b + j) - (b + i)"
      using that by (metis add_le_cancel_left mod_eq_dvd_iff_nat)
    then show ?thesis using that by (auto dest: dvd_imp_le)
  qed
  show ?thesis using aux [of i j] aux [of j i] assms by (cases "i \<le> j") auto
qed

lemma cb_slot_inj:
  assumes "cb_capacity q = 2 ^ k" "k \<le> 63" "i < 2 ^ k" "j < 2 ^ k"
  shows "cb_slot q i = cb_slot q j \<longleftrightarrow> i = j"
  using add_mod_inj [of i "2 ^ k" j] assms by (auto simp: cb_slot_eq)

lemma cb_invarE:
  assumes "cb_invar q"
  obtains k where "k \<le> 63" "cb_capacity q = 2 ^ k" "unat (cb_capacity q) = 2 ^ k"
    "unat (cb_size q) \<le> 2 ^ k" "cb_end q = cb_begin q + cb_size q" "length (cb_vector q) = 2 ^ k"
    "\<forall>i < 2 ^ k. cb_vector q ! cb_slot q i \<noteq> None \<longleftrightarrow> i < unat (cb_size q)"
proof -
  obtain k where k: "k \<le> 63" "cb_capacity q = 2 ^ k"
    using assms unfolding cb_invar_def by blast
  have u: "unat (cb_capacity q) = 2 ^ k" using k by (simp add: unat_power_two)
  show thesis
    by (rule that [OF k u]) (use assms u in \<open>auto simp: cb_invar_def word_le_nat_alt\<close>)
qed

lemma cb_invarI:
  assumes "k \<le> 63" "cb_capacity q = 2 ^ k" "unat (cb_size q) \<le> 2 ^ k"
    "cb_end q = cb_begin q + cb_size q" "length (cb_vector q) = 2 ^ k"
    "\<And>i. i < 2 ^ k \<Longrightarrow> cb_vector q ! cb_slot q i \<noteq> None \<longleftrightarrow> i < unat (cb_size q)"
  shows "cb_invar q"
proof -
  have u: "unat (2 ^ k :: u64) = 2 ^ k" using assms(1) by (intro unat_power_two) simp
  show ?thesis
    unfolding cb_invar_def assms(2) u word_le_nat_alt using assms by blast
qed

lemma length_cb_elems [simp]: "length (cb_elems q) = unat (cb_size q)"
  by (simp add: cb_elems_def)

lemma nth_cb_elems: "i < unat (cb_size q) \<Longrightarrow> cb_elems q ! i = the (cb_vector q ! cb_slot q i)"
  by (simp add: cb_elems_def)

section \<open>Construction\<close>

lemma CircularBuffer_invar:
  assumes "0 < unat cap" "unat cap \<le> 2 ^ 63"
  shows "cb_invar (CircularBuffer cap)" "cb_elems (CircularBuffer cap) = []"
proof -
  obtain k where k: "k \<le> 63" "unat (PowOfTwo cap) = 2 ^ k"
  proof (cases "unat cap = 1")
    case True
    then have "cap = 1" by (metis One_nat_def unat_1 unsigned_word_eqI)
    then show thesis using that [of 0] by (simp add: PowOfTwo_one)
  next
    case False
    with assms have "1 < unat cap" by linarith
    then show thesis using assms(2) by (rule PowOfTwo_bounds) (rule that)
  qed
  then have "unat (PowOfTwo cap) = unat (2 ^ k :: u64)" by (simp add: unat_power_two)
  then have P: "PowOfTwo cap = 2 ^ k" by (rule unsigned_word_eqI)
  show "cb_invar (CircularBuffer cap)"
    by (rule cb_invarI [of k]) (use k P in \<open>simp_all add: CircularBuffer_def
        CircularBuffer_NewBlock_def cb_slot_eq\<close>)
  show "cb_elems (CircularBuffer cap) = []"
    by (simp add: cb_elems_def CircularBuffer_def)
qed

section \<open>Growth\<close>

lemma Grow_loop_nth:
  assumes "j < length nv"
  shows "CircularBuffer_Grow_loop q n i b nv ! j =
    (if i \<le> j \<and> j < i + n then CircularBuffer_Get q (b + of_nat (j - i)) else nv ! j)"
  using assms
proof (induction n arbitrary: i b nv)
  case (Suc n)
  consider "j < i" | "i = j" | "i < j" by linarith
  then show ?case
  proof cases
    case 3
    then have "b + 1 + of_nat (j - Suc i) = b + of_nat (j - i)"
      by (simp add: of_nat_diff algebra_simps)
    with 3 Suc show ?thesis by auto
  qed (use Suc in \<open>auto simp: nth_list_update\<close>)
qed auto

lemma length_Grow_loop [simp]: "length (CircularBuffer_Grow_loop q n i b nv) = length nv"
  by (induction n arbitrary: i b nv) auto

lemma Get_begin_add: "CircularBuffer_Get q (cb_begin q + of_nat i) = cb_vector q ! cb_slot q i"
  by (simp add: CircularBuffer_Get_def cb_slot_def)

lemma CircularBuffer_Grow_correct:
  assumes "cb_invar q" "cb_size q = cb_capacity q" "unat (cb_size q) < cb_limit"
  defines "q' \<equiv> CircularBuffer_Grow q (cb_capacity q * 2)"
  shows "cb_invar q'" "cb_elems q' = cb_elems q" "unat (cb_size q') < unat (cb_capacity q')"
proof -
  from assms(1) obtain k where k: "k \<le> 63" "cb_capacity q = 2 ^ k" "unat (cb_capacity q) = 2 ^ k"
      "unat (cb_size q) \<le> 2 ^ k" "cb_end q = cb_begin q + cb_size q" "length (cb_vector q) = 2 ^ k"
    and cells: "\<forall>i < 2 ^ k. cb_vector q ! cb_slot q i \<noteq> None \<longleftrightarrow> i < unat (cb_size q)"
    by (rule cb_invarE) blast
  have "(2::nat) ^ k < 2 ^ 62" using assms(2,3) k by (simp add: cb_limit_def)
  then have k62: "k < 62" by (rule power_less_imp_less_exp [rotated]) simp
  have cap: "cb_capacity q * 2 = 2 ^ Suc k" using k by simp
  have un: "unat (cb_capacity q * 2) = 2 ^ Suc k"
    unfolding cap using k62 by (intro unat_power_two) simp
  have slot': "cb_slot q' i = i" if "i < 2 ^ Suc k" for i
  proof -
    have "cb_slot q' i = (unat (cb_begin q') + i) mod 2 ^ Suc k"
      by (rule cb_slot_eq) (use cap k62 in \<open>auto simp: q'_def CircularBuffer_Grow_def\<close>)
    then show ?thesis using that by (simp add: q'_def CircularBuffer_Grow_def)
  qed
  have cell': "cb_vector q' ! i = (if i < 2 ^ k then cb_vector q ! cb_slot q i else None)"
    if "i < 2 ^ Suc k" for i
    using that k assms(2) un
    by (simp add: q'_def CircularBuffer_Grow_def Grow_loop_nth Get_begin_add
        CircularBuffer_NewBlock_def)
  have sz: "cb_size q' = cb_size q" by (simp add: q'_def CircularBuffer_Grow_def)
  show "cb_invar q'"
  proof (rule cb_invarI [of "Suc k"])
    fix i :: nat assume "i < 2 ^ Suc k"
    then show "(cb_vector q' ! cb_slot q' i \<noteq> None) = (i < unat (cb_size q'))"
      using slot' cell' cells k assms(2) sz by auto
  qed (use k62 cap un k assms(2) in \<open>auto simp: q'_def CircularBuffer_Grow_def CircularBuffer_NewBlock_def\<close>)
  show "cb_elems q' = cb_elems q"
    by (rule nth_equalityI) (use sz slot' cell' k assms(2) in \<open>auto simp: nth_cb_elems\<close>)
  show "unat (cb_size q') < unat (cb_capacity q')"
    using un k assms(2) by (simp add: q'_def CircularBuffer_Grow_def)
qed


section \<open>Pushing and popping\<close>

lemma CircularBuffer_PushBack_room:
  assumes "cb_invar q" "unat (cb_size q) < unat (cb_capacity q)"
  shows "cb_invar (CircularBuffer_PushBack x q)" 
    "cb_elems (CircularBuffer_PushBack x q) = cb_elems q @ [x]"
proof -
  from assms(1) obtain k where k: "k \<le> 63" "cb_capacity q = 2 ^ k" "unat (cb_capacity q) = 2 ^ k"
      "unat (cb_size q) \<le> 2 ^ k" "cb_end q = cb_begin q + cb_size q" "length (cb_vector q) = 2 ^ k"
    and cells: "\<forall>i < 2 ^ k. cb_vector q ! cb_slot q i \<noteq> None \<longleftrightarrow> i < unat (cb_size q)"
    by (rule cb_invarE) blast
  let ?n = "unat (cb_size q)" and ?q = "CircularBuffer_PushBack x q"
  have n: "?n < 2 ^ k" using assms(2) k by simp
  have "(2::nat) ^ k \<le> 2 ^ 63" using k(1) by (intro power_increasing) auto
  then have sz: "unat (cb_size q + 1) = Suc ?n"
    using n by (simp add: unat_word_ariths)
  have idx: "unat (CircularBuffer_GetIndex q (cb_end q)) = cb_slot q ?n"
    by (simp add: k(5) cb_slot_def)
  have ne: "cb_size q \<noteq> cb_capacity q" using assms(2) by auto
  have q: "?q = q\<lparr>cb_vector := (cb_vector q)[cb_slot q ?n := Some x],
      cb_end := cb_end q + 1, cb_size := cb_size q + 1\<rparr>"
    using ne idx by (simp add: CircularBuffer_PushBack_def Let_def CircularBuffer_Construct_def)
  have slot: "cb_slot ?q i = cb_slot q i" for i
    by (simp add: q cb_slot_def CircularBuffer_GetIndex_def)
  have cell: "cb_vector ?q ! cb_slot ?q i = (if i = ?n then Some x else cb_vector q ! cb_slot q i)"
    if "i < 2 ^ k" for i
    unfolding slot using that n k cb_slot_inj [OF k(2,1) n that] cb_slot_less [OF k(2,1)]
    by (auto simp: q nth_list_update)
  show "cb_invar ?q"
  proof (rule cb_invarI [of k])
    fix i :: nat assume "i < 2 ^ k"
    then show "(cb_vector ?q ! cb_slot ?q i \<noteq> None) = (i < unat (cb_size ?q))"
      using cell cells sz by (auto simp: q less_Suc_eq)
  qed (use k n sz in \<open>auto simp: q\<close>)
  show "cb_elems ?q = cb_elems q @ [x]"
  proof (rule nth_equalityI)
    show "length (cb_elems ?q) = length (cb_elems q @ [x])" by (simp add: q sz)
    fix i assume "i < length (cb_elems ?q)"
    then have i: "i < Suc ?n" "i < 2 ^ k" using sz n by (auto simp: q)
    then show "cb_elems ?q ! i = (cb_elems q @ [x]) ! i"
      using cell [of i] sz by (auto simp: q nth_cb_elems nth_append less_Suc_eq)
  qed
qed

lemma CircularBuffer_PushBack_correct:
  assumes "cb_invar q" "unat (cb_size q) < cb_limit"
  shows "cb_invar (CircularBuffer_PushBack x q)"
    "cb_elems (CircularBuffer_PushBack x q) = cb_elems q @ [x]"
proof -
  have le: "unat (cb_size q) \<le> unat (cb_capacity q)"
    using assms(1) by (simp add: cb_invar_def word_le_nat_alt)
  have "cb_invar (CircularBuffer_PushBack x q) \<and>
    cb_elems (CircularBuffer_PushBack x q) = cb_elems q @ [x]"
  proof (cases "cb_size q = cb_capacity q")
    case True
    let ?g = "CircularBuffer_Grow q (cb_capacity q * 2)"
    note g = CircularBuffer_Grow_correct [OF assms(1) True assms(2)]
    have "cb_size ?g \<noteq> cb_capacity ?g" using g(3) by auto
    then have "CircularBuffer_PushBack x q = CircularBuffer_PushBack x ?g"
      using True by (simp add: CircularBuffer_PushBack_def)
    then show ?thesis using CircularBuffer_PushBack_room [OF g(1,3), of x] g(2) by simp
  next
    case False
    then have "unat (cb_size q) < unat (cb_capacity q)"
      using le by (metis le_neq_implies_less unsigned_word_eqI)
    then show ?thesis using CircularBuffer_PushBack_room [OF assms(1)] by blast
  qed
  then show "cb_invar (CircularBuffer_PushBack x q)"
    "cb_elems (CircularBuffer_PushBack x q) = cb_elems q @ [x]" by auto
qed

lemma CircularBuffer_PopFront_correct:
  assumes "cb_invar q" "cb_elems q = x # xs"
  shows "CircularBuffer_Front q = Some x" "cb_invar (CircularBuffer_PopFront q)"
    "cb_elems (CircularBuffer_PopFront q) = xs"
proof -
  from assms(1) obtain k where k: "k \<le> 63" "cb_capacity q = 2 ^ k" "unat (cb_capacity q) = 2 ^ k"
      "unat (cb_size q) \<le> 2 ^ k" "cb_end q = cb_begin q + cb_size q" "length (cb_vector q) = 2 ^ k"
    and cells: "\<forall>i < 2 ^ k. cb_vector q ! cb_slot q i \<noteq> None \<longleftrightarrow> i < unat (cb_size q)"
    by (rule cb_invarE) blast
  let ?n = "unat (cb_size q)" and ?q = "CircularBuffer_PopFront q"
  have n: "?n = Suc (length xs)" using length_cb_elems [of q] assms(2) by simp
  then have sz: "unat (cb_size q - 1) = length xs"
    by (subst unat_minus_one) auto
  have i0: "unat (CircularBuffer_GetIndex q (cb_begin q)) = cb_slot q 0"
    by (simp add: cb_slot_def)
  have "x = the (cb_vector q ! cb_slot q 0)"
    using nth_cb_elems [of 0 q] assms(2) n by simp
  moreover have "cb_vector q ! cb_slot q 0 \<noteq> None" using cells k n by simp
  ultimately show "CircularBuffer_Front q = Some x"
    by (simp add: CircularBuffer_Front_def CircularBuffer_Get_def i0)
  have q: "?q = q\<lparr>cb_vector := (cb_vector q)[cb_slot q 0 := None],
      cb_begin := cb_begin q + 1, cb_size := cb_size q - 1\<rparr>"
    by (simp add: CircularBuffer_PopFront_def CircularBuffer_Destroy_def i0)
  have slot: "cb_slot ?q i = cb_slot q (Suc i)" for i
    by (simp add: q cb_slot_def CircularBuffer_GetIndex_def algebra_simps)
  have wrap: "cb_slot q (2 ^ k) = cb_slot q 0"
    using k by (simp add: cb_slot_eq)
  have cell: "cb_vector ?q ! cb_slot ?q i = (if Suc i < 2 ^ k then cb_vector q ! cb_slot q (Suc i) else None)"
    if "i < 2 ^ k" for i
  proof (cases "Suc i < 2 ^ k")
    case True
    then have "cb_slot q (Suc i) \<noteq> cb_slot q 0"
      using cb_slot_inj [OF k(2,1), of "Suc i" 0] by simp
    with True show ?thesis unfolding slot by (simp add: q)
  next
    case False
    with that have "Suc i = 2 ^ k" by simp
    then show ?thesis
      unfolding slot using wrap k cb_slot_less [OF k(2,1), of 0] by (simp add: q)
  qed
  show "cb_invar ?q"
  proof (rule cb_invarI [of k])
    fix i :: nat assume "i < 2 ^ k"
    then show "(cb_vector ?q ! cb_slot ?q i \<noteq> None) = (i < unat (cb_size ?q))"
      using cell [of i] cells sz n k(4) by (auto simp: q)
  qed (use k n sz in \<open>auto simp: q\<close>)
  show "cb_elems ?q = xs"
  proof (rule nth_equalityI)
    show "length (cb_elems ?q) = length xs" by (simp add: q sz)
    fix i assume i: "i < length (cb_elems ?q)"
    then have "Suc i < ?n" using sz n by (simp add: q)
    then have "xs ! i = the (cb_vector q ! cb_slot q (Suc i))"
      using nth_cb_elems [of "Suc i" q] assms(2) by simp
    moreover have "cb_vector ?q ! cb_slot ?q i = cb_vector q ! cb_slot q (Suc i)"
      using cell [of i] \<open>Suc i < ?n\<close> k(4) by simp
    ultimately show "cb_elems ?q ! i = xs ! i" using i by (simp add: nth_cb_elems)
  qed
qed


lemma CircularBuffer_Back_correct:
  assumes "cb_invar q" "cb_elems q \<noteq> []"
  shows "CircularBuffer_Back q = Some (last (cb_elems q))"
proof -
  from assms(1) obtain k where k: "k \<le> 63" "cb_capacity q = 2 ^ k" "unat (cb_capacity q) = 2 ^ k"
      "unat (cb_size q) \<le> 2 ^ k" "cb_end q = cb_begin q + cb_size q" "length (cb_vector q) = 2 ^ k"
    and cells: "\<forall>i < 2 ^ k. cb_vector q ! cb_slot q i \<noteq> None \<longleftrightarrow> i < unat (cb_size q)"
    by (rule cb_invarE) blast
  let ?n = "unat (cb_size q)"
  have n: "0 < ?n" using assms(2) length_cb_elems [of q] by (metis length_greater_0_conv)
  then have "of_nat (?n - 1) = cb_size q - 1" by (simp add: of_nat_diff Suc_le_eq)
  then have "cb_end q - 1 = cb_begin q + of_nat (?n - 1)" by (simp add: k(5))
  then have "CircularBuffer_Back q = cb_vector q ! cb_slot q (?n - 1)"
    by (simp only: CircularBuffer_Back_def Get_begin_add)
  moreover have "cb_vector q ! cb_slot q (?n - 1) \<noteq> None" using cells n k(4) by simp
  moreover have "last (cb_elems q) = the (cb_vector q ! cb_slot q (?n - 1))"
    using assms(2) n by (simp add: last_conv_nth nth_cb_elems)
  ultimately show ?thesis by auto
qed

section \<open>Clearing\<close>

lemma Clear_loop_fields [simp]:
  "cb_capacity (CircularBuffer_Clear_loop n f q) = cb_capacity q"
  "cb_size (CircularBuffer_Clear_loop n f q) = cb_size q - of_nat n"
  "length (cb_vector (CircularBuffer_Clear_loop n f q)) = length (cb_vector q)"
  by (induction n arbitrary: f q) (auto simp: CircularBuffer_Destroy_def)

lemma Clear_loop_nth:
  assumes "m < length (cb_vector q)"
  shows "cb_vector (CircularBuffer_Clear_loop n f q) ! m =
    (if \<exists>i<n. unat (CircularBuffer_GetIndex q (f + of_nat i)) = m then None else cb_vector q ! m)"
  using assms
proof (induction n arbitrary: f q)
  case (Suc n)
  let ?q = "(CircularBuffer_Destroy q f)\<lparr>cb_size := cb_size q - 1\<rparr>"
  have G: "CircularBuffer_GetIndex ?q = CircularBuffer_GetIndex q"
    by (rule ext) (simp add: CircularBuffer_GetIndex_def CircularBuffer_Destroy_def)
  have ex: "(\<exists>i<Suc n. P (f + of_nat i)) \<longleftrightarrow> P f \<or> (\<exists>i<n. P (f + 1 + of_nat i))"
    for P :: "u64 \<Rightarrow> bool"
    unfolding Ex_less_Suc2 by (simp add: algebra_simps)
  show ?case
    using Suc.IH [of ?q "f + 1"] Suc.prems
    unfolding ex [of "\<lambda>p. unat (CircularBuffer_GetIndex q p) = m"] G
    by (auto simp: CircularBuffer_Destroy_def nth_list_update)
qed auto

lemma CircularBuffer_Clear_correct:
  assumes "cb_invar q"
  shows "cb_invar (CircularBuffer_Clear q)" "cb_elems (CircularBuffer_Clear q) = []"
    "set (cb_vector (CircularBuffer_Clear q)) \<subseteq> {None}"
proof -
  from assms obtain k where k: "k \<le> 63" "cb_capacity q = 2 ^ k" "unat (cb_capacity q) = 2 ^ k"
      "unat (cb_size q) \<le> 2 ^ k" "cb_end q = cb_begin q + cb_size q" "length (cb_vector q) = 2 ^ k"
    and cells: "\<forall>i < 2 ^ k. cb_vector q ! cb_slot q i \<noteq> None \<longleftrightarrow> i < unat (cb_size q)"
    by (rule cb_invarE) blast
  let ?q = "CircularBuffer_Clear q" and ?n = "unat (cb_size q)"
  have surj: "\<exists>i<2 ^ k. cb_slot q i = m" if "m < 2 ^ k" for m
  proof -
    have "inj_on (cb_slot q) {..<2 ^ k}"
      using cb_slot_inj [OF k(2,1)] by (auto simp: inj_on_def)
    moreover have "cb_slot q ` {..<2 ^ k} \<subseteq> {..<2 ^ k}"
      using cb_slot_less [OF k(2,1)] by auto
    ultimately have "cb_slot q ` {..<2 ^ k} = {..<2 ^ k}" by (simp add: endo_inj_surj)
    then show ?thesis using that by (metis imageE lessThan_iff)
  qed
  have none: "cb_vector ?q ! m = None" if m: "m < 2 ^ k" for m
  proof -
    obtain i where i: "i < 2 ^ k" "cb_slot q i = m" using surj [OF m] by blast
    show ?thesis
    proof (cases "i < ?n")
      case True
      then have "\<exists>i<?n. unat (CircularBuffer_GetIndex q (cb_begin q + of_nat i)) = m"
        using i by (auto simp: cb_slot_def)
      then show ?thesis using m k by (simp add: CircularBuffer_Clear_def Clear_loop_nth)
    next
      case False
      then have "cb_vector q ! m = None" using cells i by auto
      then show ?thesis using m k by (simp add: CircularBuffer_Clear_def Clear_loop_nth)
    qed
  qed
  have len: "length (cb_vector ?q) = 2 ^ k" using k by (simp add: CircularBuffer_Clear_def)
  then show "set (cb_vector ?q) \<subseteq> {None}" using none by (auto simp: in_set_conv_nth)
  show "cb_invar ?q"
  proof (rule cb_invarI [of k])
    fix i :: nat assume "i < 2 ^ k"
    have "cb_slot ?q i < 2 ^ k"
      using k by (intro cb_slot_less) (simp_all add: CircularBuffer_Clear_def)
    then show "(cb_vector ?q ! cb_slot ?q i \<noteq> None) = (i < unat (cb_size ?q))"
      using none by (simp add: CircularBuffer_Clear_def)
  qed (use k len in \<open>auto simp: CircularBuffer_Clear_def\<close>)
  show "cb_elems ?q = []" by (simp add: cb_elems_def CircularBuffer_Clear_def)
qed

section \<open>The ring buffer is a queue\<close>

interpretation ring: fifo_queue cb_invar cb_elems cb_limit CircularBuffer_PushBack CircularBuffer_TakeFront
proof unfold_locales
  fix q :: "'a circular_buffer" and x xs
  assume inv: "cb_invar q" and xs: "cb_elems q = x # xs"
  have "\<not> CircularBuffer_Empty q"
    using xs by (auto simp: CircularBuffer_Empty_def CircularBuffer_Size_def cb_elems_def)
  then show "\<exists>q'. CircularBuffer_TakeFront q = Some (x, q') \<and> cb_invar q' \<and> cb_elems q' = xs"
    using CircularBuffer_PopFront_correct [OF inv xs] by (auto simp: CircularBuffer_TakeFront_def)
next
  fix q :: "'a circular_buffer"
  assume "cb_elems q = []"
  then have "unat (cb_size q) = 0" using length_cb_elems [of q] by simp
  then show "CircularBuffer_TakeFront q = None"
    by (simp add: CircularBuffer_TakeFront_def CircularBuffer_Empty_def CircularBuffer_Size_def
        unat_eq_0)
qed (simp_all add: CircularBuffer_PushBack_correct)

section \<open>Properties\<close>

text \<open>
  C17: the ring buffer is a queue.  Starting from the constructor with any capacity hint between 1
  and \<open>2 ^ 63\<close>, through any sequence of pushes and pops with at most \<open>2 ^ 62\<close> pushes (growing and
  wrapping round as often as it takes), what the pops return, followed by what is left in the buffer,
  is what was pushed, in that order.
\<close>

theorem ring_buffer_is_fifo:
  fixes ops :: "'a queue_op list"
  assumes "0 < unat cap" "unat cap \<le> 2 ^ 63" "length (pushed ops) \<le> 2 ^ 62"
    and "queue_run CircularBuffer_PushBack CircularBuffer_TakeFront ops (CircularBuffer cap) = (out, q)"
  shows "cb_invar q \<and> pushed ops = out @ cb_elems q"
proof -
  let ?e = "CircularBuffer cap :: 'a circular_buffer"
  have c: "cb_invar ?e" "cb_elems ?e = []" using CircularBuffer_invar [OF assms(1,2)] by blast+
  have "length (cb_elems ?e) + length (pushed ops) \<le> cb_limit"
    using assms(3) unfolding c(2) cb_limit_def by simp
  from ring.run_conserves [OF c(1) this assms(4)] show ?thesis using c(2) by simp
qed

theorem ring_buffer_is_fifo_witness:
  "\<exists>out q. queue_run CircularBuffer_PushBack CircularBuffer_TakeFront
       [Push 1, Push 2, Pop, Push (3::nat), Push 4] (CircularBuffer 1) = (out, q) \<and>
     [1, 2, 3, 4] = out @ cb_elems q"
proof -
  let ?ops = "[Push 1, Push 2, Pop, Push (3::nat), Push 4]"
  obtain out q where q: "queue_run CircularBuffer_PushBack CircularBuffer_TakeFront ?ops (CircularBuffer 1) = (out, q)"
    by (meson surj_pair)
  with ring_buffer_is_fifo [of 1 ?ops out q] show ?thesis by auto
qed

text \<open>
  The accessors agree with the queue.  On a well-formed buffer \<open>Size\<close> is the number of elements,
  \<open>Front\<close> and \<open>Back\<close> of a non-empty buffer are its first and last element, and \<open>Clear\<close> leaves an
  empty, well-formed buffer in which no cell holds a live object.
\<close>

lemma ring_buffer_accessors:
  assumes "cb_invar q"
  shows "unat (CircularBuffer_Size q) = length (cb_elems q) \<and>
    (cb_elems q \<noteq> [] \<longrightarrow> CircularBuffer_Front q = Some (hd (cb_elems q)) \<and>
       CircularBuffer_Back q = Some (last (cb_elems q))) \<and>
    cb_invar (CircularBuffer_Clear q) \<and> cb_elems (CircularBuffer_Clear q) = [] \<and>
    set (cb_vector (CircularBuffer_Clear q)) \<subseteq> {None}"
proof -
  have "CircularBuffer_Front q = Some (hd (cb_elems q))" if "cb_elems q \<noteq> []"
    using CircularBuffer_PopFront_correct(1) [OF assms, of "hd (cb_elems q)" "tl (cb_elems q)"] that by simp
  then show ?thesis
    using CircularBuffer_Back_correct [OF assms] CircularBuffer_Clear_correct [OF assms]
    by (simp add: CircularBuffer_Size_def)
qed

section \<open>Walking over a buffer\<close>

lemma pre_inc_power: "(Iterator_pre_inc ^^ n) it = it\<lparr>it_index := it_index it + of_nat n\<rparr>"
  by (induction n) (simp_all add: Iterator_pre_inc_def algebra_simps)

lemma pre_dec_power: "(Iterator_pre_dec ^^ n) it = it\<lparr>it_index := it_index it - of_nat n\<rparr>"
  by (induction n) (simp_all add: Iterator_pre_dec_def algebra_simps)

lemma deref_at:
  assumes "cb_invar (bufs buf)" "i < unat (cb_size (bufs buf))"
  shows "Iterator_deref bufs (Iterator (cb_begin (bufs buf) + of_nat i) buf) = Some (cb_elems (bufs buf) ! i)"
proof -
  let ?q = "bufs buf"
  obtain k where k: "unat (cb_size ?q) \<le> 2 ^ k"
    "\<forall>i < 2 ^ k. cb_vector ?q ! cb_slot ?q i \<noteq> None \<longleftrightarrow> i < unat (cb_size ?q)"
    using cb_invarE [OF assms(1)] by metis
  then have "cb_vector ?q ! cb_slot ?q i \<noteq> None" using assms(2) less_le_trans by blast
  then show ?thesis
    using assms(2) by (auto simp: Iterator_deref_def Iterator_def Get_begin_add nth_cb_elems)
qed

text \<open>
  A walk forward with the pre-increment meets every element in order and reaches \<open>end\<close> after exactly
  as many steps as there are elements, and a walk backward with the pre-decrement meets them in
  reverse; wrap-around of the counters and of the storage does not matter.
\<close>

lemma walk_forward:
  assumes inv: "cb_invar (bufs buf)" and n: "n = unat (cb_size (bufs buf))"
  shows "i < n \<Longrightarrow> Iterator_deref bufs ((Iterator_pre_inc ^^ i) (CircularBuffer_begin bufs buf)) =
      Some (cb_elems (bufs buf) ! i)"
    "i \<le> n \<Longrightarrow> Iterator_eq ((Iterator_pre_inc ^^ i) (CircularBuffer_begin bufs buf)) (CircularBuffer_end bufs buf)
      \<longleftrightarrow> i = n"
proof -
  have at: "(Iterator_pre_inc ^^ i) (CircularBuffer_begin bufs buf) = Iterator (cb_begin (bufs buf) + of_nat i) buf"
    by (simp add: pre_inc_power CircularBuffer_begin_def Iterator_def)
  show "Iterator_deref bufs ((Iterator_pre_inc ^^ i) (CircularBuffer_begin bufs buf)) =
      Some (cb_elems (bufs buf) ! i)" if "i < n"
    unfolding at using deref_at [of bufs buf i] inv that n by simp
  have e: "cb_end (bufs buf) = cb_begin (bufs buf) + of_nat n"
    using inv n by (simp add: cb_invar_def)
  have "(of_nat i = (of_nat n :: u64)) \<longleftrightarrow> i = n" if "i \<le> n"
  proof -
    have "n < 2 ^ 64" using n unsigned_less [of "cb_size (bufs buf)"] by simp
    then have "unat (of_nat i :: u64) = i" "unat (of_nat n :: u64) = n" using that by (simp_all add: unat_of_nat)
    then show ?thesis by metis
  qed
  then show "Iterator_eq ((Iterator_pre_inc ^^ i) (CircularBuffer_begin bufs buf)) (CircularBuffer_end bufs buf)
      \<longleftrightarrow> i = n" if "i \<le> n"
    unfolding at Iterator_eq_def CircularBuffer_end_def e using that by (simp add: Iterator_def)
qed

lemma walk_backward:
  assumes inv: "cb_invar (bufs buf)" and n: "n = unat (cb_size (bufs buf))" and i: "i < n"
  shows "Iterator_deref bufs ((Iterator_pre_dec ^^ Suc i) (CircularBuffer_end bufs buf)) =
    Some (cb_elems (bufs buf) ! (n - Suc i))"
proof -
  have e: "cb_end (bufs buf) = cb_begin (bufs buf) + of_nat n"
    using inv n by (simp add: cb_invar_def)
  have "(of_nat n - of_nat (Suc i) :: u64) = of_nat (n - Suc i)" using i by (simp only: of_nat_diff Suc_leI)
  then have "(Iterator_pre_dec ^^ Suc i) (CircularBuffer_end bufs buf) =
      Iterator (cb_begin (bufs buf) + of_nat (n - Suc i)) buf"
    unfolding pre_dec_power CircularBuffer_end_def e Iterator_def by (simp add: algebra_simps)
  then show ?thesis using deref_at [of bufs buf "n - Suc i"] inv n i by simp
qed

text \<open>The same walks with constant iterators.\<close>

lemma const_iterators:
  "ConstIterator = Iterator" "ConstIterator_deref = Iterator_deref" "ConstIterator_pre_inc = Iterator_pre_inc"
  "ConstIterator_pre_dec = Iterator_pre_dec" "ConstIterator_eq = Iterator_eq"
  "CircularBuffer_cbegin = CircularBuffer_begin" "CircularBuffer_cend = CircularBuffer_end"
  by (simp_all add: fun_eq_iff ConstIterator_def Iterator_def ConstIterator_deref_def Iterator_deref_def
      ConstIterator_pre_inc_def Iterator_pre_inc_def ConstIterator_pre_dec_def Iterator_pre_dec_def
      ConstIterator_eq_def Iterator_eq_def CircularBuffer_cbegin_def CircularBuffer_begin_def
      CircularBuffer_cend_def CircularBuffer_end_def)

lemmas const_walks = walk_forward [folded const_iterators] walk_backward [folded const_iterators]

text \<open>The post-increment walks the wrong way: after it the iterator is where a decrement takes it.\<close>

lemma post_inc_steps_back: "Iterator_post_inc it = (it, Iterator_pre_dec it)"
  by (simp add: Iterator_post_inc_def Iterator_pre_dec_def)

text \<open>The storage is freed only when nothing lives in it any more.\<close>

lemma destroy_frees_dead_storage:
  "cb_invar q \<Longrightarrow> set (snd (CircularBuffer_destroy q)) \<subseteq> {None}"
  using ring_buffer_accessors [of q] by (simp add: CircularBuffer_destroy_def Let_def)

end
