(* ===== verification/Thread_Safe_Queue.thy ===== *)
theory Thread_Safe_Queue
  imports Fifo_Spec
begin

text \<open>
  \<open>util/ThreadSafeQueue.h\<close>: a deque behind a mutex.  Every operation holds the mutex for its
  whole body, so each is one atomic step on the deque, modelled as a list (front first).
\<close>

section \<open>The queue\<close>

type_synonym 'a thread_safe_queue = "'a list"

definition tsq_push :: "'a \<Rightarrow> 'a thread_safe_queue \<Rightarrow> 'a thread_safe_queue" where
  "tsq_push x q = q @ [x]"

definition tsq_pushAndFetchSize :: "'a \<Rightarrow> 'a thread_safe_queue \<Rightarrow> nat \<times> 'a thread_safe_queue" where
  "tsq_pushAndFetchSize x q = (let q = q @ [x] in (length q, q))"

definition tsq_front :: "'a thread_safe_queue \<Rightarrow> 'a option" where
  "tsq_front q = (if q = [] then None else Some (hd q))"

definition tsq_drop :: "'a thread_safe_queue \<Rightarrow> 'a thread_safe_queue" where
  "tsq_drop q = (if q = [] then q else tl q)"

definition tsq_popAndFetchSize :: "'a thread_safe_queue \<Rightarrow> nat \<times> 'a thread_safe_queue" where
  "tsq_popAndFetchSize q = (if q = [] then (0, q) else (length (tl q), tl q))"

text \<open>\<open>bool pop(T *x)\<close>: the element is the result, \<open>None\<close> is the return value \<open>false\<close>.\<close>

definition tsq_pop :: "'a thread_safe_queue \<Rightarrow> ('a \<times> 'a thread_safe_queue) option" where
  "tsq_pop q = (if q = [] then None else Some (hd q, tl q))"

definition tsq_empty :: "'a thread_safe_queue \<Rightarrow> bool" where
  "tsq_empty q \<longleftrightarrow> q = []"

definition tsq_size :: "'a thread_safe_queue \<Rightarrow> nat" where
  "tsq_size q = length q"

definition tsq_clear :: "'a thread_safe_queue \<Rightarrow> 'a thread_safe_queue" where
  "tsq_clear q = []"

text \<open>Move construction takes the source's deque, move assignment swaps the two.\<close>

definition tsq_move_construct :: "'a thread_safe_queue \<Rightarrow> 'a thread_safe_queue \<times> 'a thread_safe_queue" where
  "tsq_move_construct q = (q, [])"

definition tsq_move_assign ::
  "'a thread_safe_queue \<Rightarrow> 'a thread_safe_queue \<Rightarrow> 'a thread_safe_queue \<times> 'a thread_safe_queue" where
  "tsq_move_assign q rhs = (rhs, q)"

interpretation tsq: fifo_queue "\<lambda>_. True" "\<lambda>q. q" limit tsq_push tsq_pop
  for limit
  by unfold_locales (auto simp: tsq_push_def tsq_pop_def)

lemma tsq_pop_simps [simp]: "tsq_pop [] = None" "tsq_pop (x # xs) = Some (x, xs)"
  by (simp_all add: tsq_pop_def)

end
