(* ===== verification/Thread_Pool.thy ===== *)
theory Thread_Pool
  imports Thread_Safe_Queue "HOL-Library.Multiset"
begin

text \<open>
  \<open>util/ThreadPool.h\<close>: the two policies that hand tasks to workers, built from the thread-safe
  queues, and the pool itself as a step relation in which workers and submitters interleave.
\<close>

section \<open>Work queues of the thread pool\<close>

text \<open>
  The policies hand out tasks.  \<open>self\<close> is the calling thread's own queue index, \<open>None\<close> for a
  thread outside the pool (its thread-local pointer is null).
\<close>

record 'task work_stealing =
  per_thread_task_queue :: "'task thread_safe_queue list"
  global_task_queue :: "'task thread_safe_queue"

definition WorkStealing_Initialize :: "nat \<Rightarrow> 'task work_stealing \<Rightarrow> 'task work_stealing" where
  "WorkStealing_Initialize thread_num p =
     p\<lparr>per_thread_task_queue :=
         (let qs = per_thread_task_queue p
          in if thread_num \<le> length qs then take thread_num qs
             else qs @ replicate (thread_num - length qs) [])\<rparr>"

definition WorkStealing_Add :: "nat option \<Rightarrow> 'task \<Rightarrow> 'task work_stealing \<Rightarrow> 'task work_stealing" where
  "WorkStealing_Add self t p =
     (case self of
        None \<Rightarrow> p\<lparr>global_task_queue := tsq_push t (global_task_queue p)\<rparr>
      | Some i \<Rightarrow> p\<lparr>per_thread_task_queue :=
          (per_thread_task_queue p)[i := tsq_push t (per_thread_task_queue p ! i)]\<rparr>)"

definition TakeFromLocal ::
  "nat option \<Rightarrow> 'task work_stealing \<Rightarrow> ('task \<times> 'task work_stealing) option" where
  "TakeFromLocal self p =
     (case self of
        None \<Rightarrow> None
      | Some i \<Rightarrow>
          (case tsq_pop (per_thread_task_queue p ! i) of
             None \<Rightarrow> None
           | Some (t, q) \<Rightarrow>
               Some (t, p\<lparr>per_thread_task_queue := (per_thread_task_queue p)[i := q]\<rparr>)))"

definition TakeFromGlobal :: "'task work_stealing \<Rightarrow> ('task \<times> 'task work_stealing) option" where
  "TakeFromGlobal p =
     (case tsq_pop (global_task_queue p) of
        None \<Rightarrow> None
      | Some (t, q) \<Rightarrow> Some (t, p\<lparr>global_task_queue := q\<rparr>))"

fun steal :: "'task thread_safe_queue list \<Rightarrow> ('task \<times> 'task thread_safe_queue list) option" where
  "steal [] = None"
| "steal (q # qs) =
     (case tsq_pop q of
        Some (t, q') \<Rightarrow> Some (t, q' # qs)
      | None \<Rightarrow> map_option (\<lambda>(t, qs'). (t, q # qs')) (steal qs))"

definition TakeFromOtherThread :: "'task work_stealing \<Rightarrow> ('task \<times> 'task work_stealing) option" where
  "TakeFromOtherThread p =
     map_option (\<lambda>(t, qs). (t, p\<lparr>per_thread_task_queue := qs\<rparr>)) (steal (per_thread_task_queue p))"

definition WorkStealing_Take ::
  "nat option \<Rightarrow> 'task work_stealing \<Rightarrow> ('task \<times> 'task work_stealing) option" where
  "WorkStealing_Take self p =
     (case TakeFromLocal self p of
        Some r \<Rightarrow> Some r
      | None \<Rightarrow> (case TakeFromGlobal p of
                   Some r \<Rightarrow> Some r
                 | None \<Rightarrow> TakeFromOtherThread p))"

definition SingleWorkQueue_Take :: "'task thread_safe_queue \<Rightarrow> ('task \<times> 'task thread_safe_queue) option" where
  "SingleWorkQueue_Take work_queue = tsq_pop work_queue"

definition SingleWorkQueue_Add :: "'task \<Rightarrow> 'task thread_safe_queue \<Rightarrow> 'task thread_safe_queue" where
  "SingleWorkQueue_Add t work_queue = tsq_push t work_queue"

text \<open>All tasks a work-stealing policy holds, own queues first.\<close>

definition all_tasks :: "'task work_stealing \<Rightarrow> 'task list" where
  "all_tasks p = concat (per_thread_task_queue p) @ global_task_queue p"

section \<open>The thread pool\<close>

text \<open>
  A worker's loop is a small state machine, because other threads run between two of its queue
  operations: it looks at its interruption flag, then tries its own queue, the shared queue and the
  queues of all workers in turn.  Running a task is recorded in \<open>executed\<close>; what a task submits is
  a \<open>Submit\<close> of its thread.  \<open>submitted\<close> records the calls of \<open>Submit\<close>.
\<close>

datatype worker_pc = AtLoop | AtLocal | AtGlobal | AtOther nat | Exited

record 'task thread_pool =
  policy :: "'task work_stealing"
  threads :: "worker_pc list"
  interrupted :: "bool list"
  thread_num :: int
  submitted :: "'task list"
  executed :: "'task list"

text \<open>\<open>std::thread::hardware_concurrency()\<close> is the second argument.\<close>

definition ThreadNum :: "int \<Rightarrow> int \<Rightarrow> int" where
  "ThreadNum thread_num_hint hardware_concurrency =
     (let num = (if thread_num_hint \<le> 0 then hardware_concurrency else thread_num_hint)
      in if num \<le> 0 then 4 else num)"

definition ThreadPool_Start :: "int \<Rightarrow> int \<Rightarrow> 'task thread_pool \<Rightarrow> 'task thread_pool" where
  "ThreadPool_Start thread_num_hint hardware_concurrency pool =
     (let n = ThreadNum thread_num_hint hardware_concurrency
      in pool\<lparr>policy := WorkStealing_Initialize (nat n) (policy pool),
             threads := threads pool @ replicate (nat n) AtLoop,
             interrupted := interrupted pool @ replicate (nat n) False,
             thread_num := n\<rparr>)"

definition ThreadPool_Submit :: "nat option \<Rightarrow> 'task \<Rightarrow> 'task thread_pool \<Rightarrow> 'task thread_pool" where
  "ThreadPool_Submit self t pool =
     pool\<lparr>policy := WorkStealing_Add self t (policy pool), submitted := submitted pool @ [t]\<rparr>"

text \<open>\<open>Thread::Interrupt\<close>, as \<open>ThreadPool::Stop\<close> calls it for each thread.\<close>

definition Thread_Interrupt :: "nat \<Rightarrow> 'task thread_pool \<Rightarrow> 'task thread_pool" where
  "Thread_Interrupt i pool = pool\<lparr>interrupted := (interrupted pool)[i := True]\<rparr>"

definition worker_goto :: "nat \<Rightarrow> worker_pc \<Rightarrow> 'task thread_pool \<Rightarrow> 'task thread_pool" where
  "worker_goto i pc pool = pool\<lparr>threads := (threads pool)[i := pc]\<rparr>"

text \<open>The outcome of one attempt to pop: run the task and go round, or try the next place.\<close>

definition worker_try ::
  "nat \<Rightarrow> ('task \<times> 'task work_stealing) option \<Rightarrow> worker_pc \<Rightarrow> 'task thread_pool \<Rightarrow> 'task thread_pool"
where
  "worker_try i r next_pc pool =
     (case r of
        Some (t, p) \<Rightarrow> worker_goto i AtLoop (pool\<lparr>policy := p, executed := executed pool @ [t]\<rparr>)
      | None \<Rightarrow> worker_goto i next_pc pool)"

definition TakeFromOther ::
  "nat \<Rightarrow> 'task work_stealing \<Rightarrow> ('task \<times> 'task work_stealing) option" where
  "TakeFromOther k p = TakeFromLocal (Some k) p"

definition worker :: "nat \<Rightarrow> 'task thread_pool \<Rightarrow> 'task thread_pool" where
  "worker i pool =
     (case threads pool ! i of
        AtLoop \<Rightarrow> worker_goto i (if interrupted pool ! i then Exited else AtLocal) pool
      | AtLocal \<Rightarrow> worker_try i (TakeFromLocal (Some i) (policy pool)) AtGlobal pool
      | AtGlobal \<Rightarrow> worker_try i (TakeFromGlobal (policy pool)) (AtOther 0) pool
      | AtOther k \<Rightarrow>
          (if k < length (per_thread_task_queue (policy pool))
           then worker_try i (TakeFromOther k (policy pool)) (AtOther (Suc k)) pool
           else worker_goto i AtLoop pool)
      | Exited \<Rightarrow> pool)"

text \<open>
  \<open>Stop\<close> interrupts and joins the threads one after the other; when all have returned it forgets
  them.  Tasks that are still queued stay where they are.
\<close>

definition ThreadPool_Stop :: "'task thread_pool \<Rightarrow> 'task thread_pool" where
  "ThreadPool_Stop pool = pool\<lparr>threads := [], interrupted := []\<rparr>"

text \<open>The steps of a started pool: clients and workers submit, workers move, \<open>Stop\<close> interrupts and ends.\<close>

inductive pool_step :: "'task thread_pool \<Rightarrow> 'task thread_pool \<Rightarrow> bool" where
  submit_outside: "pool_step pool (ThreadPool_Submit None t pool)"
| submit_worker: "i < length (threads pool) \<Longrightarrow> pool_step pool (ThreadPool_Submit (Some i) t pool)"
| work: "i < length (threads pool) \<Longrightarrow> pool_step pool (worker i pool)"
| interrupt: "i < length (threads pool) \<Longrightarrow> pool_step pool (Thread_Interrupt i pool)"
| joined: "\<forall>pc \<in> set (threads pool). pc = Exited \<Longrightarrow> pool_step pool (ThreadPool_Stop pool)"

definition pool_init :: "'task thread_pool" where
  "pool_init = \<lparr>policy = \<lparr>per_thread_task_queue = [], global_task_queue = []\<rparr>, threads = [],
     interrupted = [], thread_num = 0, submitted = [], executed = []\<rparr>"

section \<open>Taking a task\<close>

lemma steal_None_iff: "steal qs = None \<longleftrightarrow> concat qs = []"
  by (induction qs) (auto simp: tsq_pop_def split: option.splits)

lemma steal_mset: "steal qs = Some (t, qs') \<Longrightarrow> length qs' = length qs \<and> mset (concat qs) = add_mset t (mset (concat qs'))"
proof (induction qs arbitrary: qs')
  case (Cons q qs)
  then show ?case by (cases q) auto
qed simp

lemma mset_concat_update:
  "i < length qs \<Longrightarrow> mset (concat (qs[i := q])) + mset (qs ! i) = mset (concat qs) + mset q"
proof (induction qs arbitrary: i)
  case (Cons a qs)
  then show ?case by (cases i) (auto simp: add.assoc add.left_commute)
qed simp

lemma TakeFromLocal_cases:
  assumes "i < length (per_thread_task_queue p)"
  obtains (none) "TakeFromLocal (Some i) p = None" "per_thread_task_queue p ! i = []"
    | (some) t p' where "TakeFromLocal (Some i) p = Some (t, p')"
        "length (per_thread_task_queue p') = length (per_thread_task_queue p)"
        "mset (all_tasks p) = add_mset t (mset (all_tasks p'))"
proof (cases "per_thread_task_queue p ! i")
  case Nil
  then show thesis using none by (simp add: TakeFromLocal_def)
next
  case (Cons t q)
  have "mset (concat ((per_thread_task_queue p)[i := q])) + mset (t # q) =
      mset (concat (per_thread_task_queue p)) + mset q"
    using mset_concat_update [OF assms, of q] Cons by simp
  then show thesis using Cons
    by (intro some [of t "p\<lparr>per_thread_task_queue := (per_thread_task_queue p)[i := q]\<rparr>"])
      (simp_all add: TakeFromLocal_def all_tasks_def)
qed

lemma TakeFromGlobal_cases:
  obtains (none) "TakeFromGlobal p = None" "global_task_queue p = []"
    | (some) t p' where "TakeFromGlobal p = Some (t, p')"
        "length (per_thread_task_queue p') = length (per_thread_task_queue p)"
        "mset (all_tasks p) = add_mset t (mset (all_tasks p'))"
proof (cases "global_task_queue p")
  case Nil
  then show thesis using none by (simp add: TakeFromGlobal_def)
next
  case (Cons t q)
  then show thesis
    by (intro some [of t "p\<lparr>global_task_queue := q\<rparr>"])
      (simp_all add: TakeFromGlobal_def all_tasks_def)
qed

lemma WorkStealing_Take_None:
  assumes "\<And>i. self = Some i \<Longrightarrow> i < length (per_thread_task_queue p)"
  shows "WorkStealing_Take self p = None \<longleftrightarrow> all_tasks p = []"
proof -
  have "TakeFromLocal self p \<noteq> None" if "TakeFromLocal self p = Some r" for r
    using that by simp
  moreover have "concat (per_thread_task_queue p) \<noteq> []" if "TakeFromLocal self p = Some r" for r
    using that assms
    by (auto simp: TakeFromLocal_def tsq_pop_def split: option.splits if_splits)
  ultimately show ?thesis
    by (auto simp: WorkStealing_Take_def TakeFromGlobal_def TakeFromOtherThread_def all_tasks_def
        steal_None_iff tsq_pop_def split: option.splits)
qed

lemma WorkStealing_Take_Some:
  assumes "\<And>i. self = Some i \<Longrightarrow> i < length (per_thread_task_queue p)"
    and "WorkStealing_Take self p = Some (t, p')"
  shows "mset (all_tasks p) = add_mset t (mset (all_tasks p'))"
proof -
  consider (l) i where "self = Some i" "TakeFromLocal (Some i) p = Some (t, p')"
    | (g) "TakeFromGlobal p = Some (t, p')" | (o) "TakeFromOtherThread p = Some (t, p')"
    using assms(2)
    by (cases self) (auto simp: WorkStealing_Take_def TakeFromLocal_def split: option.splits)
  then show ?thesis
  proof cases
    case l
    from assms(1) [OF l(1)] show ?thesis
      by (cases rule: TakeFromLocal_cases) (use l(2) in auto)
  next
    case g
    show ?thesis by (rule TakeFromGlobal_cases [of p]) (use g in auto)
  next
    case o
    then show ?thesis
      by (auto simp: TakeFromOtherThread_def all_tasks_def dest!: steal_mset)
  qed
qed

lemma WorkStealing_Add_mset:
  assumes "\<And>i. self = Some i \<Longrightarrow> i < length (per_thread_task_queue p)"
  shows "mset (all_tasks (WorkStealing_Add self t p)) = add_mset t (mset (all_tasks p))"
proof (cases self)
  case None
  then show ?thesis by (simp add: WorkStealing_Add_def all_tasks_def tsq_push_def)
next
  case (Some i)
  then show ?thesis
    using mset_concat_update [OF assms [OF Some], of "per_thread_task_queue p ! i @ [t]"]
    by (simp add: WorkStealing_Add_def all_tasks_def tsq_push_def)
qed

section \<open>The pool conserves tasks\<close>

definition pool_inv :: "'task thread_pool \<Rightarrow> bool" where
  "pool_inv pool \<longleftrightarrow>
     length (threads pool) \<le> length (per_thread_task_queue (policy pool)) \<and>
     length (interrupted pool) = length (threads pool) \<and>
     mset (submitted pool) = mset (executed pool) + mset (all_tasks (policy pool))"

lemma ThreadPool_Start_inv: "pool_inv (ThreadPool_Start hint hw pool_init)"
  by (simp add: pool_inv_def ThreadPool_Start_def pool_init_def WorkStealing_Initialize_def all_tasks_def
      Let_def)

lemma worker_try_inv:
  assumes "pool_inv pool"
    and "r = None \<or> (\<exists>t p. r = Some (t, p) \<and>
      length (per_thread_task_queue p) = length (per_thread_task_queue (policy pool)) \<and>
      mset (all_tasks (policy pool)) = add_mset t (mset (all_tasks p)))"
  shows "pool_inv (worker_try i r pc pool)"
  using assms by (auto simp: pool_inv_def worker_try_def worker_goto_def)

lemma worker_inv:
  assumes inv: "pool_inv pool" and i: "i < length (threads pool)"
  shows "pool_inv (worker i pool)"
proof -
  have local: "pool_inv (worker_try i (TakeFromLocal (Some k) (policy pool)) pc pool)"
    if "k < length (per_thread_task_queue (policy pool))" for k pc
    by (rule TakeFromLocal_cases [OF that]) (auto intro!: worker_try_inv [OF inv])
  have glob: "pool_inv (worker_try i (TakeFromGlobal (policy pool)) pc pool)" for pc
    by (rule TakeFromGlobal_cases [of "policy pool"]) (auto intro!: worker_try_inv [OF inv])
  have goto: "pool_inv (worker_goto i pc pool)" for pc
    using inv by (simp add: pool_inv_def worker_goto_def)
  show ?thesis
    using inv i local glob goto
    by (auto simp: worker_def TakeFromOther_def pool_inv_def [of pool] split: worker_pc.split)
qed

lemma pool_step_inv: "pool_step pool pool' \<Longrightarrow> pool_inv pool \<Longrightarrow> pool_inv pool'"
proof (induction rule: pool_step.induct)
  case (submit_outside pool t)
  then show ?case using WorkStealing_Add_mset [of None "policy pool" t]
    by (simp add: pool_inv_def ThreadPool_Submit_def) (simp add: WorkStealing_Add_def)
next
  case (submit_worker i pool t)
  then show ?case using WorkStealing_Add_mset [of "Some i" "policy pool" t]
    by (simp add: pool_inv_def ThreadPool_Submit_def) (simp add: WorkStealing_Add_def)
next
  case (work i pool)
  then show ?case by (simp add: worker_inv)
next
  case (interrupt i pool)
  then show ?case by (simp add: pool_inv_def Thread_Interrupt_def)
next
  case (joined pool)
  then show ?case by (simp add: pool_inv_def ThreadPool_Stop_def)
qed

lemma pool_steps_inv: "pool_step\<^sup>*\<^sup>* pool pool' \<Longrightarrow> pool_inv pool \<Longrightarrow> pool_inv pool'"
  by (induction rule: rtranclp_induct) (auto intro: pool_step_inv)

text \<open>
  A pool that is started again with fewer threads cuts the list of own queues, and the tasks in the
  queues cut off with it: here the one task that was submitted is neither run nor queued.
\<close>

definition stopped_with_task :: "nat thread_pool" where
  "stopped_with_task = worker 1 (worker 0 (Thread_Interrupt 1 (Thread_Interrupt 0
     (ThreadPool_Submit (Some 1) 5 (ThreadPool_Start 2 8 pool_init)))))"

lemma restart_loses_tasks:
  "pool_step\<^sup>*\<^sup>* (ThreadPool_Start 2 8 pool_init) (ThreadPool_Stop stopped_with_task)"
  "submitted stopped_with_task = [5] \<and> executed stopped_with_task = []"
  "all_tasks (policy (ThreadPool_Start 1 8 (ThreadPool_Stop stopped_with_task))) = []"
proof -
  let ?p1 = "ThreadPool_Start 2 8 pool_init :: nat thread_pool"
  let ?p2 = "ThreadPool_Submit (Some 1) 5 ?p1" let ?p3 = "Thread_Interrupt 0 ?p2"
  let ?p4 = "Thread_Interrupt 1 ?p3" let ?p5 = "worker 0 ?p4"
  have "pool_step ?p1 ?p2" by (rule submit_worker) code_simp
  moreover have "pool_step ?p2 ?p3" by (rule interrupt) code_simp
  moreover have "pool_step ?p3 ?p4" by (rule interrupt) code_simp
  moreover have "pool_step ?p4 ?p5" by (rule work) code_simp
  moreover have "pool_step ?p5 (worker 1 ?p5)" by (rule work) code_simp
  moreover have "pool_step (worker 1 ?p5) (ThreadPool_Stop (worker 1 ?p5))" by (rule joined) code_simp
  ultimately show "pool_step\<^sup>*\<^sup>* (ThreadPool_Start 2 8 pool_init) (ThreadPool_Stop stopped_with_task)"
    unfolding stopped_with_task_def by (meson converse_rtranclp_into_rtranclp r_into_rtranclp)
  show "submitted stopped_with_task = [5] \<and> executed stopped_with_task = []"
    "all_tasks (policy (ThreadPool_Start 1 8 (ThreadPool_Stop stopped_with_task))) = []" by code_simp+
qed

section \<open>Properties\<close>

text \<open>
  C19: the pool loses no task and runs none twice.  After \<open>Start\<close>, whatever the interleaving of
  submitters, workers, interrupts and the end of \<open>Stop\<close>, the tasks submitted so far are, counted with multiplicity, the
  tasks that have been run and the tasks that still wait in one of the queues.
\<close>

theorem pool_conserves_tasks:
  assumes "pool_step\<^sup>*\<^sup>* (ThreadPool_Start hint hw pool_init) pool"
  shows "mset (submitted pool) = mset (executed pool) + mset (all_tasks (policy pool))"
  using pool_steps_inv [OF assms ThreadPool_Start_inv] by (simp add: pool_inv_def)

theorem pool_conserves_tasks_witness:
  "mset (submitted (ThreadPool_Submit None (5::nat) (ThreadPool_Start 2 8 pool_init))) =
   mset (executed (ThreadPool_Submit None (5::nat) (ThreadPool_Start 2 8 pool_init))) +
   mset (all_tasks (policy (ThreadPool_Submit None (5::nat) (ThreadPool_Start 2 8 pool_init))))"
  by (rule pool_conserves_tasks, rule r_into_rtranclp, rule submit_outside)



end
