(* ===== verification/Service_Event.thy ===== *)
theory Service_Event
  imports Mcast_Prelude
begin

text \<open>
  \<open>ServiceEvent.h\<close> and \<open>ServiceEvent.cpp\<close>: the events a service waits for are bits of an
  \<open>unsigned\<close>; the mask of events a service waits for and the mask of events that have reached it
  are such words.
\<close>

section \<open>The event bits\<close>

definition kNoneEvent :: u32 where "kNoneEvent = 0"
definition kServiceStart :: u32 where "kServiceStart = 1"
definition kSignal :: u32 where "kSignal = push_bit 1 1"
definition kInterrupt :: u32 where "kInterrupt = push_bit 2 1"
definition kMessage :: u32 where "kMessage = push_bit 3 1"
definition kRequest :: u32 where "kRequest = push_bit 4 1"
definition kResponse :: u32 where "kResponse = push_bit 5 1"
definition kIO_Operation :: u32 where "kIO_Operation = push_bit 6 1"
definition kSleep :: u32 where "kSleep = push_bit 7 1"
definition kTimeout :: u32 where "kTimeout = push_bit 8 1"
definition kServiceStop :: u32 where "kServiceStop = push_bit 9 1"
definition kCount :: nat where "kCount = 11"

lemmas event_defs = kNoneEvent_def kServiceStart_def kSignal_def kInterrupt_def kMessage_def
  kRequest_def kResponse_def kIO_Operation_def kSleep_def kTimeout_def kServiceStop_def

section \<open>Event masks as texts\<close>

definition s_service_event_texts :: "string list" where
  "s_service_event_texts =
    [''NoneEvent'', ''ServiceStart'', ''Signal'', ''Interrupt'', ''Message'', ''Request'',
     ''Response'', ''IO_Operation'', ''Sleep'', ''Timeout'', ''ServiceStop'']"

function ServiceEventToText_loop :: "nat \<Rightarrow> u32 \<Rightarrow> string \<Rightarrow> string" where
  "ServiceEventToText_loop i x str =
     (if 0 < x \<and> i < kCount
      then ServiceEventToText_loop (Suc i) (drop_bit 1 x)
             (if x AND 1 \<noteq> 0
              then (if 1 < length str then str @ ''|'' else str) @ s_service_event_texts ! i
              else str)
      else str)"
  by pat_completeness auto
termination by (relation "measure (\<lambda>(i, _, _). kCount - i)") auto

declare ServiceEventToText_loop.simps [simp del]

text \<open>The last line of the function: the text is never empty there, it starts with a bracket.\<close>

definition ServiceEventToText :: "u32 \<Rightarrow> string" where
  "ServiceEventToText x =
     (let str = ServiceEventToText_loop 1 x ''[''
      in if str \<noteq> '''' then str @ '']'' else ''[NoneEvent]'')"

section \<open>What the text says\<close>

text \<open>The names of the events in a mask, lowest bit first, as the specification of the text.\<close>

definition event_names :: "u32 \<Rightarrow> string list" where
  "event_names x = map (\<lambda>i. s_service_event_texts ! i) (filter (\<lambda>i. bit x (i - 1)) [1..<kCount])"

fun bar_join :: "string list \<Rightarrow> string" where
  "bar_join [] = ''''"
| "bar_join [n] = n"
| "bar_join (n # ns) = n @ ''|'' @ bar_join ns"

fun bar_append :: "string \<Rightarrow> string list \<Rightarrow> string" where
  "bar_append str [] = str"
| "bar_append str (n # ns) = bar_append ((if 1 < length str then str @ ''|'' else str) @ n) ns"

lemma bar_append_long:
  "1 < length str \<Longrightarrow> bar_append str ns = str @ concat (map ((#) CHR ''|'') ns)"
proof (induction ns arbitrary: str)
  case (Cons n ns)
  have "1 < length (str @ ''|'' @ n)" using Cons.prems by auto
  from Cons.IH [OF this] show ?case using Cons.prems by simp
qed simp

lemma bar_join_Cons: "bar_join (n # ns) = n @ concat (map ((#) CHR ''|'') ns)"
  by (induction ns arbitrary: n) auto

lemma bar_append_bracket:
  assumes "\<forall>n\<in>set ns. n \<noteq> []"
  shows "bar_append ''['' ns = ''['' @ bar_join ns"
proof (cases ns)
  case (Cons n ns')
  with assms have "1 < length (''['' @ n)" by simp
  then have "bar_append (''['' @ n) ns' = (''['' @ n) @ concat (map ((#) CHR ''|'') ns')"
    by (rule bar_append_long)
  moreover have "bar_append ''['' ns = bar_append (''['' @ n) ns'" using Cons by simp
  ultimately show ?thesis unfolding Cons bar_join_Cons by simp
qed simp

lemma ServiceEventToText_loop_names:
  assumes "1 \<le> i" "i \<le> kCount"
  shows "ServiceEventToText_loop i (drop_bit (i - 1) x) str =
    bar_append str (map (\<lambda>i. s_service_event_texts ! i) (filter (\<lambda>i. bit x (i - 1)) [i..<kCount]))"
  using assms
proof (induction "kCount - i" arbitrary: i str)
  case 0
  then show ?case by (subst ServiceEventToText_loop.simps) simp
next
  case (Suc k)
  let ?x = "drop_bit (i - 1) x"
  have upt: "[i..<kCount] = i # [Suc i..<kCount]" using Suc by (intro upt_conv_Cons) simp
  have bit0: "?x AND 1 \<noteq> 0 \<longleftrightarrow> bit x (i - 1)"
    by (simp add: bit_iff_odd_drop_bit and_one_eq odd_iff_mod_2_eq_one)
  have next_x: "drop_bit 1 ?x = drop_bit (Suc i - 1) x"
    using Suc.prems by (simp add: add.commute)
  show ?case
  proof (cases "?x = 0")
    case True
    have "\<not> bit x (j - 1)" if "j \<in> set [i..<kCount]" for j
    proof -
      have "bit x (j - 1) \<longleftrightarrow> bit ?x (j - i)"
        using that Suc.prems by (simp add: bit_drop_bit_eq)
      with True show ?thesis by simp
    qed
    then have "filter (\<lambda>i. bit x (i - 1)) [i..<kCount] = []" by (simp add: filter_empty_conv)
    then show ?thesis using True by (subst ServiceEventToText_loop.simps) simp
  next
    case False
    then have "0 < ?x" by (simp add: word_neq_0_conv)
    moreover have "i < kCount" using Suc by simp
    ultimately have "ServiceEventToText_loop i ?x str =
        ServiceEventToText_loop (Suc i) (drop_bit (Suc i - 1) x)
          (if bit x (i - 1) then (if 1 < length str then str @ ''|'' else str) @ s_service_event_texts ! i
           else str)"
      by (subst ServiceEventToText_loop.simps) (simp only: bit0 next_x simp_thms if_True)
    also have "\<dots> = bar_append
        (if bit x (i - 1) then (if 1 < length str then str @ ''|'' else str) @ s_service_event_texts ! i
         else str)
        (map (\<lambda>i. s_service_event_texts ! i) (filter (\<lambda>i. bit x (i - 1)) [Suc i..<kCount]))"
      using Suc by (intro Suc.hyps(1)) auto
    finally show ?thesis by (simp add: upt)
  qed
qed

lemma event_names_nonempty: "\<forall>n\<in>set (event_names x). n \<noteq> []"
proof -
  have "\<forall>i\<in>set [1..<kCount]. s_service_event_texts ! i \<noteq> []" by code_simp
  then show ?thesis by (auto simp: event_names_def)
qed

lemma ServiceEventToText_correct: "ServiceEventToText x = ''['' @ bar_join (event_names x) @ '']''"
proof -
  have "ServiceEventToText_loop 1 x ''['' = bar_append ''['' (event_names x)"
    using ServiceEventToText_loop_names [of 1 x "''[''"] by (simp add: event_names_def kCount_def)
  then have "ServiceEventToText_loop 1 x ''['' = ''['' @ bar_join (event_names x)"
    using bar_append_bracket [OF event_names_nonempty] by simp
  then show ?thesis by (simp add: ServiceEventToText_def Let_def)
qed

section \<open>Properties\<close>

text \<open>
  The text of an event mask names exactly its events.  For every mask the text is an opening
  bracket, the names of the set bits 0 to 9 from the lowest up with bars between them, and a closing
  bracket; in particular the empty mask prints as an empty pair of brackets.
\<close>

lemma event_text_names_events:
  "ServiceEventToText x = ''['' @ bar_join (event_names x) @ '']'' \<and> ServiceEventToText kNoneEvent = ''[]''"
proof -
  have "event_names kNoneEvent = []" by (simp add: event_names_def kNoneEvent_def)
  then show ?thesis using ServiceEventToText_correct by simp
qed

end
