(* ===== verification/Timer_Service.thy ===== *)
theory Timer_Service
  imports Mcast_Prelude
begin

text \<open>
  \<open>TimerService.h\<close> and \<open>TimerService.cpp\<close>: a hierarchical timing wheel of 256 slots for the
  near future and four cascades of 64 slots for the rest of the 32-bit clock.

  A \<open>TimerList *\<close> is a reference into the two arrays of lists, a \<open>TimerSlot\<close> is an object
  of a heap indexed by the timer's identity (its \<open>shared_ptr\<close>), and a weak handle has expired
  when the heap no longer holds the object.  A timer is in at most one list at a time, so the
  iterator \<open>pos\<close> is the timer's own node and \<open>erase(pos)\<close> removes the timer.  Callbacks run
  outside the service's lock and are opaque: running one appends it to the log \<open>called\<close>.
\<close>

section \<open>State\<close>

datatype list_ref = Section1 nat | Section2 nat nat

record 'cb timer_slot =
  ts_tm :: u32
  ts_cb :: 'cb
  ts_slot :: "list_ref option"

record 'cb timer_service =
  time_slot :: "list_ref \<Rightarrow> nat list"
  timers :: "nat \<rightharpoonup> 'cb timer_slot"
  next_timer :: nat
  cur_time :: u32
  called :: "'cb list"

definition TimerService :: "'cb timer_service" where
  "TimerService = \<lparr>time_slot = (\<lambda>_. []), timers = Map.empty, next_timer = 0, cur_time = 1,
     called = []\<rparr>"

definition kPeriod :: u32 where "kPeriod = 10"
definition kSection1Bits :: nat where "kSection1Bits = 8"
definition kSection2Bits :: nat where "kSection2Bits = 6"
definition kSection1Num :: u32 where "kSection1Num = 2 ^ kSection1Bits"
definition kSection2Num :: u32 where "kSection2Num = 2 ^ kSection2Bits"
definition kSection1Mask :: u32 where "kSection1Mask = kSection1Num - 1"
definition kSection2Mask :: u32 where "kSection2Mask = kSection2Num - 1"

lemmas wheel_consts = kPeriod_def kSection1Bits_def kSection2Bits_def kSection1Num_def
  kSection2Num_def kSection1Mask_def kSection2Mask_def

section \<open>Placing a timer\<close>

definition tm_of :: "'cb timer_service \<Rightarrow> nat \<Rightarrow> u32" where
  "tm_of st timer = (case timers st timer of Some t \<Rightarrow> ts_tm t | None \<Rightarrow> 0)"

text \<open>\<open>push_back\<close> on a list, then the timer's back pointer to that list.\<close>

definition push_back_timer :: "list_ref \<Rightarrow> nat \<Rightarrow> 'cb timer_service \<Rightarrow> 'cb timer_service" where
  "push_back_timer r timer st =
     st\<lparr>time_slot := (time_slot st)(r := time_slot st r @ [timer]),
        timers := (timers st)(timer := map_option (\<lambda>t. t\<lparr>ts_slot := Some r\<rparr>) (timers st timer))\<rparr>"

definition AddSection1 :: "nat \<Rightarrow> 'cb timer_service \<Rightarrow> 'cb timer_service" where
  "AddSection1 timer st =
     (let i = tm_of st timer AND kSection1Mask
      in push_back_timer (Section1 (unat i)) timer st)"

definition GetSection2Index :: "u32 \<Rightarrow> nat \<Rightarrow> u32" where
  "GetSection2Index t section =
     drop_bit (kSection1Bits + kSection2Bits * section) t AND kSection2Mask"

definition AddSection2 :: "nat \<Rightarrow> nat \<Rightarrow> 'cb timer_service \<Rightarrow> 'cb timer_service" where
  "AddSection2 section timer st =
     (let i = GetSection2Index (tm_of st timer) section
      in push_back_timer (Section2 section (unat i)) timer st)"

definition DoAdd :: "u32 \<Rightarrow> nat \<Rightarrow> 'cb timer_service \<Rightarrow> 'cb timer_service" where
  "DoAdd curtime timer st =
     (let tm_dx = tm_of st timer - curtime
      in if tm_dx < kSection1Num then AddSection1 timer st
         else if tm_dx < kSection1Num * kSection2Num then AddSection2 0 timer st
         else if tm_dx < kSection1Num * kSection2Num * kSection2Num then AddSection2 1 timer st
         else if tm_dx < kSection1Num * kSection2Num * kSection2Num * kSection2Num
              then AddSection2 2 timer st
         else AddSection2 3 timer st)"

section \<open>Adding and deleting\<close>

definition AddTimer ::
  "u32 \<Rightarrow> 'cb \<Rightarrow> 'cb timer_service \<Rightarrow> nat option \<times> 'cb timer_service" where
  "AddTimer timeout_milliseconds callback st =
     (let timeout = (timeout_milliseconds + kPeriod div 2) div kPeriod
      in if timeout = 0 then (None, st\<lparr>called := called st @ [callback]\<rparr>)
         else
           let timer = next_timer st;
               curtm = cur_time st;
               slot = \<lparr>ts_tm = curtm + timeout, ts_cb = callback, ts_slot = None\<rparr>;
               st = st\<lparr>next_timer := Suc timer, timers := (timers st)(timer \<mapsto> slot)\<rparr>
           in (Some timer, DoAdd curtm timer st))"

definition DeleteTimer ::
  "nat option \<Rightarrow> 'cb timer_service \<Rightarrow> bool \<times> 'cb timer_service" where
  "DeleteTimer h st =
     (case h of
        None \<Rightarrow> (False, st)
      | Some timer \<Rightarrow>
          (case timers st timer of
             None \<Rightarrow> (False, st)
           | Some t \<Rightarrow>
               (case ts_slot t of
                  None \<Rightarrow> (True, st)
                | Some r \<Rightarrow>
                    (True, st\<lparr>time_slot := (time_slot st)(r := remove1 timer (time_slot st r)),
                              timers := (timers st)(timer := None)\<rparr>))))"

section \<open>Cascading and firing\<close>

text \<open>
  The range-based loop of \<open>TickSection2\<close> walks the list while \<open>DoAdd\<close> may append to lists;
  it sees whatever is appended to the list it walks.  Nothing bounds it in general, so it is
  a partial function: \<open>None\<close> would be a loop that never ends.
\<close>

partial_function (option) TickSection2_loop ::
  "u32 \<Rightarrow> list_ref \<Rightarrow> nat \<Rightarrow> 'cb timer_service \<Rightarrow> 'cb timer_service option" where
  "TickSection2_loop curtime r k st =
     (if k < length (time_slot st r)
      then TickSection2_loop curtime r (Suc k) (DoAdd curtime (time_slot st r ! k) st)
      else Some st)"

text \<open>
  \<open>clear()\<close> releases the list's references: a timer that another list has taken over (its back
  pointer names that list) lives on, any other timer of the list is destroyed.
\<close>

definition clear_list :: "list_ref \<Rightarrow> 'cb timer_service \<Rightarrow> 'cb timer_service" where
  "clear_list r st =
     st\<lparr>time_slot := (time_slot st)(r := []),
        timers := (\<lambda>timer. case timers st timer of
                      None \<Rightarrow> None
                    | Some t \<Rightarrow> (if timer \<in> set (time_slot st r) \<and> ts_slot t = Some r
                                then None else Some t))\<rparr>"

definition TickSection2 ::
  "u32 \<Rightarrow> nat \<Rightarrow> 'cb timer_service \<Rightarrow> (bool \<times> 'cb timer_service) option" where
  "TickSection2 curtime section st0 =
     (let i = GetSection2Index curtime section;
          r = Section2 section (unat i)
      in do {
        st \<leftarrow> TickSection2_loop curtime r 0 st0;
        Some (i = 0, clear_list r st)
      })"

definition Cascade :: "u32 \<Rightarrow> 'cb timer_service \<Rightarrow> 'cb timer_service option" where
  "Cascade curtime st =
     do {
       (b, st) \<leftarrow> TickSection2 curtime 0 st;
       (b, st) \<leftarrow> (if b then TickSection2 curtime 1 st else Some (False, st));
       (b, st) \<leftarrow> (if b then TickSection2 curtime 2 st else Some (False, st));
       (b, st) \<leftarrow> (if b then TickSection2 curtime 3 st else Some (False, st));
       Some st
     }"

text \<open>The locked part of \<open>Update\<close>: detach the due list, forgetting the back pointers.\<close>

definition SpliceSection1 ::
  "u32 \<Rightarrow> 'cb timer_service \<Rightarrow> nat list \<times> 'cb timer_service" where
  "SpliceSection1 section1_i st =
     (let r = Section1 (unat section1_i); list = time_slot st r
      in (list,
          st\<lparr>time_slot := (time_slot st)(r := []),
             timers := (\<lambda>timer. if timer \<in> set list
                          then map_option (\<lambda>t. t\<lparr>ts_slot := None\<rparr>) (timers st timer)
                          else timers st timer)\<rparr>))"

text \<open>The rest: run the callbacks in list order, then drop the list and with it the timers.\<close>

definition RunCallbacks :: "nat list \<Rightarrow> 'cb timer_service \<Rightarrow> 'cb timer_service" where
  "RunCallbacks list st =
     st\<lparr>called := called st @ map ts_cb (List.map_filter (timers st) list),
        timers := (\<lambda>timer. if timer \<in> set list then None else timers st timer)\<rparr>"

definition Update :: "u32 \<Rightarrow> 'cb timer_service \<Rightarrow> 'cb timer_service option" where
  "Update curtime st =
     (let section1_i = curtime AND kSection1Mask
      in do {
        st \<leftarrow> (if section1_i = 0 then Cascade curtime st else Some st);
        let (list, st) = SpliceSection1 section1_i st;
        Some (RunCallbacks list st)
      })"

text \<open>One turn of the inner loop of \<open>Run\<close>: \<open>fetch_add\<close> yields the old time.\<close>

definition Tick :: "'cb timer_service \<Rightarrow> 'cb timer_service option" where
  "Tick st = Update (cur_time st) (st\<lparr>cur_time := cur_time st + 1\<rparr>)"

fun Ticks :: "nat \<Rightarrow> 'cb timer_service \<Rightarrow> 'cb timer_service option" where
  "Ticks 0 st = Some st"
| "Ticks (Suc n) st = do { st \<leftarrow> Tick st; Ticks n st }"

text \<open>
  \<open>Run\<close>: every round sleeps, reads the steady clock, performs as many ticks as whole periods have
  passed and moves \<open>Start\<close> forward by exactly those periods.  The clock counts nanoseconds; its
  readings up to the interrupt are the argument.
\<close>

definition period_ns :: nat where "period_ns = unat kPeriod * 1000000"

fun Run_loop ::
  "nat \<Rightarrow> nat list \<Rightarrow> 'cb timer_service \<Rightarrow> (nat \<times> 'cb timer_service) option" where
  "Run_loop Start [] st = Some (Start, st)"
| "Run_loop Start (now # clock) st =
     (let count = (now - Start) div period_ns
      in do {
        st \<leftarrow> Ticks count st;
        Run_loop (Start + count * period_ns) clock st
      })"

definition ToMilliseconds :: "u32 \<Rightarrow> u64" where
  "ToMilliseconds tm = ucast (tm * kPeriod)"

definition DurationSince :: "'cb timer_service \<Rightarrow> u32 \<Rightarrow> u32" where
  "DurationSince st timeStart = cur_time st - timeStart"

section \<open>The specification: what is pending\<close>

text \<open>The abstract state: for every live timer its due time and its callback.\<close>

definition pending :: "'cb timer_service \<Rightarrow> nat \<rightharpoonup> u32 \<times> 'cb" where
  "pending st timer = map_option (\<lambda>t. (ts_tm t, ts_cb t)) (timers st timer)"

section \<open>Where a timer may sit\<close>

definition dist :: "u32 \<Rightarrow> u32 \<Rightarrow> nat" where
  "dist c tm = unat (tm - c)"

definition block :: "nat \<Rightarrow> nat" where
  "block s = 2 ^ (8 + 6 * s)"

definition low :: "nat \<Rightarrow> u32 \<Rightarrow> nat" where
  "low s tm = unat tm mod block s"

fun home_ok :: "u32 \<Rightarrow> list_ref \<Rightarrow> u32 \<Rightarrow> bool" where
  "home_ok c (Section1 i) tm \<longleftrightarrow> i = unat (tm AND kSection1Mask) \<and> dist c tm < 256"
| "home_ok c (Section2 s i) tm \<longleftrightarrow>
     s < 4 \<and> i = unat (GetSection2Index tm s) \<and>
     low s tm \<le> dist c tm \<and> dist c tm - low s tm < 64 * block s"

definition target :: "u32 \<Rightarrow> u32 \<Rightarrow> list_ref" where
  "target c tm =
     (if dist c tm < 256 then Section1 (unat (tm AND kSection1Mask))
      else if dist c tm < block 1 then Section2 0 (unat (GetSection2Index tm 0))
      else if dist c tm < block 2 then Section2 1 (unat (GetSection2Index tm 1))
      else if dist c tm < block 3 then Section2 2 (unat (GetSection2Index tm 2))
      else Section2 3 (unat (GetSection2Index tm 3)))"

lemma block_simps [wheel_simps]:
  "block 0 = 256" "block 1 = 16384" "block (Suc 0) = 16384" "block 2 = 1048576"
  "block 3 = 67108864"
  by (simp_all add: block_def)

lemma block_pos [simp]: "0 < block s"
  by (simp add: block_def)

lemma low_less [simp]: "low s tm < block s"
  by (simp add: low_def)

lemma section1_index: "unat (tm AND kSection1Mask) = unat tm mod 256"
proof -
  have "kSection1Mask = mask 8" by (simp add: wheel_consts mask_eq_exp_minus_1)
  then have "unat (tm AND kSection1Mask) = unat tm mod 2 ^ 8"
    by (metis unat_and_mask)
  then show ?thesis by simp
qed

lemma section2_index: "unat (GetSection2Index tm s) = unat tm div block s mod 64"
proof -
  have "kSection2Mask = mask 6" by (simp add: wheel_consts mask_eq_exp_minus_1)
  then have "GetSection2Index tm s = drop_bit (8 + 6 * s) tm AND mask 6"
    by (simp only: GetSection2Index_def kSection1Bits_def kSection2Bits_def)
  then show ?thesis by (simp only: unat_and_mask unat_shiftr block_def) simp
qed

lemma DoAdd_target: "DoAdd c timer st = push_back_timer (target c (tm_of st timer)) timer st"
  by (simp add: DoAdd_def Let_def AddSection1_def AddSection2_def target_def dist_def
      word_less_nat_alt wheel_consts block_simps)

lemma low_zero_le:
  assumes "s \<le> s'" "low s' c = 0"
  shows "low s c = 0"
proof -
  have "block s dvd block s'"
    using assms(1) by (auto simp: block_def intro!: le_imp_power_dvd)
  then show ?thesis
    using assms(2) by (auto simp: low_def mod_eq_0_iff_dvd intro: dvd_trans)
qed

lemma low_Suc_zero_iff:
  "low (Suc s) c = 0 \<longleftrightarrow> low s c = 0 \<and> GetSection2Index c s = 0"
proof -
  have b: "block (Suc s) = block s * 64" by (simp add: block_def power_add)
  have "GetSection2Index c s = 0 \<longleftrightarrow> unat c div block s mod 64 = 0"
    by (metis section2_index unat_eq_0)
  moreover have "unat c mod (block s * 64) = block s * (unat c div block s mod 64) + unat c mod block s"
    by (rule mod_mult2_eq)
  ultimately show ?thesis by (auto simp: low_def b)
qed

text \<open>Placement establishes the placement condition, strictly.\<close>

lemma dist_less: "dist c tm < 4294967296"
  using unat_lt_size [of "tm - c"] by (simp add: dist_def)

lemma target_home_ok: "home_ok c (target c tm) tm"
  using low_less [of 0 tm] low_less [of 1 tm] low_less [of 2 tm] low_less [of 3 tm] dist_less [of c tm]
  by (auto simp: target_def block_simps)

lemma target_strict: "target c tm = Section2 s i \<Longrightarrow> low s tm < dist c tm"
  using low_less [of 0 tm] low_less [of 1 tm] low_less [of 2 tm] low_less [of 3 tm]
  by (auto simp: target_def block_simps split: if_splits)

text \<open>The clock moves on: a timer that is not yet due at its place keeps its place.\<close>

lemma dist_Suc: "dist c tm \<noteq> 0 \<Longrightarrow> dist (c + 1) tm = dist c tm - 1"
proof -
  assume "dist c tm \<noteq> 0"
  then have "tm - c \<noteq> 0" by (metis dist_def unat_0)
  then have "unat (tm - c - 1) = unat (tm - c) - 1" by (rule unat_minus_one)
  then show ?thesis by (simp add: dist_def diff_diff_eq)
qed

lemma dist_zero_iff: "dist c tm = 0 \<longleftrightarrow> tm = c"
  by (simp add: dist_def unat_eq_0)

fun strict_at :: "u32 \<Rightarrow> list_ref \<Rightarrow> u32 \<Rightarrow> bool" where
  "strict_at c (Section1 i) tm \<longleftrightarrow> tm \<noteq> c"
| "strict_at c (Section2 s i) tm \<longleftrightarrow> low s tm < dist c tm"

lemma home_ok_advance: "home_ok c r tm \<Longrightarrow> strict_at c r tm \<Longrightarrow> home_ok (c + 1) r tm"
proof (induction c r tm rule: home_ok.induct)
  case (1 c i tm)
  then show ?case using dist_Suc [of c tm] by (auto simp: dist_zero_iff)
next
  case (2 c s i tm)
  then show ?case using dist_Suc [of c tm] by auto
qed

lemma dist_int: "int (dist c tm) = (int (unat tm) - int (unat c)) mod 2 ^ 32"
  using int_unat_minus [of tm c] by (simp add: dist_def)

text \<open>A slot that is ticked holds exactly the timers whose block starts now.\<close>

lemma cascade_due:
  assumes "home_ok c (Section2 s i) tm" "low s c = 0" "i = unat (GetSection2Index c s)"
  shows "dist c tm = low s tm"
proof -
  let ?B = "int (block s)" and ?T = "int (unat tm)" and ?C = "int (unat c)"
  have s: "s < 4" and idx: "unat tm div block s mod 64 = unat c div block s mod 64"
    and le: "low s tm \<le> dist c tm" and lt: "dist c tm - low s tm < 64 * block s"
    using assms by (auto simp: section2_index)
  have T: "?T = ?B * int (unat tm div block s) + int (low s tm)"
  proof -
    have "?T = int (block s * (unat tm div block s) + low s tm)" by (simp add: low_def)
    then show ?thesis by (simp only: of_nat_add of_nat_mult)
  qed
  have "unat c = block s * (unat c div block s)"
    using mult_div_mod_eq [of "block s" "unat c"] assms(2) unfolding low_def by simp
  then have C: "?C = ?B * int (unat c div block s)"
    by (simp only: of_nat_mult [symmetric])
  have "int (unat tm div block s) mod 64 = int (unat c div block s) mod 64"
    using arg_cong [OF idx, of int] by (simp only: of_nat_mod of_nat_numeral)
  then have "64 dvd int (unat tm div block s) - int (unat c div block s)"
    by (simp only: mod_eq_dvd_iff)
  then have "?B * 64 dvd ?B * (int (unat tm div block s) - int (unat c div block s))"
    by (rule mult_dvd_mono [OF dvd_refl])
  moreover have "?B * (int (unat tm div block s) - int (unat c div block s)) = (?T - ?C) - int (low s tm)"
    unfolding T C by (simp add: right_diff_distrib)
  ultimately have d1: "?B * 64 dvd (?T - ?C) - int (low s tm)" by simp
  have "block s * 64 = 2 ^ (14 + 6 * s)" by (simp add: block_def power_add)
  then have "int (block s * 64) = int (2 ^ (14 + 6 * s))" by (rule arg_cong)
  then have "?B * 64 = 2 ^ (14 + 6 * s)" by (simp only: of_nat_mult of_nat_numeral of_nat_power)
  moreover have "(2::int) ^ (14 + 6 * s) dvd 2 ^ 32"
    using s by (intro le_imp_power_dvd) simp
  ultimately have "?B * 64 dvd 2 ^ 32" by simp
  then have d2: "?B * 64 dvd (?T - ?C) - (?T - ?C) mod 2 ^ 32"
    by (rule dvd_trans) (rule dvd_minus_mod)
  have "((?T - ?C) - int (low s tm)) - ((?T - ?C) - (?T - ?C) mod 2 ^ 32)
      = int (dist c tm) - int (low s tm)"
    unfolding dist_int by simp
  then have "?B * 64 dvd int (dist c tm) - int (low s tm)"
    using dvd_diff [OF d1 d2] by simp
  then have "int (block s * 64) dvd int (dist c tm - low s tm)"
    using le by (simp add: of_nat_diff)
  then have "block s * 64 dvd dist c tm - low s tm"
    by (simp only: of_nat_dvd_iff)
  then have "dist c tm - low s tm = 0"
    using lt by (auto dest: dvd_imp_le)
  then show ?thesis using le by simp
qed

text \<open>Conversely, a timer whose block starts now sits in a slot that is ticked now.\<close>

lemma due_cascades:
  assumes "dist c tm = low s tm"
  shows "low s c = 0" "GetSection2Index c s = GetSection2Index tm s"
proof -
  have lu: "low s tm \<le> unat tm" by (simp add: low_def)
  have "c = tm - (tm - c)" by simp
  moreover have "tm - c = of_nat (low s tm)"
    by (simp add: dist_def flip: assms)
  ultimately have "c = tm - of_nat (low s tm)" by simp
  moreover have l: "unat (of_nat (low s tm) :: u32) = low s tm"
    using lu unat_lt_size [of tm] by (simp add: unat_of_nat)
  moreover have "(of_nat (low s tm) :: u32) \<le> tm"
    unfolding word_le_nat_alt l by (rule lu)
  ultimately have "unat c = unat tm - low s tm"
    by (simp only: unat_sub)
  then have c: "unat c = block s * (unat tm div block s)"
    by (simp add: low_def minus_mod_eq_mult_div)
  then show "low s c = 0" by (simp add: low_def)
  have "unat (GetSection2Index c s) = unat (GetSection2Index tm s)"
    by (simp add: section2_index c)
  then show "GetSection2Index c s = GetSection2Index tm s" by (rule unsigned_word_eqI)
qed

lemma section1_due:
  assumes "home_ok c (Section1 i) tm" "i = unat (c AND kSection1Mask)"
  shows "tm = c"
proof -
  have m: "unat tm mod 256 = unat c mod 256" and lt: "dist c tm < 256"
    using assms by (auto simp: section1_index)
  have "int (unat tm) mod 256 = int (unat c) mod 256"
    using arg_cong [OF m, of int] by (simp only: of_nat_mod of_nat_numeral)
  then have "256 dvd int (unat tm) - int (unat c)" by (simp only: mod_eq_dvd_iff)
  then have "256 dvd int (dist c tm)"
    unfolding dist_int by (simp add: dvd_mod_iff)
  then have "int 256 dvd int (dist c tm)" by (simp only: of_nat_numeral)
  then have "256 dvd dist c tm" by (simp only: of_nat_dvd_iff)
  then have "dist c tm = 0" using lt by (auto dest: dvd_imp_le)
  then show ?thesis by (simp add: dist_zero_iff)
qed

section \<open>The invariant of the wheel\<close>

text \<open>\<open>c\<close> is the next time to be processed.\<close>

definition wheel_inv :: "u32 \<Rightarrow> 'cb timer_service \<Rightarrow> bool" where
  "wheel_inv c st \<longleftrightarrow>
     (\<forall>r. distinct (time_slot st r)) \<and>
     (\<forall>r timer. timer \<in> set (time_slot st r) \<longleftrightarrow>
        (\<exists>t. timers st timer = Some t \<and> ts_slot t = Some r)) \<and>
     (\<forall>timer t. timers st timer = Some t \<longrightarrow> (\<exists>r. ts_slot t = Some r \<and> home_ok c r (ts_tm t))) \<and>
     (\<forall>timer. timers st timer \<noteq> None \<longrightarrow> timer < next_timer st)"

lemma wheel_invD:
  assumes "wheel_inv c st"
  shows "distinct (time_slot st r)"
    "timer \<in> set (time_slot st r) \<longleftrightarrow> (\<exists>t. timers st timer = Some t \<and> ts_slot t = Some r)"
    "timers st timer = Some t \<Longrightarrow> \<exists>r. ts_slot t = Some r \<and> home_ok c r (ts_tm t)"
    "timers st timer \<noteq> None \<Longrightarrow> timer < next_timer st"
  using assms unfolding wheel_inv_def by blast+

text \<open>Section \<open>s\<close> holds no timer whose block starts at \<open>c\<close>.\<close>

definition strict_sec :: "u32 \<Rightarrow> nat \<Rightarrow> 'cb timer_service \<Rightarrow> bool" where
  "strict_sec c s st \<longleftrightarrow>
     (\<forall>timer t i. timers st timer = Some t \<and> ts_slot t = Some (Section2 s i) \<longrightarrow>
        low s (ts_tm t) < dist c (ts_tm t))"

lemma wheel_inv_init: "wheel_inv c TimerService"
  by (simp add: wheel_inv_def TimerService_def)

subsection \<open>Adding\<close>

lemma wheel_inv_add:
  assumes inv: "wheel_inv c st"
  shows "wheel_inv c (push_back_timer (target c tm) (next_timer st)
     (st\<lparr>next_timer := Suc (next_timer st),
         timers := (timers st)(next_timer st \<mapsto> \<lparr>ts_tm = tm, ts_cb = cb, ts_slot = s\<rparr>)\<rparr>))"
proof -
  note D = wheel_invD [OF inv]
  have fresh: "next_timer st \<notin> set (time_slot st r)" for r
    using D(2) [of "next_timer st" r] D(4) [of "next_timer st"] by auto
  have "timers st (next_timer st) = None"
    using D(4) [of "next_timer st"] by (metis less_irrefl)
  then show ?thesis
    unfolding wheel_inv_def push_back_timer_def
    using D(1) D(2) D(3) D(4) fresh target_home_ok [of c tm]
    by (auto simp: less_Suc_eq)
qed

lemma AddTimer_cases:
  fixes ms cb st
  defines "timeout \<equiv> (ms + 5) div 10 :: u32"
  shows "timeout = 0 \<Longrightarrow> AddTimer ms cb st = (None, st\<lparr>called := called st @ [cb]\<rparr>)"
    and "timeout \<noteq> 0 \<Longrightarrow> AddTimer ms cb st =
      (Some (next_timer st), push_back_timer (target (cur_time st) (cur_time st + timeout)) (next_timer st)
        (st\<lparr>next_timer := Suc (next_timer st),
            timers := (timers st)(next_timer st \<mapsto>
              \<lparr>ts_tm = cur_time st + timeout, ts_cb = cb, ts_slot = None\<rparr>)\<rparr>))"
  by (simp_all add: AddTimer_def timeout_def kPeriod_def Let_def DoAdd_target tm_of_def)

lemma AddTimer_inv:
  assumes "wheel_inv (cur_time st) st"
  shows "wheel_inv (cur_time st) (snd (AddTimer ms cb st))"
proof (cases "(ms + 5) div 10 = 0")
  case True
  then show ?thesis using assms by (simp add: AddTimer_cases(1) wheel_inv_def)
next
  case False
  then show ?thesis using wheel_inv_add [OF assms] by (simp add: AddTimer_cases(2))
qed

subsection \<open>Deleting\<close>

lemma DeleteTimer_inv:
  assumes inv: "wheel_inv c st"
  shows "wheel_inv c (snd (DeleteTimer h st))"
proof -
  note D = wheel_invD [OF inv]
  show ?thesis
  proof (cases "case h of None \<Rightarrow> None | Some timer \<Rightarrow> timers st timer")
    case None
    then have "DeleteTimer h st = (False, st)"
      by (auto simp: DeleteTimer_def split: option.splits)
    then show ?thesis using inv by simp
  next
    case (Some t)
    then obtain timer where h: "h = Some timer" and t: "timers st timer = Some t"
      by (auto split: option.splits)
    from D(3) [OF t] obtain r where r: "ts_slot t = Some r" by blast
    have "wheel_inv c (st\<lparr>time_slot := (time_slot st)(r := remove1 timer (time_slot st r)),
       timers := (timers st)(timer := None)\<rparr>)"
      unfolding wheel_inv_def using D(1) D(2) D(3) D(4) t r
      by (auto simp: distinct_remove1)
    then show ?thesis using h t r by (simp add: DeleteTimer_def)
  qed
qed

lemma DeleteTimer_pending:
  assumes "wheel_inv c st"
  shows "pending (snd (DeleteTimer h st)) =
      (case h of None \<Rightarrow> pending st | Some timer \<Rightarrow> (pending st)(timer := None))"
    "fst (DeleteTimer h st) \<longleftrightarrow> (\<exists>timer. h = Some timer \<and> pending st timer \<noteq> None)"
  using wheel_invD(3) [OF assms]
  by (auto simp: DeleteTimer_def pending_def fun_eq_iff split: option.splits) fastforce+

subsection \<open>Cascading\<close>

lemma push_back_tm [simp]: "tm_of (push_back_timer r timer st) x = tm_of st x"
  by (simp add: push_back_timer_def tm_of_def split: option.splits)

lemma push_back_fields [simp]:
  "time_slot (push_back_timer r timer st) = (time_slot st)(r := time_slot st r @ [timer])"
  "timers (push_back_timer r timer st) =
     (timers st)(timer := map_option (\<lambda>t. t\<lparr>ts_slot := Some r\<rparr>) (timers st timer))"
  "next_timer (push_back_timer r timer st) = next_timer st"
  "cur_time (push_back_timer r timer st) = cur_time st"
  "called (push_back_timer r timer st) = called st"
  by (simp_all add: push_back_timer_def)

definition cascaded :: "u32 \<Rightarrow> nat list \<Rightarrow> 'cb timer_service \<Rightarrow> 'cb timer_service" where
  "cascaded c L st = st\<lparr>
     time_slot := (\<lambda>r. time_slot st r @ filter (\<lambda>timer. target c (tm_of st timer) = r) L),
     timers := (\<lambda>timer. if timer \<in> set L
       then map_option (\<lambda>t. t\<lparr>ts_slot := Some (target c (ts_tm t))\<rparr>) (timers st timer)
       else timers st timer)\<rparr>"

lemma fold_DoAdd: "fold (DoAdd c) L st = cascaded c L st"
proof (induction L arbitrary: st)
  case Nil
  then show ?case by (simp add: cascaded_def)
next
  case (Cons x L)
  have "fold (DoAdd c) (x # L) st = cascaded c L (DoAdd c x st)" by (simp add: Cons.IH)
  also have "\<dots> = cascaded c (x # L) st"
  proof (rule timer_service.equality)
    show "time_slot (cascaded c L (DoAdd c x st)) = time_slot (cascaded c (x # L) st)"
      unfolding DoAdd_target by (simp add: cascaded_def fun_eq_iff)
    show "timers (cascaded c L (DoAdd c x st)) = timers (cascaded c (x # L) st)"
      unfolding DoAdd_target
      by (auto simp: cascaded_def tm_of_def fun_eq_iff option.map_comp o_def split: option.splits)
  qed (simp_all add: cascaded_def DoAdd_target)
  finally show ?case .
qed

lemma TickSection2_loop_fold:
  assumes "\<And>timer. timer \<in> set (drop k (time_slot st r)) \<Longrightarrow> target c (tm_of st timer) \<noteq> r"
  shows "TickSection2_loop c r k st = Some (fold (DoAdd c) (drop k (time_slot st r)) st)"
  using assms
proof (induction "length (time_slot st r) - k" arbitrary: k st)
  case 0
  then show ?case by (subst TickSection2_loop.simps) simp
next
  case (Suc n)
  let ?L = "time_slot st r"
  have k: "k < length ?L" using Suc.hyps(2) by simp
  let ?x = "?L ! k" and ?st = "DoAdd c (?L ! k) st"
  have "?x \<in> set (drop k ?L)" using k by (metis Cons_nth_drop_Suc list.set_intros(1))
  then have same: "time_slot ?st r = ?L"
    using Suc.prems [OF \<open>?x \<in> set (drop k ?L)\<close>] by (auto simp: DoAdd_target push_back_timer_def)
  have "TickSection2_loop c r (Suc k) ?st = Some (fold (DoAdd c) (drop (Suc k) (time_slot ?st r)) ?st)"
  proof (rule Suc.hyps(1))
    show "n = length (time_slot ?st r) - Suc k" using Suc.hyps(2) same by simp
    fix timer assume "timer \<in> set (drop (Suc k) (time_slot ?st r))"
    then have "timer \<in> set (drop k ?L)"
      using same k by (metis Cons_nth_drop_Suc list.set_intros(2))
    then show "target c (tm_of ?st timer) \<noteq> r"
      using Suc.prems by (simp add: DoAdd_target)
  qed
  then show ?case
    using k same by (subst TickSection2_loop.simps) (simp flip: Cons_nth_drop_Suc)
qed

lemma tm_of_Some: "timers st timer = Some t \<Longrightarrow> tm_of st timer = ts_tm t"
  by (simp add: tm_of_def)

lemma TickSection2_eq:
  assumes inv: "wheel_inv c st" and low: "low s c = 0"
  defines "r \<equiv> Section2 s (unat (GetSection2Index c s))"
  shows "TickSection2 c s st =
    Some (GetSection2Index c s = 0, clear_list r (cascaded c (time_slot st r) st))"
    and "\<forall>timer \<in> set (time_slot st r). target c (tm_of st timer) \<noteq> r"
proof -
  show moved: "\<forall>timer \<in> set (time_slot st r). target c (tm_of st timer) \<noteq> r"
  proof (intro ballI notI)
    fix timer assume timer: "timer \<in> set (time_slot st r)"
    obtain t where t: "timers st timer = Some t" "ts_slot t = Some r"
      using timer wheel_invD(2) [OF inv] by blast
    then have home: "home_ok c r (ts_tm t)" using wheel_invD(3) [OF inv] by fastforce
    have "dist c (ts_tm t) = low s (ts_tm t)"
      using cascade_due [OF home [unfolded r_def] low] by simp
    moreover assume "target c (tm_of st timer) = r"
    then have "low s (ts_tm t) < dist c (ts_tm t)"
      using t by (intro target_strict) (simp add: tm_of_Some r_def)
    ultimately show False by simp
  qed
  show "TickSection2 c s st =
    Some (GetSection2Index c s = 0, clear_list r (cascaded c (time_slot st r) st))"
    using TickSection2_loop_fold [of 0 st r c] moved
    by (simp add: TickSection2_def Let_def fold_DoAdd flip: r_def)
qed

lemma cascaded_clear_fields:
  assumes inv: "wheel_inv c st"
    and moved: "\<forall>timer \<in> set (time_slot st r). target c (tm_of st timer) \<noteq> r"
  defines "st' \<equiv> clear_list r (cascaded c (time_slot st r) st)"
  shows "time_slot st' r' = (if r' = r then []
      else time_slot st r' @ filter (\<lambda>timer. target c (tm_of st timer) = r') (time_slot st r))"
    and "timers st' timer = (if timer \<in> set (time_slot st r)
      then map_option (\<lambda>t. t\<lparr>ts_slot := Some (target c (ts_tm t))\<rparr>) (timers st timer)
      else timers st timer)"
    and "next_timer st' = next_timer st" "cur_time st' = cur_time st" "called st' = called st"
    and "pending st' = pending st"
proof -
  show slots: "time_slot st' r' = (if r' = r then []
      else time_slot st r' @ filter (\<lambda>timer. target c (tm_of st timer) = r') (time_slot st r))"
    by (simp add: st'_def clear_list_def cascaded_def)
  have mem: "timer \<in> set (time_slot (cascaded c (time_slot st r) st) r) \<longleftrightarrow> timer \<in> set (time_slot st r)"
    for timer using moved by (auto simp: cascaded_def)
  have ts: "timers st' timer = (if timer \<in> set (time_slot st r)
      then map_option (\<lambda>t. t\<lparr>ts_slot := Some (target c (ts_tm t))\<rparr>) (timers st timer)
      else timers st timer)" for timer
    using moved mem [of timer]
    by (auto simp: st'_def clear_list_def cascaded_def tm_of_Some split: option.splits)
  then show "timers st' timer = (if timer \<in> set (time_slot st r)
      then map_option (\<lambda>t. t\<lparr>ts_slot := Some (target c (ts_tm t))\<rparr>) (timers st timer)
      else timers st timer)" .
  show "pending st' = pending st"
    by (rule ext) (simp add: pending_def ts option.map_comp o_def)
qed (simp_all add: st'_def clear_list_def cascaded_def)

lemma cascaded_clear_inv:
  assumes inv: "wheel_inv c st"
    and moved: "\<forall>timer \<in> set (time_slot st r). target c (tm_of st timer) \<noteq> r"
  shows "wheel_inv c (clear_list r (cascaded c (time_slot st r) st))" (is "wheel_inv c ?st")
proof -
  note F = cascaded_clear_fields [OF inv moved] and D = wheel_invD [OF inv]
  have "distinct (time_slot ?st r')" for r'
  proof (cases "r' = r")
    case False
    have "set (time_slot st r') \<inter> set (time_slot st r) = {}"
      using False D(2) by (auto; metis option.inject)
    then show ?thesis using False D(1) [of r'] D(1) [of r] by (auto simp: F(1))
  qed (simp add: F(1))
  moreover have "timer \<in> set (time_slot ?st r') \<longleftrightarrow>
      (\<exists>t. timers ?st timer = Some t \<and> ts_slot t = Some r')" for timer r'
  proof (cases "timer \<in> set (time_slot st r)")
    case True
    then obtain t where t: "timers st timer = Some t" "ts_slot t = Some r" using D(2) by blast
    show ?thesis
      using True t moved D(2) [of timer r'] by (auto simp: F(1,2) tm_of_Some)
  next
    case False
    then show ?thesis using D(2) [of timer r'] D(2) [of timer r] by (auto simp: F(1,2))
  qed
  moreover have "\<exists>r'. ts_slot t = Some r' \<and> home_ok c r' (ts_tm t)" if "timers ?st timer = Some t" for timer t
    using that D(3) target_home_ok by (auto simp: F(2) split: if_splits)
  moreover have "timer < next_timer ?st" if "timers ?st timer \<noteq> None" for timer
    using that D(4) by (auto simp: F(2,3) split: if_splits)
  ultimately show ?thesis unfolding wheel_inv_def by blast
qed

lemma cascaded_clear_strict:
  assumes inv: "wheel_inv c st"
    and moved: "\<forall>timer \<in> set (time_slot st r). target c (tm_of st timer) \<noteq> r"
    and "strict_sec c s' st"
  shows "strict_sec c s' (clear_list r (cascaded c (time_slot st r) st))"
  unfolding strict_sec_def
proof (intro allI impI, elim conjE)
  fix timer t i
  assume "timers (clear_list r (cascaded c (time_slot st r) st)) timer = Some t"
    "ts_slot t = Some (Section2 s' i)"
  then have "timers st timer = Some t \<or> target c (ts_tm t) = Section2 s' i"
    by (auto simp: cascaded_clear_fields [OF inv moved] split: if_splits)
  then show "low s' (ts_tm t) < dist c (ts_tm t)"
    using assms(3) \<open>ts_slot t = Some (Section2 s' i)\<close> target_strict
    unfolding strict_sec_def by blast
qed

lemma strict_sec_idle:
  assumes "wheel_inv c st" "low s c \<noteq> 0"
  shows "strict_sec c s st"
  unfolding strict_sec_def
proof (intro allI impI, elim conjE)
  fix timer t i
  assume t: "timers st timer = Some t" "ts_slot t = Some (Section2 s i)"
  then have "home_ok c (Section2 s i) (ts_tm t)" using wheel_invD(3) [OF assms(1)] by fastforce
  then have "low s (ts_tm t) \<le> dist c (ts_tm t)" by simp
  moreover have "dist c (ts_tm t) \<noteq> low s (ts_tm t)" 
    using due_cascades(1) [of c "ts_tm t" s] assms(2) by metis
  ultimately show "low s (ts_tm t) < dist c (ts_tm t)" by linarith
qed

lemma TickSection2_correct:
  assumes inv: "wheel_inv c st" and low: "low s c = 0"
  obtains st' where "TickSection2 c s st = Some (GetSection2Index c s = 0, st')"
    "wheel_inv c st'" "pending st' = pending st" "strict_sec c s st'"
    "\<forall>s'. strict_sec c s' st \<longrightarrow> strict_sec c s' st'"
    "next_timer st' = next_timer st" "cur_time st' = cur_time st" "called st' = called st"
proof -
  let ?r = "Section2 s (unat (GetSection2Index c s))"
  let ?st = "clear_list ?r (cascaded c (time_slot st ?r) st)"
  note E = TickSection2_eq [OF inv low]
  note F = cascaded_clear_fields [OF inv E(2)]
  have "strict_sec c s ?st"
    unfolding strict_sec_def
  proof (intro allI impI, elim conjE)
    fix timer t i
    assume t: "timers ?st timer = Some t" "ts_slot t = Some (Section2 s i)"
    show "low s (ts_tm t) < dist c (ts_tm t)"
    proof (cases "timer \<in> set (time_slot st ?r)")
      case True
      then have "target c (ts_tm t) = Section2 s i" using t by (auto simp: F(2))
      then show ?thesis by (rule target_strict)
    next
      case False
      then have t': "timers st timer = Some t" using t by (simp add: F(2))
      then have home: "home_ok c (Section2 s i) (ts_tm t)"
        using t wheel_invD(3) [OF inv] by fastforce
      have "i \<noteq> unat (GetSection2Index c s)"
        using False t' t(2) wheel_invD(2) [OF inv] by metis
      then have "dist c (ts_tm t) \<noteq> low s (ts_tm t)"
        using home due_cascades(2) [of c "ts_tm t" s] by (metis home_ok.simps(2))
      moreover have "low s (ts_tm t) \<le> dist c (ts_tm t)" using home by simp
      ultimately show ?thesis by linarith
    qed
  qed
  then show thesis
    by (intro that [OF E(1) cascaded_clear_inv [OF inv E(2)]])
       (auto simp: F intro: cascaded_clear_strict [OF inv E(2)])
qed


lemma section1_zero_iff: "c AND kSection1Mask = 0 \<longleftrightarrow> low 0 c = 0"
  by (metis section1_index low_def block_simps(1) unat_eq_0)

lemma Cascade_correct:
  assumes inv: "wheel_inv c st" and low: "low 0 c = 0"
  obtains st' where "Cascade c st = Some st'"
    "wheel_inv c st'" "pending st' = pending st" "\<forall>s<4. strict_sec c s st'"
    "next_timer st' = next_timer st" "cur_time st' = cur_time st" "called st' = called st"
proof -
  obtain s0 where 0: "TickSection2 c 0 st = Some (low 1 c = 0, s0)"
    "wheel_inv c s0" "pending s0 = pending st" "strict_sec c 0 s0"
    "next_timer s0 = next_timer st" "cur_time s0 = cur_time st" "called s0 = called st"
  proof (rule TickSection2_correct [OF inv low])
    have l1: "low 1 c = 0 \<longleftrightarrow> GetSection2Index c 0 = 0"
      using low_Suc_zero_iff [of 0 c] low by simp
    fix st' assume "TickSection2 c 0 st = Some (GetSection2Index c 0 = 0, st')"
      "wheel_inv c st'" "pending st' = pending st" "strict_sec c 0 st'"
      "next_timer st' = next_timer st" "cur_time st' = cur_time st" "called st' = called st"
    then show thesis using that [of st'] unfolding l1 by blast
  qed
  have step: "\<exists>st2. (if low s c = 0 then TickSection2 c s st1 else Some (False, st1)) =
        Some (low s' c = 0, st2) \<and>
      wheel_inv c st2 \<and> pending st2 = pending st1 \<and> strict_sec c s st2 \<and>
      (\<forall>s'. strict_sec c s' st1 \<longrightarrow> strict_sec c s' st2) \<and>
      next_timer st2 = next_timer st1 \<and> cur_time st2 = cur_time st1 \<and> called st2 = called st1"
    if "wheel_inv c st1" "s' = Suc s" for s s' st1
  proof (cases "low s c = 0")
    case True
    show ?thesis
      by (rule TickSection2_correct [OF that(1) True])
         (use True that(2) low_Suc_zero_iff [of s c] in auto)
  next
    case False
    then show ?thesis
      using that strict_sec_idle [OF that(1)] low_Suc_zero_iff [of s c] by simp
  qed
  obtain s1 where 1: "(if low 1 c = 0 then TickSection2 c 1 s0 else Some (False, s0)) = Some (low 2 c = 0, s1)"
    "wheel_inv c s1" "pending s1 = pending s0" "strict_sec c 1 s1" "strict_sec c 0 s1"
    "next_timer s1 = next_timer s0" "cur_time s1 = cur_time s0" "called s1 = called s0"
    using step [OF 0(2), of 2 1] 0(4) by fastforce
  obtain s2 where 2: "(if low 2 c = 0 then TickSection2 c 2 s1 else Some (False, s1)) = Some (low 3 c = 0, s2)"
    "wheel_inv c s2" "pending s2 = pending s1" "strict_sec c 2 s2" "strict_sec c 1 s2" "strict_sec c 0 s2"
    "next_timer s2 = next_timer s1" "cur_time s2 = cur_time s1" "called s2 = called s1"
    using step [OF 1(2), of 3 2] 1(4,5) by fastforce
  obtain s3 b where 3: "(if low 3 c = 0 then TickSection2 c 3 s2 else Some (False, s2)) = Some (b, s3)"
    "wheel_inv c s3" "pending s3 = pending s2" "strict_sec c 3 s3" "strict_sec c 2 s3" "strict_sec c 1 s3"
    "strict_sec c 0 s3" "next_timer s3 = next_timer s2" "cur_time s3 = cur_time s2" "called s3 = called s2"
    using step [OF 2(2), of 4 3] 2(4,5,6) by fastforce
  have "Cascade c st = Some s3"
    unfolding Cascade_def by (simp only: 0(1) 1(1) 2(1) 3(1) Option.bind.simps prod.case)
  moreover have "\<forall>s<4. strict_sec c s s3"
    using 3(4-7) by (auto simp: less_Suc_eq numeral_eq_Suc)
  ultimately show thesis using that 0 1 2 3 by simp
qed

subsection \<open>Firing\<close>

text \<open>What an update at time \<open>c\<close> leaves pending, and what it is to call.\<close>

definition still_pending :: "u32 \<Rightarrow> (nat \<rightharpoonup> u32 \<times> 'cb) \<Rightarrow> (nat \<rightharpoonup> u32 \<times> 'cb)" where
  "still_pending c p timer = (case p timer of Some (tm, cb) \<Rightarrow> if tm = c then None else Some (tm, cb) | None \<Rightarrow> None)"

definition due_now :: "u32 \<Rightarrow> (nat \<rightharpoonup> u32 \<times> 'cb) \<Rightarrow> nat set" where
  "due_now c p = {timer. \<exists>cb. p timer = Some (c, cb)}"

lemma pending_Some_iff: "pending st timer = Some (tm, cb) \<longleftrightarrow>
    (\<exists>t. timers st timer = Some t \<and> ts_tm t = tm \<and> ts_cb t = cb)"
  by (auto simp: pending_def)

lemma due_list:
  assumes inv: "wheel_inv c st" and strict: "\<forall>s<4. strict_sec c s st"
  shows "set (time_slot st (Section1 (unat (c AND kSection1Mask)))) = due_now c (pending st)"
    (is "set (time_slot st ?r) = _")
proof (intro set_eqI iffI)
  fix timer assume "timer \<in> set (time_slot st ?r)"
  then obtain t where t: "timers st timer = Some t" "ts_slot t = Some ?r"
    using wheel_invD(2) [OF inv] by blast
  then have "home_ok c ?r (ts_tm t)" using wheel_invD(3) [OF inv] by fastforce
  then have "ts_tm t = c" by (rule section1_due) simp
  then show "timer \<in> due_now c (pending st)"
    using t by (auto simp: due_now_def pending_Some_iff)
next
  fix timer assume "timer \<in> due_now c (pending st)"
  then obtain t where t: "timers st timer = Some t" "ts_tm t = c"
    by (auto simp: due_now_def pending_Some_iff)
  obtain r where r: "ts_slot t = Some r" "home_ok c r c"
    using wheel_invD(3) [OF inv t(1)] t(2) by auto
  have z: "dist c c = 0" by (simp add: dist_zero_iff)
  have "r = ?r"
  proof (cases r)
    case (Section1 i)
    then show ?thesis using r by simp
  next
    case (Section2 s i)
    then have "strict_sec c s st" using r strict by simp
    then have "low s c < dist c c"
      using t r(1) Section2 unfolding strict_sec_def by metis
    then show ?thesis using z by simp
  qed
  then show "timer \<in> set (time_slot st ?r)"
    using t r wheel_invD(2) [OF inv] by blast
qed

lemma home_ok_next:
  assumes inv: "wheel_inv c st" and strict: "\<forall>s<4. strict_sec c s st"
    and t: "timers st timer = Some t" "ts_tm t \<noteq> c"
  shows "\<exists>r. ts_slot t = Some r \<and> home_ok (c + 1) r (ts_tm t)"
proof -
  obtain r where r: "ts_slot t = Some r" "home_ok c r (ts_tm t)"
    using wheel_invD(3) [OF inv t(1)] by blast
  have "strict_at c r (ts_tm t)"
  proof (cases r)
    case (Section2 s i)
    then have "strict_sec c s st" using r strict by simp
    then show ?thesis using t r(1) Section2 unfolding strict_sec_def by auto
  qed (use t in simp)
  then show ?thesis using r home_ok_advance by blast
qed

lemma splice_run_correct:
  assumes inv: "wheel_inv c st" and strict: "\<forall>s<4. strict_sec c s st"
  defines "L \<equiv> time_slot st (Section1 (unat (c AND kSection1Mask)))"
  defines "st' \<equiv> RunCallbacks L (snd (SpliceSection1 (c AND kSection1Mask) st))"
  shows "wheel_inv (c + 1) st'" "pending st' = still_pending c (pending st)"
    "called st' = called st @ map (\<lambda>timer. snd (the (pending st timer))) L"
    "next_timer st' = next_timer st" "cur_time st' = cur_time st"
proof -
  note D = wheel_invD [OF inv]
  have L: "set L = due_now c (pending st)" unfolding L_def by (rule due_list [OF inv strict])
  have slots: "time_slot st' = (time_slot st)(Section1 (unat (c AND kSection1Mask)) := [])"
    by (simp add: st'_def RunCallbacks_def SpliceSection1_def L_def Let_def)
  have ts: "timers st' timer = (if timer \<in> set L then None else timers st timer)" for timer
    by (simp add: st'_def RunCallbacks_def SpliceSection1_def L_def Let_def)
  show nt: "next_timer st' = next_timer st" and "cur_time st' = cur_time st"
    by (simp_all add: st'_def RunCallbacks_def SpliceSection1_def L_def Let_def)
  show "pending st' = still_pending c (pending st)"
    unfolding fun_eq_iff pending_def ts L still_pending_def
    by (auto simp: due_now_def pending_def split: option.splits)
  have "List.map_filter (\<lambda>timer. if timer \<in> set L then map_option (\<lambda>t. t\<lparr>ts_slot := None\<rparr>) (timers st timer)
          else timers st timer) xs = map (\<lambda>timer. (the (timers st timer))\<lparr>ts_slot := None\<rparr>) xs"
    if "set xs \<subseteq> set L" for xs
    using that
  proof (induction xs)
    case (Cons x xs)
    then have "timers st x \<noteq> None" unfolding L by (auto simp: due_now_def pending_Some_iff)
    with Cons show ?case by (auto simp: List.map_filter_simps)
  qed (simp add: List.map_filter_simps)
  then have "called st' = called st @ map ts_cb (map (\<lambda>timer. (the (timers st timer))\<lparr>ts_slot := None\<rparr>) L)"
    by (simp add: st'_def RunCallbacks_def SpliceSection1_def Let_def flip: L_def)
  also have "\<dots> = called st @ map (\<lambda>timer. snd (the (pending st timer))) L"
    using L by (auto simp: pending_def due_now_def)
  finally show "called st' = called st @ map (\<lambda>timer. snd (the (pending st timer))) L" .
  have "timers st timer = Some t \<Longrightarrow> timer \<notin> set L \<Longrightarrow> ts_tm t \<noteq> c" for timer t
    unfolding L by (auto simp: due_now_def pending_Some_iff)
  then have homes: "timers st' timer = Some t \<Longrightarrow> \<exists>r. ts_slot t = Some r \<and> home_ok (c + 1) r (ts_tm t)" for timer t
    using home_ok_next [OF inv strict] by (auto simp: ts split: if_splits)
  have mem: "timer \<in> set (time_slot st' r) \<longleftrightarrow> (\<exists>t. timers st' timer = Some t \<and> ts_slot t = Some r)" for timer r
    using D(2) [of timer r] D(2) [of timer "Section1 (unat (c AND kSection1Mask))"]
    unfolding slots ts L_def by auto
  have "distinct (time_slot st' r)" for r using D(1) by (simp add: slots)
  moreover have "timer < next_timer st'" if "timers st' timer \<noteq> None" for timer
    using that D(4) by (auto simp: ts nt split: if_splits)
  ultimately show "wheel_inv (c + 1) st'"
    unfolding wheel_inv_def using homes mem by blast
qed

lemma Update_correct:
  assumes inv: "wheel_inv c st"
  obtains st' L where "Update c st = Some st'" "wheel_inv (c + 1) st'"
    "pending st' = still_pending c (pending st)"
    "distinct L" "set L = due_now c (pending st)"
    "called st' = called st @ map (\<lambda>timer. snd (the (pending st timer))) L"
    "next_timer st' = next_timer st" "cur_time st' = cur_time st"
proof -
  obtain st1 where 1: "(if c AND kSection1Mask = 0 then Cascade c st else Some st) = Some st1"
    "wheel_inv c st1" "pending st1 = pending st" "\<forall>s<4. strict_sec c s st1"
    "next_timer st1 = next_timer st" "cur_time st1 = cur_time st" "called st1 = called st"
  proof (cases "low 0 c = 0")
    case True
    then have z: "c AND kSection1Mask = 0" by (simp only: section1_zero_iff)
    from inv True obtain st' where "Cascade c st = Some st'"
      "wheel_inv c st'" "pending st' = pending st" "\<forall>s<4. strict_sec c s st'"
      "next_timer st' = next_timer st" "cur_time st' = cur_time st" "called st' = called st"
      by (rule Cascade_correct)
    then show thesis using that [of st'] unfolding z by simp
  next
    case False
    then have "strict_sec c s st" for s
      using strict_sec_idle [OF inv] low_zero_le [of 0 s c] by (metis le0)
    moreover have "c AND kSection1Mask \<noteq> 0" using False by (simp only: section1_zero_iff not_False_eq_True)
    ultimately show thesis using that [of st] inv by simp
  qed
  let ?L = "time_slot st1 (Section1 (unat (c AND kSection1Mask)))"
  note S = splice_run_correct [OF 1(2,4)]
  have "Update c st = Some (RunCallbacks ?L (snd (SpliceSection1 (c AND kSection1Mask) st1)))"
    by (simp add: Update_def Let_def 1(1) SpliceSection1_def)
  then show thesis
    by (rule that) (use S 1 due_list [OF 1(2,4)] wheel_invD(1) [OF 1(2)] in simp_all)
qed

subsection \<open>Runs\<close>

lemma wheel_inv_cur_time [simp]: "wheel_inv c (st\<lparr>cur_time := t\<rparr>) = wheel_inv c st"
  by (simp add: wheel_inv_def)

lemma pending_cur_time [simp]: "pending (st\<lparr>cur_time := t\<rparr>) = pending st"
  by (simp add: pending_def fun_eq_iff)

lemma Tick_correct:
  assumes inv: "wheel_inv (cur_time st) st"
  obtains st' L where "Tick st = Some st'" "wheel_inv (cur_time st') st'"
    "cur_time st' = cur_time st + 1"
    "pending st' = still_pending (cur_time st) (pending st)"
    "distinct L" "set L = due_now (cur_time st) (pending st)"
    "called st' = called st @ map (\<lambda>timer. snd (the (pending st timer))) L"
proof -
  have "wheel_inv (cur_time st) (st\<lparr>cur_time := cur_time st + 1\<rparr>)" using inv by simp
  then obtain st' L where "Update (cur_time st) (st\<lparr>cur_time := cur_time st + 1\<rparr>) = Some st'"
    "wheel_inv (cur_time st + 1) st'"
    "pending st' = still_pending (cur_time st) (pending (st\<lparr>cur_time := cur_time st + 1\<rparr>))"
    "distinct L" "set L = due_now (cur_time st) (pending (st\<lparr>cur_time := cur_time st + 1\<rparr>))"
    "called st' = called (st\<lparr>cur_time := cur_time st + 1\<rparr>) @
       map (\<lambda>timer. snd (the (pending (st\<lparr>cur_time := cur_time st + 1\<rparr>) timer))) L"
    "next_timer st' = next_timer (st\<lparr>cur_time := cur_time st + 1\<rparr>)"
    "cur_time st' = cur_time (st\<lparr>cur_time := cur_time st + 1\<rparr>)"
    by (rule Update_correct)
  then show thesis using that [of st' L] by (simp add: Tick_def)
qed

lemma Ticks_total:
  assumes "wheel_inv (cur_time st) st"
  shows "\<exists>st'. Ticks n st = Some st' \<and> wheel_inv (cur_time st') st' \<and> cur_time st' = cur_time st + of_nat n"
  using assms
proof (induction n arbitrary: st)
  case (Suc n)
  from Suc.prems obtain st1 L where "Tick st = Some st1" "wheel_inv (cur_time st1) st1"
    "cur_time st1 = cur_time st + 1" "pending st1 = still_pending (cur_time st) (pending st)"
    "distinct L" "set L = due_now (cur_time st) (pending st)"
    "called st1 = called st @ map (\<lambda>timer. snd (the (pending st timer))) L"
    by (rule Tick_correct)
  then show ?case using Suc.IH [of st1] by (auto simp: algebra_simps)
qed simp

text \<open>The timers due within the next \<open>n\<close> ticks after \<open>c\<close>.\<close>

definition due_within :: "nat \<Rightarrow> u32 \<Rightarrow> (nat \<rightharpoonup> u32 \<times> 'cb) \<Rightarrow> nat set" where
  "due_within n c p = {timer. \<exists>tm cb. p timer = Some (tm, cb) \<and> dist c tm < n}"

lemma due_within_Suc:
  "due_within (Suc n) c p = due_now c p \<union> due_within n (c + 1) (still_pending c p)"
  (is "?l = ?r")
proof (intro set_eqI)
  fix timer
  show "timer \<in> ?l \<longleftrightarrow> timer \<in> ?r"
  proof (cases "p timer")
    case (Some q)
    obtain tm cb where q: "q = (tm, cb)" by fastforce
    show ?thesis
    proof (cases "tm = c")
      case True
      then have "dist c tm = 0" by (simp add: dist_zero_iff)
      then show ?thesis using True Some q by (auto simp: due_within_def due_now_def)
    next
      case False
      then have "dist c tm \<noteq> 0" by (simp add: dist_zero_iff)
      then have "dist (c + 1) tm < n \<longleftrightarrow> dist c tm < Suc n" using dist_Suc by auto
      then show ?thesis
        using False Some q by (auto simp: due_within_def due_now_def still_pending_def)
    qed
  qed (auto simp: due_within_def due_now_def still_pending_def)
qed

lemma due_now_not_later: "due_now c p \<inter> due_within n c' (still_pending c p) = {}"
  by (auto simp: due_now_def due_within_def still_pending_def)

lemma restrict_still_pending:
  "(still_pending c p) |` (- A) = p |` (- (due_now c p \<union> A))"
  by (rule ext) (auto simp: restrict_map_def still_pending_def due_now_def split: option.splits)

lemma Ticks_fire:
  assumes "wheel_inv (cur_time st) st"
  shows "\<exists>st' L. Ticks n st = Some st' \<and> distinct L \<and>
    set L = due_within n (cur_time st) (pending st) \<and>
    sorted (map (\<lambda>timer. dist (cur_time st) (fst (the (pending st timer)))) L) \<and>
    called st' = called st @ map (\<lambda>timer. snd (the (pending st timer))) L \<and>
    pending st' = pending st |` (- set L)"
  using assms
proof (induction n arbitrary: st)
  case 0
  then show ?case by (auto simp: due_within_def)
next
  case (Suc n)
  from Suc.prems obtain st1 L1 where 1: "Tick st = Some st1" "wheel_inv (cur_time st1) st1"
    "cur_time st1 = cur_time st + 1" "pending st1 = still_pending (cur_time st) (pending st)"
    "distinct L1" "set L1 = due_now (cur_time st) (pending st)"
    "called st1 = called st @ map (\<lambda>timer. snd (the (pending st timer))) L1"
    by (rule Tick_correct)
  from Suc.IH [OF 1(2)] obtain st2 L2 where 2: "Ticks n st1 = Some st2" "distinct L2"
    "set L2 = due_within n (cur_time st + 1) (still_pending (cur_time st) (pending st))"
    "sorted (map (\<lambda>timer. dist (cur_time st + 1) (fst (the (pending st1 timer)))) L2)"
    "called st2 = called st1 @ map (\<lambda>timer. snd (the (pending st1 timer))) L2"
    "pending st2 = pending st1 |` (- set L2)"
    by (auto simp: 1(3,4))
  have same: "pending st1 timer = pending st timer" "dist (cur_time st) (fst (the (pending st timer))) =
      Suc (dist (cur_time st + 1) (fst (the (pending st1 timer))))" if mem: "timer \<in> set L2" for timer
  proof -
    obtain tm cb where p: "pending st timer = Some (tm, cb)" "tm \<noteq> cur_time st"
      using mem unfolding 2(3) by (auto simp: due_within_def still_pending_def split: option.splits if_splits)
    then show s: "pending st1 timer = pending st timer" by (simp add: 1(4) still_pending_def)
    have "dist (cur_time st) tm \<noteq> 0" using p by (simp add: dist_zero_iff)
    then show "dist (cur_time st) (fst (the (pending st timer))) =
      Suc (dist (cur_time st + 1) (fst (the (pending st1 timer))))"
      using p s dist_Suc by simp
  qed
  let ?L = "L1 @ L2"
  have "map (\<lambda>timer. dist (cur_time st) (fst (the (pending st timer)))) L1 = map (\<lambda>_. 0) L1"
    using 1(6) by (auto simp: due_now_def dist_zero_iff)
  then have "map (\<lambda>timer. dist (cur_time st) (fst (the (pending st timer)))) L1 = replicate (length L1) 0"
    by (simp only: map_replicate_const)
  moreover have "map (\<lambda>timer. dist (cur_time st) (fst (the (pending st timer)))) L2 =
      map Suc (map (\<lambda>timer. dist (cur_time st + 1) (fst (the (pending st1 timer)))) L2)"
    using same by simp
  moreover have "sorted (map Suc xs) \<longleftrightarrow> sorted xs" for xs
    by (simp add: sorted_wrt_map)
  ultimately have srt: "sorted (map (\<lambda>timer. dist (cur_time st) (fst (the (pending st timer)))) ?L)"
    using 2(4) by (simp only: map_append sorted_append) auto
  have call: "called st2 = called st @ map (\<lambda>timer. snd (the (pending st timer))) ?L"
    using 1(7) 2(5) same by simp
  have sets: "set ?L = due_within (Suc n) (cur_time st) (pending st)"
    using 1(6) 2(3) by (simp add: due_within_Suc)
  have dst: "distinct ?L"
    using 1(5,6) 2(2,3) due_now_not_later [of "cur_time st" "pending st"] by simp
  have pend: "pending st2 = pending st |` (- set ?L)"
    using 1(6) unfolding 2(6) 1(4) by (simp add: restrict_still_pending)
  have "Ticks (Suc n) st = Some st2" using 1(1) 2(1) by simp
  with srt call sets dst pend show ?case by blast
qed

lemma AddTimer_pending:
  assumes "wheel_inv (cur_time st) st" "(ms + 5) div 10 \<noteq> (0 :: u32)"
  shows "pending (snd (AddTimer ms cb st)) =
      (pending st)(next_timer st \<mapsto> (cur_time st + (ms + 5) div 10, cb))"
    "pending st (next_timer st) = None"
    "cur_time (snd (AddTimer ms cb st)) = cur_time st" "called (snd (AddTimer ms cb st)) = called st"
    "fst (AddTimer ms cb st) = Some (next_timer st)"
proof -
  have "timers st (next_timer st) = None"
    using wheel_invD(4) [OF assms(1), of "next_timer st"] by (metis less_irrefl)
  then show "pending st (next_timer st) = None" by (simp add: pending_def)
qed (use assms(2) in \<open>simp_all add: AddTimer_cases(2) pending_def fun_eq_iff\<close>)


lemma Run_loop_total:
  assumes "wheel_inv (cur_time st) st" "sorted (Start # clock)"
  shows "\<exists>st'. Run_loop Start clock st =
      Some (Start + (last (Start # clock) - Start) div period_ns * period_ns, st') \<and>
    wheel_inv (cur_time st') st' \<and>
    cur_time st' = cur_time st + of_nat ((last (Start # clock) - Start) div period_ns)"
  using assms
proof (induction clock arbitrary: Start st)
  case Nil
  then show ?case by simp
next
  case (Cons now clock)
  define k where "k = (now - Start) div period_ns"
  obtain st1 where st1: "Ticks k st = Some st1" "wheel_inv (cur_time st1) st1"
    "cur_time st1 = cur_time st + of_nat k"
    using Ticks_total [OF Cons.prems(1), of k] by blast
  let ?Start = "Start + k * period_ns"
  have ord: "Start \<le> now" "\<forall>x \<in> set clock. now \<le> x" "sorted clock" using Cons.prems(2) by auto
  have le: "?Start \<le> now"
  proof -
    have "k * period_ns \<le> now - Start" by (simp add: k_def)
    then show ?thesis using ord(1) by linarith
  qed
  then have srt: "sorted (?Start # clock)" using ord by fastforce
  let ?l = "last (?Start # clock)" and ?l' = "last (now # clock)"
  have l: "(if clock = [] then 0 else (?l - ?Start) div period_ns) = (?l' - ?Start) div period_ns \<and>
      (?l' - Start) div period_ns = k + (?l' - ?Start) div period_ns"
  proof -
    have "now \<le> ?l'" using ord(2) by (cases clock rule: rev_cases) auto
    then have "?l' - Start = (?l' - ?Start) + k * period_ns" using le by linarith
    then have "(?l' - Start) div period_ns = k + (?l' - ?Start) div period_ns"
      by (simp add: period_ns_def kPeriod_def)
    moreover have "(now - ?Start) div period_ns = 0"
    proof -
      have "now - ?Start = (now - Start) - (now - Start) div period_ns * period_ns" by (simp add: k_def)
      also have "\<dots> = (now - Start) mod period_ns" by (simp only: minus_div_mult_eq_mod)
      finally show ?thesis by (simp add: period_ns_def kPeriod_def)
    qed
    ultimately show ?thesis by simp
  qed
  obtain st2 where st2: "Run_loop ?Start clock st1 = Some (?Start + (?l - ?Start) div period_ns * period_ns, st2)"
    "wheel_inv (cur_time st2) st2" "cur_time st2 = cur_time st1 + of_nat ((?l - ?Start) div period_ns)"
    using Cons.IH [OF st1(2) srt] by blast
  have e: "(?l - ?Start) div period_ns = (?l' - ?Start) div period_ns" using l by (cases "clock = []") auto
  have l2: "(?l' - Start) div period_ns = k + (?l - ?Start) div period_ns" using l unfolding e by blast
  have "Run_loop Start (now # clock) st = Run_loop ?Start clock st1"
    using st1(1) by (simp add: k_def)
  also have "\<dots> = Some (Start + (?l' - Start) div period_ns * period_ns, st2)"
    unfolding st2(1) l2 by (simp only: add_mult_distrib add.assoc)
  finally have "Run_loop Start (now # clock) st = Some (Start + (?l' - Start) div period_ns * period_ns, st2)" .
  moreover have "cur_time st2 = cur_time st + of_nat ((?l' - Start) div period_ns)"
    unfolding st2(3) st1(3) l2 by (simp only: of_nat_add add.assoc)
  moreover have "last (Start # now # clock) = ?l'" by simp
  ultimately show ?case using st2(2) by metis
qed

subsection \<open>A timer added between the clock step and the update\<close>

lemma AddTimer_before_Update_fires_early:
  assumes "c AND kSection1Mask \<noteq> 0" "cur_time st = c + 1"
  shows "\<exists>st2. Update c (snd (AddTimer 2550 cb st)) = Some st2 \<and>
     cb \<in> set (drop (length (called st)) (called st2))"
proof -
  let ?tm = "c + 256" and ?timer = "next_timer st"
  have "unat (?tm AND kSection1Mask) = unat (c AND kSection1Mask)"
    by (simp add: section1_index unat_word_ariths mod_mod_cancel)
  then have "target (c + 1) ?tm = Section1 (unat (c AND kSection1Mask))"
    by (simp add: target_def dist_def)
  moreover have q: "(2550 + 5) div 10 = (255 :: u32)" by simp
  moreover have tm: "c + 1 + 255 = ?tm" by simp
  moreover have "(2550 + 5) div 10 \<noteq> (0 :: u32)" unfolding q by simp
  ultimately have add: "snd (AddTimer 2550 cb st) =
      push_back_timer (Section1 (unat (c AND kSection1Mask))) ?timer
        (st\<lparr>next_timer := Suc ?timer,
            timers := (timers st)(?timer \<mapsto> \<lparr>ts_tm = ?tm, ts_cb = cb, ts_slot = None\<rparr>)\<rparr>)"
    (is "_ = ?st1") using AddTimer_cases(2) [of 2550 cb st] by (simp only: assms(2) snd_conv not_False_eq_True)
  let ?r = "Section1 (unat (c AND kSection1Mask))"
  have "Update c ?st1 = Some (RunCallbacks (time_slot ?st1 ?r) (snd (SpliceSection1 (c AND kSection1Mask) ?st1)))"
    using assms(1) by (simp add: Update_def Let_def SpliceSection1_def)
  moreover have "cb \<in> set (drop (length (called st)) (called
      (RunCallbacks (time_slot ?st1 ?r) (snd (SpliceSection1 (c AND kSection1Mask) ?st1)))))"
    by (simp add: RunCallbacks_def SpliceSection1_def Let_def List.map_filter_def)
  ultimately show ?thesis unfolding add by blast
qed

subsection \<open>Milliseconds\<close>

text \<open>The product is taken in 32 bits before it is widened.\<close>

lemma ToMilliseconds_wraps: "unat (ToMilliseconds tm) = 10 * unat tm mod 2 ^ 32"
  by (simp add: ToMilliseconds_def kPeriod_def unat_word_ariths unat_ucast_up mult.commute)

end
