(* ===== verification/Timer_Properties.thy ===== *)
theory Timer_Properties
  imports Timer_Service
begin

text \<open>
  What clients of the timer service rely on.  The locale \<open>timer_facility\<close> states the contract on
  abstract states (a clock, the live timers with their due times and callbacks, the log of calls);
  the wheel of \<open>Timer_Service\<close> is its interpretation.  The properties are stated for the states that
  calls of the service reach from its constructor.
\<close>

section \<open>The contract\<close>

locale timer_facility =
  fixes ok :: "'st \<Rightarrow> bool"
    and now :: "'st \<Rightarrow> u32"
    and live :: "'st \<Rightarrow> nat \<rightharpoonup> u32 \<times> 'cb"
    and log :: "'st \<Rightarrow> 'cb list"
    and add :: "u32 \<Rightarrow> 'cb \<Rightarrow> 'st \<Rightarrow> nat option \<times> 'st"
    and del :: "nat option \<Rightarrow> 'st \<Rightarrow> bool \<times> 'st"
    and advance :: "nat \<Rightarrow> 'st \<Rightarrow> 'st option"
  assumes add_ok: "ok st \<Longrightarrow> ok (snd (add ms cb st))"
    and add_live: "ok st \<Longrightarrow> (ms + 5) div 10 \<noteq> 0 \<Longrightarrow>
      \<exists>h. fst (add ms cb st) = Some h \<and> live st h = None \<and>
          live (snd (add ms cb st)) = (live st)(h \<mapsto> (now st + (ms + 5) div 10, cb)) \<and>
          now (snd (add ms cb st)) = now st \<and> log (snd (add ms cb st)) = log st"
    and del_ok: "ok st \<Longrightarrow> ok (snd (del hnd st))"
    and del_live: "ok st \<Longrightarrow>
      live (snd (del (Some h) st)) = (live st)(h := None) \<and> now (snd (del (Some h) st)) = now st \<and>
      log (snd (del (Some h) st)) = log st \<and> (fst (del (Some h) st) \<longleftrightarrow> live st h \<noteq> None)"
    and advance_fires: "ok st \<Longrightarrow>
      \<exists>st' L. advance n st = Some st' \<and> ok st' \<and> now st' = now st + of_nat n \<and> distinct L \<and>
        set L = {h. \<exists>tm cb. live st h = Some (tm, cb) \<and> unat (tm - now st) < n} \<and>
        sorted (map (\<lambda>h. unat (fst (the (live st h)) - now st)) L) \<and>
        log st' = log st @ map (\<lambda>h. snd (the (live st h))) L \<and> live st' = live st |` (- set L)"
begin

text \<open>A new timer fires after exactly its number of periods, once.\<close>

lemma added_fires:
  assumes "ok st" "(ms + 5) div 10 \<noteq> 0" "add ms cb st = (h, st1)"
  shows "\<exists>timer st2 L. h = Some timer \<and> advance n st1 = Some st2 \<and>
    log st2 = log st @ map (\<lambda>x. snd (the (live st1 x))) L \<and> distinct L \<and>
    (timer \<in> set L \<longleftrightarrow> unat ((ms + 5) div 10) < n) \<and> snd (the (live st1 timer)) = cb \<and>
    (live st2 timer = None \<longleftrightarrow> unat ((ms + 5) div 10) < n)"
proof -
  obtain timer where t: "h = Some timer" "live st1 = (live st)(timer \<mapsto> (now st + (ms + 5) div 10, cb))"
    "now st1 = now st" "log st1 = log st" "ok st1"
    using add_live [OF assms(1,2), of cb] add_ok [OF assms(1), of ms cb] assms(3) by auto
  from advance_fires [OF t(5), of n] obtain st2 L where L: "advance n st1 = Some st2" "distinct L"
    "set L = {h. \<exists>tm cb. live st1 h = Some (tm, cb) \<and> unat (tm - now st1) < n}"
    "log st2 = log st1 @ map (\<lambda>h. snd (the (live st1 h))) L" "live st2 = live st1 |` (- set L)" by blast
  have mem: "timer \<in> set L \<longleftrightarrow> unat ((ms + 5) div 10) < n" unfolding L(3) using t by simp
  moreover have "live st2 timer = None \<longleftrightarrow> timer \<in> set L"
    unfolding L(5) by (simp add: restrict_map_def t(2))
  moreover have "snd (the (live st1 timer)) = cb" "log st2 = log st @ map (\<lambda>h. snd (the (live st1 h))) L"
    using t(2,4) L(4) by simp_all
  ultimately show ?thesis using L(1,2) t(1) by (intro exI [of _ timer] exI [of _ st2] exI [of _ L]) simp
qed

text \<open>Deleting a timer that has not fired undoes adding it.\<close>

lemma deleted_is_gone:
  assumes "ok st" "(ms + 5) div 10 \<noteq> 0" "add ms cb st = (h, st1)"
  shows "fst (del h st1) \<and> live (snd (del h st1)) = live st \<and> log (snd (del h st1)) = log st"
proof -
  obtain timer where t: "h = Some timer" "live st1 = (live st)(timer \<mapsto> (now st + (ms + 5) div 10, cb))"
    "live st timer = None" "log st1 = log st" "ok st1"
    using add_live [OF assms(1,2), of cb] add_ok [OF assms(1), of ms cb] assms(3) by auto
  show ?thesis using del_live [OF t(5), of timer] t by auto
qed

end

interpretation wheel: timer_facility "\<lambda>st. wheel_inv (cur_time st) st" cur_time pending called
  AddTimer DeleteTimer Ticks
proof
  fix st :: "'cb timer_service" and ms cb h n
  assume inv: "wheel_inv (cur_time st) st"
  show "wheel_inv (cur_time (snd (AddTimer ms cb st))) (snd (AddTimer ms cb st))"
    using AddTimer_inv [OF inv, of ms cb] AddTimer_pending(3) [OF inv] AddTimer_cases(1) [of ms cb st]
    by (cases "(ms + 5) div 10 = 0") auto
  have del: "cur_time (snd (DeleteTimer h st)) = cur_time st" "called (snd (DeleteTimer h st)) = called st" for h
    by (auto simp: DeleteTimer_def split: option.splits)
  show "wheel_inv (cur_time (snd (DeleteTimer h' st))) (snd (DeleteTimer h' st))" for h'
    using DeleteTimer_inv [OF inv] del by simp
  show "pending (snd (DeleteTimer (Some h) st)) = (pending st)(h := None) \<and>
      cur_time (snd (DeleteTimer (Some h) st)) = cur_time st \<and>
      called (snd (DeleteTimer (Some h) st)) = called st \<and>
      (fst (DeleteTimer (Some h) st) \<longleftrightarrow> pending st h \<noteq> None)"
    using DeleteTimer_pending [OF inv, of "Some h"] del by simp
  show "\<exists>h. fst (AddTimer ms cb st) = Some h \<and> pending st h = None \<and>
      pending (snd (AddTimer ms cb st)) = (pending st)(h \<mapsto> (cur_time st + (ms + 5) div 10, cb)) \<and>
      cur_time (snd (AddTimer ms cb st)) = cur_time st \<and> called (snd (AddTimer ms cb st)) = called st"
    if "(ms + 5) div 10 \<noteq> 0"
    using AddTimer_pending [OF inv that] by auto
  from Ticks_fire [OF inv, of n] obtain st' L where L: "Ticks n st = Some st'" "distinct L"
    "set L = due_within n (cur_time st) (pending st)"
    "sorted (map (\<lambda>timer. dist (cur_time st) (fst (the (pending st timer)))) L)"
    "called st' = called st @ map (\<lambda>timer. snd (the (pending st timer))) L"
    "pending st' = pending st |` (- set L)" by blast
  moreover have "wheel_inv (cur_time st') st' \<and> cur_time st' = cur_time st + of_nat n"
    using Ticks_total [OF inv, of n] L(1) by auto
  ultimately show "\<exists>st' L. Ticks n st = Some st' \<and> wheel_inv (cur_time st') st' \<and>
      cur_time st' = cur_time st + of_nat n \<and> distinct L \<and>
      set L = {h. \<exists>tm cb. pending st h = Some (tm, cb) \<and> unat (tm - cur_time st) < n} \<and>
      sorted (map (\<lambda>h. unat (fst (the (pending st h)) - cur_time st)) L) \<and>
      called st' = called st @ map (\<lambda>h. snd (the (pending st h))) L \<and> pending st' = pending st |` (- set L)"
    unfolding due_within_def dist_def by blast
qed

section \<open>States of the service\<close>

inductive timer_reachable :: "'cb timer_service \<Rightarrow> bool" where
  init: "timer_reachable TimerService"
| add: "timer_reachable st \<Longrightarrow> timer_reachable (snd (AddTimer ms cb st))"
| delete: "timer_reachable st \<Longrightarrow> timer_reachable (snd (DeleteTimer h st))"
| tick: "timer_reachable st \<Longrightarrow> Tick st = Some st' \<Longrightarrow> timer_reachable st'"

lemma timer_reachable_inv: "timer_reachable st \<Longrightarrow> wheel_inv (cur_time st) st"
proof (induction rule: timer_reachable.induct)
  case (tick st st')
  from Tick_correct [OF tick.IH] tick.hyps(2) show ?case by (metis option.inject)
qed (auto intro: wheel.add_ok wheel.del_ok wheel_inv_init)

text \<open>For the witnesses: one timer of 30 ms and one of 10 s.\<close>

definition two_timers :: "nat timer_service" where
  "two_timers = snd (AddTimer 10000 2 (snd (AddTimer 30 1 TimerService)))"

lemma two_timers_reachable: "timer_reachable two_timers"
  unfolding two_timers_def by (intro timer_reachable.intros)

section \<open>Properties\<close>

text \<open>
  C12: the timing wheel keeps time.  In any state the calls of the service can reach, \<open>n\<close> ticks
  complete; they call the callbacks of exactly the live timers whose due time lies within the next
  \<open>n\<close> periods, each of them once and in the order of their due times, and all other timers stay
  live.  (The clock is 32 bits wide; distances are taken modulo \<open>2 ^ 32\<close>.)
\<close>

theorem timers_fire_once_in_order:
  assumes "timer_reachable st"
  shows "\<exists>st' L. Ticks n st = Some st' \<and> distinct L \<and>
    set L = {timer. \<exists>tm cb. pending st timer = Some (tm, cb) \<and> unat (tm - cur_time st) < n} \<and>
    sorted (map (\<lambda>timer. unat (fst (the (pending st timer)) - cur_time st)) L) \<and>
    called st' = called st @ map (\<lambda>timer. snd (the (pending st timer))) L \<and>
    pending st' = pending st |` (- set L)"
  using wheel.advance_fires [OF timer_reachable_inv [OF assms], of n] by blast

theorem timers_fire_once_in_order_witness:
  "\<exists>st' L. Ticks 4 two_timers = Some st' \<and>
     called st' = called two_timers @ map (\<lambda>timer. snd (the (pending two_timers timer))) L"
  using timers_fire_once_in_order [OF two_timers_reachable, of 4] by blast





text \<open>
  C15: the timer thread does not drift.  Whatever the steady clock reads after each sleep, as long as
  it does not run backwards, \<open>Run\<close> has performed one tick for every full period since it started:
  the rest of a period is carried over, never dropped.
\<close>

theorem timer_thread_does_not_drift:
  assumes "timer_reachable st" "sorted (Start # clock)"
  shows "\<exists>st'. Run_loop Start clock st =
      Some (Start + (last (Start # clock) - Start) div period_ns * period_ns, st') \<and>
    cur_time st' = cur_time st + of_nat ((last (Start # clock) - Start) div period_ns)"
  using Run_loop_total [OF timer_reachable_inv [OF assms(1)] assms(2)] by blast

theorem timer_thread_does_not_drift_witness:
  "\<exists>st'. Run_loop 100000000 [109000000, 118000000, 131000000] two_timers = Some (130000000, st')"
  using timer_thread_does_not_drift [OF two_timers_reachable, of 100000000 "[109000000, 118000000, 131000000]"]
  by (auto simp: period_ns_def kPeriod_def)

text \<open>
  C16: a race.  \<open>Run\<close> advances the clock before it takes the lock of \<open>Update\<close>.  A timer of 2550 ms
  that another thread adds in between is filed in the slot \<open>Update\<close> is about to empty and fires at
  once, 256 ticks early (unless the tick is one that cascades).
\<close>

theorem timer_added_during_tick_fires_early:
  assumes "timer_reachable st" "cur_time st AND kSection1Mask \<noteq> 0"
  shows "\<exists>st2. Update (cur_time st) (snd (AddTimer 2550 cb (st\<lparr>cur_time := cur_time st + 1\<rparr>))) = Some st2 \<and>
    cb \<in> set (drop (length (called st)) (called st2))"
  using AddTimer_before_Update_fires_early [OF assms(2), of "st\<lparr>cur_time := cur_time st + 1\<rparr>" cb] by simp

theorem timer_added_during_tick_fires_early_witness:
  "\<exists>st2. Update 1 (snd (AddTimer 2550 (9 :: nat) (TimerService\<lparr>cur_time := 2\<rparr>))) = Some st2 \<and> 9 \<in> set (called st2)"
  using timer_added_during_tick_fires_early [OF timer_reachable.init, of 9]
  by (simp add: TimerService_def wheel_consts)

end
