(* ===== verification/Scheduler.thy ===== *)
theory Scheduler
  imports Service_Event Thread_Safe_Queue
begin

text \<open>
  The scheduler of \<open>System.h\<close> / \<open>System.cpp\<close> over the contexts of \<open>ServiceContext.h\<close>: services
  are coroutines that worker threads take from one run queue, run, and switch away from when they
  wait.  Every section a context's mutex guards is one atomic operation here, and so is every
  operation of the run queue; between two of them any other thread may move.

  A service's stack is not modelled; where it stands (its saved \<open>ucontext\<close>) is the datatype
  \<open>ucontext\<close>, with one value for every place at which a service can leave its thread.
  Worker threads carry the place inside \<open>Wait_Locked\<close> / \<open>Schedule\<close> / \<open>SwitchTo\<close> /
  \<open>OnResume\<close> they have reached as \<open>thread_pc\<close>.  What user code does between two calls of the
  system is left open: it may perform any of its calls in any order.
\<close>

section \<open>The state\<close>

text \<open>
  A service is an idle service of a worker thread or a launched one, named by its handle index.
  The idle services all have the handle index \<open>idle_service_index_\<close>.
\<close>

datatype service = IdleService nat | LaunchedService int

definition idle_service_index :: int where "idle_service_index = 1"

fun handle_index :: "service \<Rightarrow> int" where
  "handle_index (IdleService _) = idle_service_index"
| "handle_index (LaunchedService i) = i"

definition IsIdleService :: "service \<Rightarrow> bool" where
  "IsIdleService s \<longleftrightarrow> handle_index s = idle_service_index"

datatype ServiceStatus = kCreated | kBlocked | kReady | kRunning | kDead

datatype ServiceType = kUserThreadService | kMessageDrivenService

text \<open>
  Where a service stands: about to enter its main function; at the head of the message loop or
  blocked in that loop's wait; in user code (\<open>Main\<close> or \<open>HandleMessage\<close>), or blocked in a wait
  that user code called with an event mask; inside a \<open>Schedule\<close> called directly (the idle loop and
  \<open>Service::Yield\<close>); in the last \<open>Schedule\<close> of its main function.
\<close>

datatype ucontext = AtServiceMain | InLoop | InLoopWait | InUser | InUserWait u32 | InSchedule | Retired

record 'm service_context =
  last_thread_index :: int
  msg_queue :: "'m list"
  wakeup_signal :: bool
  is_swaping_out :: bool
  status :: ServiceStatus
  stopping :: bool
  wait_events :: u32
  events :: u32
  io_events :: u32
  ctx_fd :: int
  blocked_time :: u32
  wakeup_time :: u32
  service_type :: ServiceType
  ucontext :: ucontext
  accepted :: "'m list"
  handled :: "'m list"

text \<open>
  The last two fields record the messages \<open>SendMessage\<close> took and the messages handed to
  \<open>HandleMessage\<close>; no code reads them.
\<close>

definition ServiceContext_Create :: "ServiceType \<Rightarrow> 'm service_context" where
  "ServiceContext_Create ty =
     \<lparr>last_thread_index = -1, msg_queue = [], wakeup_signal = False, is_swaping_out = False,
      status = kCreated, stopping = False, wait_events = kNoneEvent, events = kNoneEvent,
      io_events = 0, ctx_fd = -1, blocked_time = 0, wakeup_time = 0, service_type = ty, ucontext = AtServiceMain,
      accepted = [], handled = []\<rparr>"

text \<open>
  \<open>Running\<close>: the current service's own code runs.  \<open>Scheduling\<close>: entered \<open>Schedule\<close>.
  \<open>Switching s\<close>: \<open>GetReadyService\<close> gave \<open>s\<close>.  \<open>ResumePrev\<close> and \<open>ResumeCur\<close>: after the context
  switch, before the two halves of \<open>OnResume\<close>.  \<open>Recheck\<close>: in \<open>Wait_Locked\<close>, after its
  \<open>Schedule\<close>.  \<open>Stopped\<close>: \<open>ThreadMain\<close> has returned.
\<close>

datatype thread_pc = Running | Scheduling | Switching service | ResumePrev | ResumeCur | Recheck | Stopped

record perthread_data =
  current_service :: service
  prev_service :: "service option"
  pc :: thread_pc
  revents :: u32

text \<open>\<open>revents\<close> is the value the thread's last \<open>Wait\<close> returned.\<close>

record 'm system =
  contexts :: "service \<Rightarrow> 'm service_context"
  services :: "int \<rightharpoonup> service"
  run_queue :: "service thread_safe_queue"
  perthread :: "nat \<Rightarrow> perthread_data"
  worker_num :: nat
  service_index_alloc :: int
  stopped :: bool
  current_time :: u32

abbreviation cur :: "'m system \<Rightarrow> nat \<Rightarrow> service" where
  "cur sys t \<equiv> current_service (perthread sys t)"

abbreviation tpc :: "'m system \<Rightarrow> nat \<Rightarrow> thread_pc" where
  "tpc sys t \<equiv> pc (perthread sys t)"

definition set_context :: "service \<Rightarrow> 'm service_context \<Rightarrow> 'm system \<Rightarrow> 'm system" where
  "set_context s c sys = sys\<lparr>contexts := (contexts sys)(s := c)\<rparr>"

definition set_thread :: "nat \<Rightarrow> perthread_data \<Rightarrow> 'm system \<Rightarrow> 'm system" where
  "set_thread t d sys = sys\<lparr>perthread := (perthread sys)(t := d)\<rparr>"

definition goto :: "nat \<Rightarrow> thread_pc \<Rightarrow> 'm system \<Rightarrow> 'm system" where
  "goto t p sys = set_thread t ((perthread sys t)\<lparr>pc := p\<rparr>) sys"

definition SetServiceStatus :: "service \<Rightarrow> ServiceStatus \<Rightarrow> 'm system \<Rightarrow> 'm system" where
  "SetServiceStatus s st sys = set_context s ((contexts sys s)\<lparr>status := st\<rparr>) sys"

section \<open>The table of services and the run queue\<close>

definition AddService :: "service \<Rightarrow> 'm system \<Rightarrow> 'm system" where
  "AddService s sys =
     (if services sys (handle_index s) = None
      then sys\<lparr>services := (services sys)(handle_index s \<mapsto> s)\<rparr> else sys)"

definition RemoveService :: "int \<Rightarrow> 'm system \<Rightarrow> 'm system" where
  "RemoveService h sys = sys\<lparr>services := (services sys)(h := None)\<rparr>"

definition FindService :: "int \<Rightarrow> 'm system \<Rightarrow> service option" where
  "FindService h sys = services sys h"

text \<open>
  \<open>self\<close> is the calling worker thread, \<open>None\<close> for a thread outside the workers, which has no
  idle service: naming it there dereferences a null pointer (the outer \<open>None\<close>).
\<close>

definition GrabService :: "nat option \<Rightarrow> int \<Rightarrow> 'm system \<Rightarrow> service option option" where
  "GrabService self h sys =
     (if idle_service_index \<noteq> h then Some (FindService h sys)
      else (case self of None \<Rightarrow> None | Some t \<Rightarrow> Some (Some (IdleService t))))"

definition PutReadyService :: "service \<Rightarrow> 'm system \<Rightarrow> 'm system" where
  "PutReadyService s sys =
     (if handle_index s = idle_service_index then sys
      else sys\<lparr>run_queue := tsq_push s (run_queue sys)\<rparr>)"

definition GetReadyService :: "nat \<Rightarrow> 'm system \<Rightarrow> service \<times> 'm system" where
  "GetReadyService t sys =
     (case tsq_pop (run_queue sys) of
        Some (s, q) \<Rightarrow> (s, sys\<lparr>run_queue := q\<rparr>)
      | None \<Rightarrow> (IdleService t, SetServiceStatus (IdleService t) kReady sys))"

definition NeedSchedule :: "'m system \<Rightarrow> bool" where
  "NeedSchedule sys \<longleftrightarrow> \<not> tsq_empty (run_queue sys)"

section \<open>Waking services up\<close>

definition Wakeup_Locked :: "service \<Rightarrow> u32 \<Rightarrow> 'm system \<Rightarrow> bool \<times> 'm system" where
  "Wakeup_Locked s e sys =
     (let c = contexts sys s; c = c\<lparr>events := events c OR e\<rparr>
      in if wait_events c AND e = 0 then (False, set_context s c sys)
         else let c = c\<lparr>wakeup_signal := True\<rparr>
              in if is_swaping_out c then (True, set_context s c sys)
                 else if status c = kBlocked
                 then (True, PutReadyService s (set_context s (c\<lparr>status := kReady\<rparr>) sys))
                 else (True, set_context s c sys))"

definition WakeUp_ptr :: "service \<Rightarrow> u32 \<Rightarrow> 'm system \<Rightarrow> bool \<times> 'm system" where
  "WakeUp_ptr s e sys = Wakeup_Locked s e sys"

definition WakeUp :: "nat option \<Rightarrow> int \<Rightarrow> u32 \<Rightarrow> 'm system \<Rightarrow> (bool \<times> 'm system) option" where
  "WakeUp self h e sys =
     do { srv \<leftarrow> GrabService self h sys;
          Some (case srv of Some s \<Rightarrow> WakeUp_ptr s e sys | None \<Rightarrow> (False, sys)) }"

definition StopService_ptr :: "service \<Rightarrow> 'm system \<Rightarrow> 'm system" where
  "StopService_ptr s sys =
     (let c = contexts sys s
      in if stopping c then sys
         else snd (Wakeup_Locked s kServiceStop (set_context s (c\<lparr>stopping := True\<rparr>) sys)))"

definition StopService :: "nat option \<Rightarrow> int \<Rightarrow> 'm system \<Rightarrow> (bool \<times> 'm system) option" where
  "StopService self h sys =
     do { srv \<leftarrow> GrabService self h sys;
          Some (case srv of Some s \<Rightarrow> (True, StopService_ptr s sys) | None \<Rightarrow> (False, sys)) }"

definition InterruptService :: "nat option \<Rightarrow> int \<Rightarrow> 'm system \<Rightarrow> 'm system option" where
  "InterruptService self h sys =
     do { srv \<leftarrow> GrabService self h sys;
          Some (case srv of
                  None \<Rightarrow> sys
                | Some s \<Rightarrow>
                    (let c = contexts sys s
                     in if status c = kBlocked \<and> wait_events c AND kInterrupt \<noteq> 0
                        then snd (Wakeup_Locked s kInterrupt sys) else sys)) }"

definition Signal :: "nat option \<Rightarrow> int \<Rightarrow> 'm system \<Rightarrow> 'm system option" where
  "Signal self h sys =
     do { srv \<leftarrow> GrabService self h sys;
          Some (case srv of None \<Rightarrow> sys | Some s \<Rightarrow> snd (Wakeup_Locked s kSignal sys)) }"

text \<open>The result is \<open>True\<close> for \<open>Status::OK()\<close>, \<open>False\<close> for \<open>Status(kNotFound)\<close>.\<close>

definition SendMessage :: "nat option \<Rightarrow> int \<Rightarrow> 'm \<Rightarrow> 'm system \<Rightarrow> (bool \<times> 'm system) option" where
  "SendMessage self h msg sys =
     do { srv \<leftarrow> GrabService self h sys;
          Some (case srv of
                  None \<Rightarrow> (False, sys)
                | Some s \<Rightarrow>
                    (let c = contexts sys s
                     in if stopping c \<or> status c = kCreated then (False, sys)
                        else let c = c\<lparr>msg_queue := msg_queue c @ [msg], accepted := accepted c @ [msg]\<rparr>;
                                 sys = set_context s c sys
                             in if wait_events c AND kMessage \<noteq> 0
                                then (True, snd (Wakeup_Locked s kMessage sys)) else (True, sys))) }"

definition OnIOReady :: "service \<Rightarrow> u32 \<Rightarrow> 'm system \<Rightarrow> 'm system" where
  "OnIOReady s ioev sys =
     (let c = contexts sys s
      in if wait_events c AND kIO_Operation \<noteq> 0
         then snd (Wakeup_Locked s kIO_Operation (set_context s (c\<lparr>io_events := ioev\<rparr>) sys))
         else sys)"

definition SetServiceFD :: "service \<Rightarrow> int \<Rightarrow> 'm system \<Rightarrow> 'm system" where
  "SetServiceFD s fd sys = set_context s ((contexts sys s)\<lparr>ctx_fd := fd\<rparr>) sys"

definition GetServiceFD :: "service \<Rightarrow> 'm system \<Rightarrow> int" where
  "GetServiceFD s sys = ctx_fd (contexts sys s)"

text \<open>What \<open>WaitIO\<close> does to the context of its service before it waits.\<close>

definition WaitIO_begin :: "nat \<Rightarrow> int \<Rightarrow> 'm system \<Rightarrow> 'm system" where
  "WaitIO_begin t fd sys =
     (let s = cur sys t
      in SetServiceFD s fd (set_context s ((contexts sys s)\<lparr>io_events := 0\<rparr>) sys))"

section \<open>Launching services\<close>

text \<open>The empty handle is \<open>None\<close>.\<close>

definition LaunchService :: "ServiceType \<Rightarrow> 'm system \<Rightarrow> int option \<times> 'm system" where
  "LaunchService ty sys =
     (if stopped sys then (None, sys)
      else
        let c = (ServiceContext_Create ty)\<lparr>blocked_time := current_time sys, wakeup_time := current_time sys\<rparr>;
            h = service_index_alloc sys + 1;
            s = LaunchedService h;
            sys = AddService s (set_context s c (sys\<lparr>service_index_alloc := h\<rparr>));
            sys = SetServiceStatus s kBlocked sys
        in if ty = kUserThreadService
           then let sys = set_context s ((contexts sys s)\<lparr>wait_events := kServiceStart\<rparr>) sys;
                    (woken, sys) = Wakeup_Locked s kServiceStart sys
                in if woken then (Some h, sys)
                   else (None, RemoveService h (SetServiceStatus s kCreated
                           (set_context s ((contexts sys s)\<lparr>wait_events := 0\<rparr>) sys)))
           else (Some h, set_context s ((contexts sys s)\<lparr>wait_events := kMessage OR kServiceStop\<rparr>) sys))"

section \<open>Waiting and switching\<close>

text \<open>
  \<open>Wait_Locked\<close> up to its \<open>Schedule\<close>, on thread \<open>t\<close>: \<open>Some r\<close> as first result is an immediate
  return of the event mask \<open>r\<close>, \<open>None\<close> means that the service is blocked and the thread goes on
  to schedule.  \<open>at\<close> is where the service stands while it waits.
\<close>

definition Wait_Locked ::
  "nat \<Rightarrow> service \<Rightarrow> u32 \<Rightarrow> ucontext \<Rightarrow> 'm system \<Rightarrow> (u32 option \<times> 'm system) option" where
  "Wait_Locked t s es at sys =
     do { CHECK (cur sys t = s);
          CHECK (status (contexts sys s) = kRunning);
          let c = (contexts sys s)\<lparr>wait_events := 0\<rparr>;
          if stopping c \<and> es AND kServiceStop \<noteq> 0
          then Some (Some kServiceStop, set_context s c sys)
          else if es AND events c \<noteq> 0
          then Some (Some (events c AND es), set_context s (c\<lparr>events := events c AND NOT es\<rparr>) sys)
          else Some (None, goto t Scheduling (set_context s
                 (c\<lparr>status := kBlocked, is_swaping_out := True, wait_events := es, ucontext := at\<rparr>) sys)) }"

definition return_events :: "nat \<Rightarrow> u32 \<Rightarrow> 'm system \<Rightarrow> 'm system" where
  "return_events t r sys = set_thread t ((perthread sys t)\<lparr>pc := Running, revents := r\<rparr>) sys"

text \<open>\<open>System::Wait\<close>, called by the current service's user code.\<close>

definition Wait :: "nat \<Rightarrow> u32 \<Rightarrow> 'm system \<Rightarrow> 'm system option" where
  "Wait t es sys =
     do { (r, sys) \<leftarrow> Wait_Locked t (cur sys t) es (InUserWait es) sys;
          Some (case r of Some r \<Rightarrow> return_events t r sys | None \<Rightarrow> sys) }"

text \<open>\<open>Schedule\<close> called directly: by the idle loop, by \<open>Service::Yield\<close>, at the end of a main function.\<close>

definition Schedule :: "nat \<Rightarrow> ucontext \<Rightarrow> 'm system \<Rightarrow> 'm system" where
  "Schedule t at sys =
     goto t Scheduling (set_context (cur sys t) ((contexts sys (cur sys t))\<lparr>ucontext := at\<rparr>) sys)"

definition Yield :: "nat \<Rightarrow> 'm system \<Rightarrow> 'm system" where
  "Yield t sys = Schedule t InSchedule sys"

text \<open>The first half of \<open>Schedule\<close>: the argument \<open>GetReadyService()\<close>.\<close>

definition Schedule_GetReady :: "nat \<Rightarrow> 'm system \<Rightarrow> 'm system" where
  "Schedule_GetReady t sys = (let (s, sys) = GetReadyService t sys in goto t (Switching s) sys)"

text \<open>
  Going on after \<open>Schedule\<close> returned: the idle loop and \<open>Yield\<close> go back to user code,
  \<open>Wait_Locked\<close> checks that \<open>Schedule\<close> returned \<open>true\<close> and rechecks the events, a main function
  must never get there.
\<close>

definition after_Schedule :: "nat \<Rightarrow> bool \<Rightarrow> 'm system \<Rightarrow> 'm system option" where
  "after_Schedule t res sys =
     (let s = cur sys t; c = contexts sys s
      in case ucontext c of
           InSchedule \<Rightarrow> Some (goto t Running (set_context s (c\<lparr>ucontext := InUser\<rparr>) sys))
         | InLoopWait \<Rightarrow> do { CHECK res; Some (goto t Recheck sys) }
         | InUserWait _ \<Rightarrow> do { CHECK res; Some (goto t Recheck sys) }
         | _ \<Rightarrow> None)"

text \<open>\<open>SwitchTo\<close> up to the context switch.\<close>

definition SwitchTo :: "nat \<Rightarrow> service \<Rightarrow> service \<Rightarrow> 'm system \<Rightarrow> 'm system option" where
  "SwitchTo t cur_srv next_srv sys =
     (if cur_srv = next_srv then after_Schedule t False sys
      else do { CHECK (cur_srv = cur sys t);
                let sys = set_context cur_srv
                      ((contexts sys cur_srv)\<lparr>is_swaping_out := True, blocked_time := current_time sys\<rparr>) sys;
                Some (set_thread t ((perthread sys t)\<lparr>current_service := next_srv,
                        prev_service := Some cur_srv, pc := ResumePrev\<rparr>) sys) })"

text \<open>The two halves of \<open>OnResume\<close>, each under the mutex of the context it works on.\<close>

definition OnResume_prev :: "nat \<Rightarrow> 'm system \<Rightarrow> 'm system option" where
  "OnResume_prev t sys =
     (case prev_service (perthread sys t) of
        None \<Rightarrow> Some (goto t ResumeCur sys)
      | Some p \<Rightarrow>
          do { CHECK (is_swaping_out (contexts sys p));
               let c = (contexts sys p)\<lparr>is_swaping_out := False\<rparr>;
               let sys = goto t ResumeCur (set_context p c sys);
               Some (if \<not> IsIdleService p \<and> wakeup_signal c \<and> status c = kBlocked
                     then PutReadyService p (set_context p (c\<lparr>status := kReady\<rparr>) sys) else sys) })"

definition OnResume_cur :: "nat \<Rightarrow> 'm system \<Rightarrow> 'm system option" where
  "OnResume_cur t sys =
     (let s = cur sys t; c = (contexts sys s)\<lparr>last_thread_index := int t\<rparr>
      in do { CHECK (\<not> is_swaping_out c);
              CHECK (status c = kReady);
              Some (set_context s (c\<lparr>wakeup_signal := False, wait_events := 0, status := kRunning,
                      wakeup_time := current_time sys\<rparr>) sys) })"

text \<open>
  The second half of \<open>OnResume\<close> and what follows it: \<open>prev_service\<close> is reset; a service that was
  at the entry of its main function enters the message loop or its \<open>Main\<close>, any other returns from
  \<open>Schedule\<close>.
\<close>

definition Resume :: "nat \<Rightarrow> 'm system \<Rightarrow> 'm system option" where
  "Resume t sys =
     do { sys \<leftarrow> OnResume_cur t sys;
          let sys = set_thread t ((perthread sys t)\<lparr>prev_service := None\<rparr>) sys;
          let s = cur sys t; let c = contexts sys s;
          if ucontext c = AtServiceMain
          then Some (goto t Running (set_context s
                 (c\<lparr>status := kRunning,
                    ucontext := if service_type c = kUserThreadService then InUser else InLoop\<rparr>) sys))
          else after_Schedule t True sys }"

text \<open>\<open>Wait_Locked\<close> after its \<open>Schedule\<close>: return the events, or block again.\<close>

definition wait_mask :: "ucontext \<Rightarrow> u32" where
  "wait_mask u = (case u of InLoopWait \<Rightarrow> kMessage OR kServiceStop | InUserWait es \<Rightarrow> es | _ \<Rightarrow> 0)"

definition Wait_Recheck :: "nat \<Rightarrow> 'm system \<Rightarrow> 'm system option" where
  "Wait_Recheck t sys =
     (let s = cur sys t; c = contexts sys s; es = wait_mask (ucontext c); r = events c AND es
      in if es AND events c \<noteq> 0
         then do { CHECK (ucontext c = InLoopWait \<longrightarrow> r AND (kMessage OR kServiceStop) \<noteq> 0);
                   Some (return_events t r (set_context s (c\<lparr>events := events c AND NOT es,
                     ucontext := if ucontext c = InLoopWait then InLoop else InUser\<rparr>) sys)) }
         else Some (goto t Scheduling (set_context s
                (c\<lparr>status := kBlocked, is_swaping_out := True, wait_events := es\<rparr>) sys)))"

section \<open>Main functions\<close>

text \<open>One round of the loop of \<open>MessageDrivenServiceMain\<close>, the mutex held.\<close>

definition MessageDrivenServiceMain :: "nat \<Rightarrow> 'm system \<Rightarrow> 'm system option" where
  "MessageDrivenServiceMain t sys =
     (let s = cur sys t; c = contexts sys s
      in case msg_queue c of
           msg # q \<Rightarrow>
             Some (set_context s (c\<lparr>msg_queue := q, handled := handled c @ [msg], ucontext := InUser\<rparr>) sys)
         | [] \<Rightarrow>
             if stopping c
             then do { CHECK (msg_queue c = []);
                       CHECK (stopping c);
                       Some (Schedule t Retired (RemoveService (handle_index s) (SetServiceStatus s kDead sys))) }
             else if \<not> wakeup_signal c
             then do { (r, sys) \<leftarrow> Wait_Locked t s (kMessage OR kServiceStop) InLoopWait sys;
                       (case r of
                          Some r \<Rightarrow> do { CHECK (r AND (kMessage OR kServiceStop) \<noteq> 0);
                                         Some (return_events t r sys) }
                        | None \<Rightarrow> Some sys) }
             else Some (set_context s (c\<lparr>wakeup_signal := False\<rparr>) sys))"

text \<open>\<open>HandleMessage\<close> returns to the loop.\<close>

definition HandleMessage_return :: "nat \<Rightarrow> 'm system \<Rightarrow> 'm system" where
  "HandleMessage_return t sys =
     (let s = cur sys t in set_context s ((contexts sys s)\<lparr>ucontext := InLoop\<rparr>) sys)"

text \<open>
  \<open>UserThreadServiceMain\<close> after \<open>Main\<close> returned.  \<open>msg_queue.empty()\<close> only asks whether the
  queue is empty.  The idle service of a thread jumps back into \<open>ThreadMain\<close>, which resets the
  thread's pointers and returns.
\<close>

definition UserThreadServiceMain_return :: "nat \<Rightarrow> 'm system \<Rightarrow> 'm system" where
  "UserThreadServiceMain_return t sys =
     (let s = cur sys t;
          server_stoped = (handle_index s = idle_service_index);
          sys = SetServiceStatus s kDead (set_context s ((contexts sys s)\<lparr>stopping := True\<rparr>) sys);
          sys = RemoveService (handle_index s) sys
      in if server_stoped
         then goto t Stopped (set_context s ((contexts sys s)\<lparr>ucontext := Retired\<rparr>) sys)
         else Schedule t Retired sys)"

text \<open>
  One round of \<open>IdleService::Main\<close>: schedule, or, once the thread is interrupted and nothing is
  queued, return.  \<open>RebalanceReadyQueue\<close> has an empty body.
\<close>

definition IdleService_Main :: "bool \<Rightarrow> nat \<Rightarrow> 'm system \<Rightarrow> 'm system" where
  "IdleService_Main is_interrupted t sys =
     (if \<not> is_interrupted \<or> NeedSchedule sys then Schedule t InSchedule sys
      else UserThreadServiceMain_return t sys)"

section \<open>Starting and stopping\<close>

text \<open>\<open>ThreadMain\<close> up to the entry of the idle service's main function.\<close>

definition ThreadMain :: "nat \<Rightarrow> 'm system \<Rightarrow> 'm system" where
  "ThreadMain t sys =
     set_thread t \<lparr>current_service = IdleService t, prev_service = None, pc = ResumePrev, revents = 0\<rparr>
       (set_context (IdleService t) ((ServiceContext_Create kUserThreadService)\<lparr>status := kReady\<rparr>) sys)"

definition System_init :: "'m system" where
  "System_init =
     \<lparr>contexts = (\<lambda>_. ServiceContext_Create kUserThreadService), services = Map.empty, run_queue = [],
      perthread = (\<lambda>t. \<lparr>current_service = IdleService t, prev_service = None, pc = Stopped, revents = 0\<rparr>),
      worker_num = 0, service_index_alloc = 16, stopped = True, current_time = 0\<rparr>"

text \<open>\<open>System::Start\<close> up to the built-in services: every worker thread has run \<open>ThreadMain\<close>.\<close>

definition System_Start :: "int \<Rightarrow> 'm system" where
  "System_Start thread_num =
     (let n = nat (if thread_num \<le> 0 then 2 else thread_num)
      in (foldr ThreadMain [0..<n] (System_init\<lparr>worker_num := n\<rparr>))\<lparr>stopped := False\<rparr>)"

text \<open>\<open>StopAllService\<close> on the copy of the table, in the order in which it is walked.\<close>

definition StopAllService :: "service list \<Rightarrow> 'm system \<Rightarrow> 'm system" where
  "StopAllService ss sys =
     fold (\<lambda>s sys. if handle_index s \<noteq> idle_service_index then StopService_ptr s sys else sys) ss sys"

section \<open>The transition system\<close>

text \<open>
  Everything that can happen, one atomic section at a time.  The first group are calls that any
  thread may make (services in user code, the I/O thread, the timer thread, threads outside the
  system), the second group are the moves of worker thread \<open>t\<close>.
\<close>

datatype 'm action =
    CallLaunch ServiceType
  | CallWakeUp "nat option" int u32
  | CallWakeUp_ptr service u32
  | CallStopService "nat option" int
  | CallStopService_ptr service
  | CallInterrupt "nat option" int
  | CallSignal "nat option" int
  | CallSend "nat option" int 'm
  | CallOnIOReady service u32
  | ClockTick
  | SystemStop
  | CallWait nat u32
  | CallYield nat
  | IdleLoop bool nat
  | MessageLoop nat
  | HandlerReturn nat
  | MainReturn nat
  | GetReady nat
  | Switch nat
  | ResumePrevious nat
  | ResumeCurrent nat
  | RecheckEvents nat
  | CallWaitIO nat int

definition exists_service :: "'m system \<Rightarrow> service \<Rightarrow> bool" where
  "exists_service sys s =
     (case s of IdleService t \<Rightarrow> t < worker_num sys
      | LaunchedService i \<Rightarrow> 16 < i \<and> i \<le> service_index_alloc sys)"

definition self_ok :: "'m system \<Rightarrow> nat option \<Rightarrow> int \<Rightarrow> bool" where
  "self_ok sys self h =
     (case self of None \<Rightarrow> h \<noteq> idle_service_index | Some t \<Rightarrow> t < worker_num sys)"

definition in_user :: "'m system \<Rightarrow> nat \<Rightarrow> bool" where
  "in_user sys t \<longleftrightarrow> t < worker_num sys \<and> tpc sys t = Running \<and> ucontext (contexts sys (cur sys t)) = InUser"

text \<open>When an action can happen.\<close>

fun enabled :: "'m action \<Rightarrow> 'm system \<Rightarrow> bool" where
  "enabled (CallWakeUp self h _) sys = self_ok sys self h"
| "enabled (CallWakeUp_ptr s _) sys = exists_service sys s"
| "enabled (CallStopService self h) sys = self_ok sys self h"
| "enabled (CallStopService_ptr s) sys = exists_service sys s"
| "enabled (CallInterrupt self h) sys = self_ok sys self h"
| "enabled (CallSignal self h) sys = self_ok sys self h"
| "enabled (CallSend self h _) sys = self_ok sys self h"
| "enabled (CallOnIOReady s _) sys = exists_service sys s"
| "enabled (CallWait t _) sys = (in_user sys t \<and> cur sys t \<noteq> IdleService t)"
| "enabled (CallYield t) sys = (in_user sys t \<and> cur sys t \<noteq> IdleService t)"
| "enabled (IdleLoop _ t) sys = (in_user sys t \<and> cur sys t = IdleService t)"
| "enabled (MessageLoop t) sys =
     (t < worker_num sys \<and> tpc sys t = Running \<and> ucontext (contexts sys (cur sys t)) = InLoop)"
| "enabled (HandlerReturn t) sys =
     (in_user sys t \<and> service_type (contexts sys (cur sys t)) = kMessageDrivenService)"
| "enabled (MainReturn t) sys =
     (in_user sys t \<and> service_type (contexts sys (cur sys t)) = kUserThreadService \<and>
      cur sys t \<noteq> IdleService t)"
| "enabled (GetReady t) sys = (t < worker_num sys \<and> tpc sys t = Scheduling)"
| "enabled (Switch t) sys = (t < worker_num sys \<and> (case tpc sys t of Switching _ \<Rightarrow> True | _ \<Rightarrow> False))"
| "enabled (ResumePrevious t) sys = (t < worker_num sys \<and> tpc sys t = ResumePrev)"
| "enabled (ResumeCurrent t) sys = (t < worker_num sys \<and> tpc sys t = ResumeCur)"
| "enabled (RecheckEvents t) sys = (t < worker_num sys \<and> tpc sys t = Recheck)"
| "enabled (CallWaitIO t _) sys = (in_user sys t \<and> cur sys t \<noteq> IdleService t)"
| "enabled _ sys = True"

text \<open>What it does; \<open>None\<close> is a failed \<open>CHECK\<close> or a null dereference.\<close>

fun perform :: "'m action \<Rightarrow> 'm system \<Rightarrow> 'm system option" where
  "perform (CallLaunch ty) sys = Some (snd (LaunchService ty sys))"
| "perform (CallWakeUp self h e) sys = map_option snd (WakeUp self h e sys)"
| "perform (CallWakeUp_ptr s e) sys = Some (snd (WakeUp_ptr s e sys))"
| "perform (CallStopService self h) sys = map_option snd (StopService self h sys)"
| "perform (CallStopService_ptr s) sys = Some (StopService_ptr s sys)"
| "perform (CallInterrupt self h) sys = InterruptService self h sys"
| "perform (CallSignal self h) sys = Signal self h sys"
| "perform (CallSend self h msg) sys = map_option snd (SendMessage self h msg sys)"
| "perform (CallOnIOReady s ioev) sys = Some (OnIOReady s ioev sys)"
| "perform ClockTick sys = Some (sys\<lparr>current_time := current_time sys + 1\<rparr>)"
| "perform SystemStop sys = Some (sys\<lparr>stopped := True\<rparr>)"
| "perform (CallWait t es) sys = Wait t es sys"
| "perform (CallYield t) sys = Some (Yield t sys)"
| "perform (IdleLoop is_interrupted t) sys = Some (IdleService_Main is_interrupted t sys)"
| "perform (MessageLoop t) sys = MessageDrivenServiceMain t sys"
| "perform (HandlerReturn t) sys = Some (HandleMessage_return t sys)"
| "perform (MainReturn t) sys = Some (UserThreadServiceMain_return t sys)"
| "perform (GetReady t) sys = Some (Schedule_GetReady t sys)"
| "perform (Switch t) sys =
     (case tpc sys t of Switching s \<Rightarrow> SwitchTo t (cur sys t) s sys | _ \<Rightarrow> None)"
| "perform (ResumePrevious t) sys = OnResume_prev t sys"
| "perform (ResumeCurrent t) sys = Resume t sys"
| "perform (RecheckEvents t) sys = Wait_Recheck t sys"
| "perform (CallWaitIO t fd) sys = Some (WaitIO_begin t fd sys)"

text \<open>Performing a sequence of actions, each of them enabled when its turn comes.\<close>

fun run_actions :: "'m action list \<Rightarrow> 'm system \<Rightarrow> 'm system option" where
  "run_actions [] sys = Some sys"
| "run_actions (a # as) sys =
     (if enabled a sys then (case perform a sys of Some sys' \<Rightarrow> run_actions as sys' | None \<Rightarrow> None)
      else None)"

inductive sys_step :: "'m system \<Rightarrow> 'm system \<Rightarrow> bool" where
  "enabled a sys \<Longrightarrow> perform a sys = Some sys' \<Longrightarrow> sys_step sys sys'"

inductive sys_reachable :: "'m system \<Rightarrow> bool" where
  start: "sys_reachable (System_Start thread_num)"
| step: "sys_reachable sys \<Longrightarrow> sys_step sys sys' \<Longrightarrow> sys_reachable sys'"

inductive_cases sys_stepE: "sys_step sys sys'"

lemma reachable_perform:
  "sys_reachable sys \<Longrightarrow> enabled a sys \<Longrightarrow> perform a sys = Some sys' \<Longrightarrow> sys_reachable sys'"
  by (blast intro: sys_reachable.step sys_step.intros)

lemma reachable_run:
  "sys_reachable sys \<Longrightarrow> run_actions as sys = Some sys' \<Longrightarrow> sys_reachable sys'"
  by (induction as arbitrary: sys) (auto split: if_splits option.splits intro: reachable_perform)

end
