(* ===== verification/Scheduler_Safety.thy ===== *)
theory Scheduler_Safety
  imports Scheduler
begin

text \<open>
  The invariant of the scheduler and its preservation by every action.  Every service has at most
  one place in the machine (the run queue, or a thread that runs it, is about to run it, or is
  leaving it), and what its context says fits the place.
\<close>

section \<open>Places and contexts\<close>

datatype place = Queued | Cur nat | Prev nat | Next nat

definition at_place :: "'m system \<Rightarrow> place \<Rightarrow> service \<Rightarrow> bool" where
  "at_place sys r s =
     (case r of
        Queued \<Rightarrow> s \<in> set (run_queue sys)
      | Cur t \<Rightarrow> t < worker_num sys \<and> cur sys t = s \<and> tpc sys t \<noteq> Stopped
      | Prev t \<Rightarrow> t < worker_num sys \<and> prev_service (perthread sys t) = Some s \<and> tpc sys t = ResumePrev
      | Next t \<Rightarrow> t < worker_num sys \<and> tpc sys t = Switching s \<and> cur sys t \<noteq> s)"

fun is_idle :: "service \<Rightarrow> bool" where
  "is_idle (IdleService _) = True"
| "is_idle (LaunchedService _) = False"

fun is_wait :: "ucontext \<Rightarrow> bool" where
  "is_wait InLoopWait = True"
| "is_wait (InUserWait _) = True"
| "is_wait _ = False"

text \<open>The events a service that is not running waits for.\<close>

definition parked_mask :: "'m service_context \<Rightarrow> u32" where
  "parked_mask c =
     (if ucontext c = AtServiceMain
      then (if service_type c = kUserThreadService then kServiceStart else kMessage OR kServiceStop)
      else wait_mask (ucontext c))"

text \<open>What holds of every context, wherever its service is.\<close>

definition context_ok :: "'m service_context \<Rightarrow> bool" where
  "context_ok c \<longleftrightarrow>
     accepted c = handled c @ msg_queue c \<and>
     (ucontext c = InLoop \<or> ucontext c = InLoopWait \<longrightarrow> service_type c = kMessageDrivenService) \<and>
     (status c = kDead \<longrightarrow> stopping c \<and> (service_type c = kMessageDrivenService \<longrightarrow> msg_queue c = [])) \<and>
     (wait_events c \<noteq> 0 \<and> stopping c \<and> wait_events c AND kServiceStop \<noteq> 0 \<longrightarrow> events c AND kServiceStop \<noteq> 0) \<and>
     (wait_events c AND kMessage \<noteq> 0 \<and> ucontext c \<in> {AtServiceMain, InLoopWait} \<and> msg_queue c \<noteq> [] \<longrightarrow>
        events c AND kMessage \<noteq> 0)"

definition quiet :: "'m service_context \<Rightarrow> bool" where
  "quiet c \<longleftrightarrow> wait_events c = 0 \<and> \<not> wakeup_signal c"

definition ready_ctx :: "service \<Rightarrow> 'm service_context \<Rightarrow> bool" where
  "ready_ctx s c \<longleftrightarrow>
     status c = kReady \<and> \<not> is_swaping_out c \<and>
     (if is_idle s then ucontext c \<in> {AtServiceMain, InSchedule} \<and> quiet c \<and> service_type c = kUserThreadService
      else (ucontext c = AtServiceMain \<or> is_wait (ucontext c)) \<and>
        wait_events c = parked_mask c \<and> parked_mask c AND events c \<noteq> 0)"

definition on_cpu :: "service \<Rightarrow> 'm service_context \<Rightarrow> bool" where
  "on_cpu s c \<longleftrightarrow> (status c = kRunning \<or> is_idle s \<and> status c = kReady) \<and> quiet c \<and>
     (is_idle s \<longrightarrow> service_type c = kUserThreadService)"

definition running_ctx :: "service \<Rightarrow> 'm service_context \<Rightarrow> bool" where
  "running_ctx s c \<longleftrightarrow> on_cpu s c \<and> \<not> is_swaping_out c \<and> ucontext c \<in> {InLoop, InUser}"

definition waiting_ctx :: "service \<Rightarrow> 'm service_context \<Rightarrow> bool" where
  "waiting_ctx s c \<longleftrightarrow>
     \<not> is_idle s \<and> status c = kBlocked \<and> is_wait (ucontext c) \<and> wait_events c = parked_mask c \<and>
     is_swaping_out c \<and> (parked_mask c AND events c \<noteq> 0 \<longleftrightarrow> wakeup_signal c)"

definition retired_ctx :: "'m service_context \<Rightarrow> bool" where
  "retired_ctx c \<longleftrightarrow> status c = kDead \<and> ucontext c = Retired \<and> quiet c"

definition leaving_ctx :: "bool \<Rightarrow> service \<Rightarrow> 'm service_context \<Rightarrow> bool" where
  "leaving_ctx swapped s c \<longleftrightarrow>
     waiting_ctx s c \<or>
     is_swaping_out c = swapped \<and>
       (on_cpu s c \<and> ucontext c = InSchedule \<or> \<not> is_idle s \<and> retired_ctx c)"

definition recheck_ctx :: "service \<Rightarrow> 'm service_context \<Rightarrow> bool" where
  "recheck_ctx s c \<longleftrightarrow>
     \<not> is_idle s \<and> status c = kRunning \<and> quiet c \<and> \<not> is_swaping_out c \<and> is_wait (ucontext c) \<and>
     wait_mask (ucontext c) AND events c \<noteq> 0"

definition blocked_ctx :: "service \<Rightarrow> 'm service_context \<Rightarrow> bool" where
  "blocked_ctx s c \<longleftrightarrow>
     \<not> is_idle s \<and> status c = kBlocked \<and> (ucontext c = AtServiceMain \<or> is_wait (ucontext c)) \<and>
     wait_events c = parked_mask c \<and> parked_mask c AND events c = 0 \<and> \<not> wakeup_signal c"

definition free_ctx :: "service \<Rightarrow> 'm service_context \<Rightarrow> bool" where
  "free_ctx s c \<longleftrightarrow>
     \<not> is_swaping_out c \<and>
     (blocked_ctx s c \<or> on_cpu s c \<and> ucontext c = InSchedule \<or> retired_ctx c \<or>
      status c = kCreated \<and> quiet c)"

definition cur_ctx :: "thread_pc \<Rightarrow> service \<Rightarrow> 'm service_context \<Rightarrow> bool" where
  "cur_ctx p s c =
     (case p of
        Running \<Rightarrow> running_ctx s c
      | Scheduling \<Rightarrow> leaving_ctx False s c
      | Switching s' \<Rightarrow> leaving_ctx False s c \<and> (s' = s \<longrightarrow> is_idle s)
      | ResumePrev \<Rightarrow> ready_ctx s c
      | ResumeCur \<Rightarrow> ready_ctx s c
      | Recheck \<Rightarrow> recheck_ctx s c
      | Stopped \<Rightarrow> True)"

definition place_ctx :: "'m system \<Rightarrow> place \<Rightarrow> service \<Rightarrow> 'm service_context \<Rightarrow> bool" where
  "place_ctx sys r s c =
     (case r of
        Queued \<Rightarrow> \<not> is_idle s \<and> ready_ctx s c
      | Next t \<Rightarrow> ready_ctx s c
      | Prev t \<Rightarrow> leaving_ctx True s c
      | Cur t \<Rightarrow> cur_ctx (tpc sys t) s c)"

fun own_place :: "place \<Rightarrow> service \<Rightarrow> bool" where
  "own_place (Cur t) (IdleService u) = (t = u)"
| "own_place (Next t) (IdleService u) = (t = u)"
| "own_place (Prev t) (IdleService u) = (t = u)"
| "own_place Queued (IdleService u) = False"
| "own_place r (LaunchedService i) = True"

section \<open>The invariant\<close>

definition places :: "'m system \<Rightarrow> service \<Rightarrow> place set" where
  "places sys s = {r. at_place sys r s}"

definition service_inv :: "'m system \<Rightarrow> service \<Rightarrow> bool" where
  "service_inv sys s \<longleftrightarrow>
     context_ok (contexts sys s) \<and>
     (places sys s = {} \<and> free_ctx s (contexts sys s) \<or>
      (\<exists>r. places sys s = {r} \<and> exists_service sys s \<and> own_place r s \<and>
           place_ctx sys r s (contexts sys s)))"

definition table_inv :: "'m system \<Rightarrow> bool" where
  "table_inv sys \<longleftrightarrow>
     distinct (run_queue sys) \<and> 16 \<le> service_index_alloc sys \<and>
     (\<forall>h s. services sys h = Some s \<longrightarrow> s = LaunchedService h \<and> exists_service sys s) \<and>
     (\<forall>s. exists_service sys s \<longrightarrow> status (contexts sys s) \<noteq> kCreated) \<and>
     (\<forall>t<worker_num sys. tpc sys t \<noteq> Stopped \<longrightarrow> status (contexts sys (IdleService t)) \<noteq> kDead)"

definition sys_inv :: "'m system \<Rightarrow> bool" where
  "sys_inv sys \<longleftrightarrow> table_inv sys \<and> (\<forall>s. service_inv sys s)"

lemmas ctx_defs = ready_ctx_def on_cpu_def running_ctx_def waiting_ctx_def retired_ctx_def
  leaving_ctx_def recheck_ctx_def blocked_ctx_def free_ctx_def quiet_def

section \<open>Proof rules\<close>

lemma set_context_simps [simp]:
  "contexts (set_context s c sys) = (contexts sys)(s := c)"
  "perthread (set_context s c sys) = perthread sys"
  "run_queue (set_context s c sys) = run_queue sys"
  "services (set_context s c sys) = services sys"
  "worker_num (set_context s c sys) = worker_num sys"
  "service_index_alloc (set_context s c sys) = service_index_alloc sys"
  "current_time (set_context s c sys) = current_time sys"
  by (simp_all add: set_context_def)

lemma set_thread_simps [simp]:
  "contexts (set_thread t d sys) = contexts sys"
  "perthread (set_thread t d sys) = (perthread sys)(t := d)"
  "run_queue (set_thread t d sys) = run_queue sys"
  "services (set_thread t d sys) = services sys"
  "worker_num (set_thread t d sys) = worker_num sys"
  "service_index_alloc (set_thread t d sys) = service_index_alloc sys"
  "current_time (set_thread t d sys) = current_time sys"
  by (simp_all add: set_thread_def)

lemma places_iff:
  "Queued \<in> places sys s \<longleftrightarrow> s \<in> set (run_queue sys)"
  "Cur t \<in> places sys s \<longleftrightarrow> t < worker_num sys \<and> cur sys t = s \<and> tpc sys t \<noteq> Stopped"
  "Prev t \<in> places sys s \<longleftrightarrow>
     t < worker_num sys \<and> prev_service (perthread sys t) = Some s \<and> tpc sys t = ResumePrev"
  "Next t \<in> places sys s \<longleftrightarrow> t < worker_num sys \<and> tpc sys t = Switching s \<and> cur sys t \<noteq> s"
  by (simp_all add: places_def at_place_def)

lemma goto_simps [simp]:
  "contexts (goto t p sys) = contexts sys"
  "perthread (goto t p sys) = (perthread sys)(t := (perthread sys t)\<lparr>pc := p\<rparr>)"
  "run_queue (goto t p sys) = run_queue sys"
  "services (goto t p sys) = services sys"
  "worker_num (goto t p sys) = worker_num sys"
  "service_index_alloc (goto t p sys) = service_index_alloc sys"
  "current_time (goto t p sys) = current_time sys"
  by (simp_all add: goto_def)

text \<open>A service that no step touches keeps its part of the invariant.\<close>

lemma service_inv_frame:
  assumes "service_inv sys s"
    and "contexts sys' s = contexts sys s"
    and "places sys' s = places sys s"
    and "\<And>t. Cur t \<in> places sys s \<Longrightarrow> tpc sys' t = tpc sys t"
    and "exists_service sys s \<Longrightarrow> exists_service sys' s"
  shows "service_inv sys' s"
proof -
  have p: "place_ctx sys' r s c = place_ctx sys r s c" if "places sys s = {r}" for r c
    using that assms(4) by (auto simp: place_ctx_def split: place.split)
  show ?thesis
    using assms(1,5) p unfolding service_inv_def assms(2,3) by blast
qed

lemma service_inv_at:
  assumes "places sys s = {r}"
    and "context_ok (contexts sys s)" "exists_service sys s" "own_place r s"
    and "place_ctx sys r s (contexts sys s)"
  shows "service_inv sys s"
  using assms by (auto simp: service_inv_def)

lemma service_inv_free:
  assumes "places sys s = {}" "context_ok (contexts sys s)" "free_ctx s (contexts sys s)"
  shows "service_inv sys s"
  using assms by (auto simp: service_inv_def)

lemma service_inv_cases:
  assumes "service_inv sys s"
  obtains (free) "places sys s = {}" "context_ok (contexts sys s)" "free_ctx s (contexts sys s)"
    | (at) r where "places sys s = {r}" "context_ok (contexts sys s)" "exists_service sys s"
        "own_place r s" "place_ctx sys r s (contexts sys s)"
  using assms unfolding service_inv_def by (elim conjE disjE exE) simp_all

lemma service_invD:
  assumes "service_inv sys s" "at_place sys r s"
  shows "places sys s = {r}" "exists_service sys s" "own_place r s" "place_ctx sys r s (contexts sys s)"
    "context_ok (contexts sys s)"
proof -
  have r: "r \<in> places sys s" using assms(2) by (simp add: places_def)
  have "places sys s = {r} \<and> exists_service sys s \<and> own_place r s \<and> place_ctx sys r s (contexts sys s)
    \<and> context_ok (contexts sys s)"
    using assms(1) by (cases rule: service_inv_cases) (use r in auto)
  then show "places sys s = {r}" "exists_service sys s" "own_place r s"
    "place_ctx sys r s (contexts sys s)" "context_ok (contexts sys s)" by simp_all
qed

section \<open>Calls from outside\<close>

text \<open>
  A change of a context that every predicate on contexts tolerates keeps the invariant.
\<close>

definition harmless :: "service \<Rightarrow> 'm service_context \<Rightarrow> 'm service_context \<Rightarrow> bool" where
  "harmless s c c' \<longleftrightarrow>
     (context_ok c \<longrightarrow> context_ok c') \<and> (status c' = status c) \<and>
     (ready_ctx s c \<longrightarrow> ready_ctx s c') \<and> (running_ctx s c \<longrightarrow> running_ctx s c') \<and>
     (\<forall>b. leaving_ctx b s c \<longrightarrow> leaving_ctx b s c') \<and> (recheck_ctx s c \<longrightarrow> recheck_ctx s c') \<and>
     (free_ctx s c \<longrightarrow> free_ctx s c')"

lemma set_context_at_place [simp]: "at_place (set_context s c sys) r x = at_place sys r x"
  by (simp add: at_place_def split: place.split)

lemma places_set_context [simp]: "places (set_context s c sys) x = places sys x"
  by (simp add: places_def)

lemma exists_set_context [simp]: "exists_service (set_context s c sys) x = exists_service sys x"
  by (simp add: exists_service_def split: service.split)

lemma harmless_set_context:
  assumes inv: "sys_inv sys" and h: "harmless s (contexts sys s) c"
  shows "sys_inv (set_context s c sys)"
proof -
  have "service_inv (set_context s c sys) x" for x
  proof -
    have x: "service_inv sys x" using inv by (simp add: sys_inv_def)
    have p: "place_ctx (set_context s c sys) r x d = place_ctx sys r x d" for r d
      by (simp add: place_ctx_def split: place.split)
    have q: "place_ctx sys r s (contexts sys s) \<Longrightarrow> place_ctx sys r s c" for r
      using h by (auto simp: place_ctx_def cur_ctx_def harmless_def split: place.splits thread_pc.splits)
    show ?thesis
    proof (cases "x = s")
      case True
      have c: "contexts (set_context s c sys) s = c" by simp
      from x have "service_inv sys s" using True by simp
      then have "service_inv (set_context s c sys) s"
      proof (cases rule: service_inv_cases)
        case free
        with h show ?thesis by (intro service_inv_free) (simp_all add: True c harmless_def)
      next
        case (at r)
        with h show ?thesis
          by (intro service_inv_at [of _ _ r]) (simp_all add: True c q harmless_def p [unfolded True])
      qed
      then show ?thesis using True by simp
    next
      case False
      then have "contexts (set_context s c sys) x = contexts sys x" by simp
      with x show ?thesis
        by (rule service_inv_frame) simp_all
    qed
  qed
  moreover have "table_inv (set_context s c sys)"
    using inv h by (auto simp: sys_inv_def table_inv_def harmless_def exists_service_def split: service.splits)
  ultimately show ?thesis by (simp add: sys_inv_def)
qed

lemma and_or_zero [event_simps]: "x AND (y OR z) = 0 \<longleftrightarrow> x AND y = 0 \<and> x AND z = 0"
  for x y z :: "'a::len word"
  by (simp add: bit.conj_disj_distrib or_eq_0_iff)

lemma flag_absorb:
  fixes x :: "'a::len word"
  assumes "x AND push_bit k 1 \<noteq> 0"
  shows "push_bit k 1 AND x = push_bit k 1"
proof -
  have "bit x k"
  proof (rule ccontr)
    assume "\<not> bit x k"
    then have "x AND push_bit k 1 = 0" by (intro bit_word_eqI) (auto simp: bit_simps)
    with assms show False by simp
  qed
  then show ?thesis by (intro bit_word_eqI) (auto simp: bit_simps)
qed

text \<open>Putting a service that is nowhere into the run queue.\<close>

lemma PutReady_inv:
  assumes inv: "sys_inv sys" and free: "places sys s = {}" and ex: "exists_service sys s"
    and idle: "\<not> is_idle s" and ok: "context_ok c" and ready: "ready_ctx s c"
  shows "sys_inv (PutReadyService s (set_context s c sys))" (is "sys_inv ?sys'")
proof -
  obtain i where s: "s = LaunchedService i" using idle by (cases s) auto
  have q: "s \<notin> set (run_queue sys)" using free places_iff(1) [of sys s] by simp
  have "handle_index s \<noteq> idle_service_index"
    using ex s by (simp add: exists_service_def idle_service_index_def)
  then have sys': "?sys' = (set_context s c sys)\<lparr>run_queue := run_queue sys @ [s]\<rparr>"
    by (simp add: PutReadyService_def tsq_push_def)
  have "r \<in> places ?sys' x \<longleftrightarrow> r = Queued \<and> x = s \<or> r \<in> places sys x" for r x
    by (cases r) (auto simp: sys' places_iff)
  then have pl: "places ?sys' x = (if x = s then {Queued} else places sys x)" for x
    using free by auto
  have "service_inv ?sys' x" for x
  proof (cases "x = s")
    case True
    then show ?thesis
      using ex idle ok ready s pl [of s] unfolding True sys'
      by (intro service_inv_at [of _ _ Queued]) (simp_all add: exists_service_def place_ctx_def)
  next
    case False
    have "service_inv sys x" using inv by (simp add: sys_inv_def)
    then show ?thesis
      by (rule service_inv_frame)
        (use False pl [of x] in \<open>simp_all add: sys' exists_service_def split: service.splits\<close>)
  qed
  moreover have "table_inv ?sys'"
    using inv q ready unfolding sys'
    by (auto simp: sys_inv_def table_inv_def exists_service_def ready_ctx_def split: service.splits)
  ultimately show ?thesis by (simp add: sys_inv_def)
qed

lemma blocked_is_free:
  assumes "sys_inv sys" "status (contexts sys s) = kBlocked" "\<not> is_swaping_out (contexts sys s)"
  shows "places sys s = {}" "blocked_ctx s (contexts sys s)" "context_ok (contexts sys s)"
proof -
  have "service_inv sys s" using assms(1) by (simp add: sys_inv_def)
  then have "places sys s = {} \<and> blocked_ctx s (contexts sys s) \<and> context_ok (contexts sys s)"
  proof (cases rule: service_inv_cases)
    case free
    with assms(2) show ?thesis by (auto simp: free_ctx_def on_cpu_def retired_ctx_def)
  next
    case (at r)
    have "at_place sys r s" using at(1) by (auto simp: places_def)
    with at(5) assms(2,3) show ?thesis
      by (auto simp: place_ctx_def cur_ctx_def at_place_def ready_ctx_def leaving_ctx_def waiting_ctx_def on_cpu_def
          retired_ctx_def running_ctx_def recheck_ctx_def split: place.splits thread_pc.splits)
  qed
  then show "places sys s = {}" "blocked_ctx s (contexts sys s)" "context_ok (contexts sys s)"
    by simp_all
qed

text \<open>The two updates of a wake-up that leaves the service where it is.\<close>

lemma parked_mask_update [simp]:
  "parked_mask (c\<lparr>events := e\<rparr>) = parked_mask c"
  "parked_mask (c\<lparr>wakeup_signal := b\<rparr>) = parked_mask c"
  "parked_mask (c\<lparr>status := st\<rparr>) = parked_mask c"
  "parked_mask (c\<lparr>is_swaping_out := b\<rparr>) = parked_mask c"
  "parked_mask (c\<lparr>stopping := b\<rparr>) = parked_mask c"
  "parked_mask (c\<lparr>msg_queue := q\<rparr>) = parked_mask c"
  "parked_mask (c\<lparr>accepted := q\<rparr>) = parked_mask c"
  "parked_mask (c\<lparr>io_events := e\<rparr>) = parked_mask c"
  "parked_mask (c\<lparr>ctx_fd := fd\<rparr>) = parked_mask c"
  "parked_mask (c\<lparr>blocked_time := tm\<rparr>) = parked_mask c"
  by (simp_all add: parked_mask_def)

lemma context_ok_events: "context_ok c \<Longrightarrow> context_ok (c\<lparr>events := events c OR e\<rparr>)"
  unfolding context_ok_def by (auto simp: bit.disj_conj_distrib event_simps and.commute)

lemma harmless_events:
  assumes "wait_events c AND e = 0"
  shows "harmless s c (c\<lparr>events := events c OR e\<rparr>)"
  unfolding harmless_def
  using assms by (auto simp: context_ok_events ctx_defs event_simps)

lemma harmless_signal:
  assumes "wait_events c AND e \<noteq> 0" "is_swaping_out c \<or> status c \<noteq> kBlocked"
  shows "harmless s c (c\<lparr>events := events c OR e, wakeup_signal := True\<rparr>)"
  unfolding harmless_def
  using assms context_ok_events [of c e] by (auto simp: ctx_defs event_simps context_ok_def)

lemma Wakeup_Locked_inv:
  assumes inv: "sys_inv sys" and ex: "exists_service sys s"
  shows "sys_inv (snd (Wakeup_Locked s e sys))"
proof -
  let ?c = "contexts sys s"
  consider (none) "wait_events ?c AND e = 0"
    | (here) "wait_events ?c AND e \<noteq> 0" "is_swaping_out ?c \<or> status ?c \<noteq> kBlocked"
    | (queue) "wait_events ?c AND e \<noteq> 0" "\<not> is_swaping_out ?c" "status ?c = kBlocked"
    by blast
  then show ?thesis
  proof cases
    case none
    then show ?thesis
      using harmless_set_context [OF inv harmless_events] by (simp add: Wakeup_Locked_def Let_def)
  next
    case here
    then have "snd (Wakeup_Locked s e sys) =
        set_context s (?c\<lparr>events := events ?c OR e, wakeup_signal := True\<rparr>) sys"
      by (auto simp: Wakeup_Locked_def Let_def)
    then show ?thesis using harmless_set_context [OF inv harmless_signal [OF here]] by simp
  next
    case queue
    let ?c' = "?c\<lparr>events := events ?c OR e, wakeup_signal := True, status := kReady\<rparr>"
    note b = blocked_is_free [OF inv queue(3,2)]
    have "snd (Wakeup_Locked s e sys) = PutReadyService s (set_context s ?c' sys)"
      using queue by (simp add: Wakeup_Locked_def Let_def)
    moreover have "ready_ctx s ?c'" "\<not> is_idle s"
      using b(2) queue by (auto simp: ready_ctx_def blocked_ctx_def event_simps)
    moreover have "context_ok ?c'"
      using context_ok_events [OF b(3), of e] by (simp add: context_ok_def)
    ultimately show ?thesis using PutReady_inv [OF inv b(1) ex] by simp
  qed
qed

lemma GrabService_exists:
  assumes "sys_inv sys" "self_ok sys self h"
  obtains r where "GrabService self h sys = Some r" "\<forall>s. r = Some s \<longrightarrow> exists_service sys s"
proof -
  have "\<forall>s. services sys h = Some s \<longrightarrow> exists_service sys s"
    using assms(1) by (auto simp: sys_inv_def table_inv_def)
  moreover have "GrabService self h sys \<noteq> None"
    using assms(2) by (auto simp: GrabService_def self_ok_def split: option.splits)
  then obtain r where "GrabService self h sys = Some r" by blast
  ultimately show thesis
    using assms(2)
    by (intro that [of r])
      (auto simp: GrabService_def FindService_def self_ok_def exists_service_def
        split: if_splits option.splits)
qed

text \<open>A wake-up and another update of the same context commute.\<close>

lemma set_context_twice [simp]: "set_context s c (set_context s d sys) = set_context s c sys"
  by (simp add: set_context_def)

lemma set_context_PutReady [simp]:
  "set_context s c (PutReadyService x sys) = PutReadyService x (set_context s c sys)"
  by (simp add: set_context_def PutReadyService_def)

lemma contexts_PutReady [simp]: "contexts (PutReadyService x sys) = contexts sys"
  by (simp add: PutReadyService_def)

definition woken :: "u32 \<Rightarrow> 'm service_context \<Rightarrow> 'm service_context" where
  "woken e c =
     (let c = c\<lparr>events := events c OR e\<rparr>
      in if wait_events c AND e = 0 then c
         else if is_swaping_out c \<or> status c \<noteq> kBlocked then c\<lparr>wakeup_signal := True\<rparr>
         else c\<lparr>wakeup_signal := True, status := kReady\<rparr>)"

lemma contexts_Wakeup [simp]:
  "contexts (snd (Wakeup_Locked s e sys)) = (contexts sys)(s := woken e (contexts sys s))"
  by (simp add: Wakeup_Locked_def woken_def Let_def)

lemma Wakeup_update:
  assumes "\<And>c. wait_events (f c) = wait_events c \<and> is_swaping_out (f c) = is_swaping_out c \<and>
      status (f c) = status c \<and> events (f c) = events c"
    and "\<And>c e. (f c)\<lparr>events := e\<rparr> = f (c\<lparr>events := e\<rparr>)"
    and "\<And>c b. (f c)\<lparr>wakeup_signal := b\<rparr> = f (c\<lparr>wakeup_signal := b\<rparr>)"
    and "\<And>c st. (f c)\<lparr>status := st\<rparr> = f (c\<lparr>status := st\<rparr>)"
  shows "snd (Wakeup_Locked s e (set_context s (f (contexts sys s)) sys)) =
    set_context s (f (woken e (contexts sys s))) (snd (Wakeup_Locked s e sys))"
  using assms by (simp add: Wakeup_Locked_def woken_def Let_def)

lemma exists_Wakeup [simp]:
  "exists_service (snd (Wakeup_Locked s e sys)) x = exists_service sys x"
  by (simp add: Wakeup_Locked_def Let_def PutReadyService_def exists_service_def split: service.split)

lemma harmless_stopping:
  "wait_events c AND kServiceStop = 0 \<or> events c AND kServiceStop \<noteq> 0 \<Longrightarrow>
     harmless s c (c\<lparr>stopping := True\<rparr>)"
  unfolding harmless_def by (auto simp: ctx_defs context_ok_def)

text \<open>
  Between the two statements of \<open>StopService\<close> the context says that it is stopping and does not
  have the event yet; the mutex hides that state, so both are one update here.  The same goes for
  the new message and its event in \<open>SendMessage\<close>.
\<close>

lemma woken_events: "events (woken e c) = events c OR e" "stopping (woken e c) = stopping c"
  by (simp_all add: woken_def Let_def)

lemma StopService_ptr_inv:
  assumes inv: "sys_inv sys" and ex: "exists_service sys s"
  shows "sys_inv (StopService_ptr s sys)"
proof (cases "stopping (contexts sys s)")
  case False
  let ?sys' = "snd (Wakeup_Locked s kServiceStop sys)"
  let ?d = "contexts ?sys' s"
  have "StopService_ptr s sys = set_context s (?d\<lparr>stopping := True\<rparr>) ?sys'"
    using False Wakeup_update [of "\<lambda>c. c\<lparr>stopping := True\<rparr>" s kServiceStop sys]
    by (simp add: StopService_ptr_def)
  moreover have "harmless s ?d (?d\<lparr>stopping := True\<rparr>)"
    by (intro harmless_stopping)
      (simp add: woken_events event_simps and.commute [of _ kServiceStop], simp add: kServiceStop_def)
  ultimately show ?thesis
    using harmless_set_context [OF Wakeup_Locked_inv [OF inv ex]] by metis
qed (simp add: StopService_ptr_def inv)

definition enqueued :: "'m \<Rightarrow> 'm service_context \<Rightarrow> 'm service_context" where
  "enqueued msg c = c\<lparr>msg_queue := msg_queue c @ [msg], accepted := accepted c @ [msg]\<rparr>"

lemma harmless_enqueued:
  assumes "\<not> stopping c" "wait_events c AND kMessage = 0 \<or> events c AND kMessage \<noteq> 0"
  shows "harmless s c (enqueued msg c)"
  using assms unfolding harmless_def by (auto simp: enqueued_def ctx_defs context_ok_def)

lemma SendMessage_inv:
  assumes inv: "sys_inv sys" and self: "self_ok sys self h"
  obtains b sys' where "SendMessage self h msg sys = Some (b, sys')" "sys_inv sys'"
proof -
  obtain r where r: "GrabService self h sys = Some r" "\<forall>s. r = Some s \<longrightarrow> exists_service sys s"
    using GrabService_exists [OF inv self] by blast
  show thesis
  proof (cases "\<exists>s. r = Some s \<and> \<not> stopping (contexts sys s) \<and> status (contexts sys s) \<noteq> kCreated")
    case False
    then show thesis using r(1) inv that [of False sys]
      by (auto simp: SendMessage_def Let_def split: option.splits)
  next
    case True
    then obtain s where s: "r = Some s" "\<not> stopping (contexts sys s)" "status (contexts sys s) \<noteq> kCreated"
      by blast
    let ?c = "contexts sys s" and ?sys' = "snd (Wakeup_Locked s kMessage sys)"
    have ex: "exists_service sys s" using r(2) s(1) by simp
    have send: "SendMessage self h msg sys = Some (True,
        if wait_events ?c AND kMessage = 0 then set_context s (enqueued msg ?c) sys
        else snd (Wakeup_Locked s kMessage (set_context s (enqueued msg ?c) sys)))"
      using r(1) s by (simp add: SendMessage_def Let_def enqueued_def)
    have "snd (Wakeup_Locked s kMessage (set_context s (enqueued msg ?c) sys)) =
        set_context s (enqueued msg (contexts ?sys' s)) ?sys'"
      using Wakeup_update [of "enqueued msg" s kMessage sys] by (simp add: enqueued_def)
    moreover have "harmless s (contexts ?sys' s) (enqueued msg (contexts ?sys' s))"
      using s(2) by (intro harmless_enqueued)
        (simp_all add: woken_events event_simps and.commute [of _ kMessage], simp add: kMessage_def)
    ultimately have "sys_inv (snd (Wakeup_Locked s kMessage (set_context s (enqueued msg ?c) sys)))"
      using harmless_set_context [OF Wakeup_Locked_inv [OF inv ex]] by metis
    moreover have "sys_inv (set_context s (enqueued msg ?c) sys)" if "wait_events ?c AND kMessage = 0"
      using harmless_set_context [OF inv harmless_enqueued [OF s(2)]] that by simp
    ultimately show thesis using send that by simp
  qed
qed

lemma new_service_inv:
  assumes inv: "sys_inv sys" and h: "h = service_index_alloc sys + 1"
    and ok: "context_ok c" and c: "blocked_ctx (LaunchedService h) c" "\<not> is_swaping_out c"
  shows "sys_inv (set_context (LaunchedService h) c
    (AddService (LaunchedService h) (sys\<lparr>service_index_alloc := h\<rparr>)))" (is "sys_inv ?sys'")
proof -
  let ?s = "LaunchedService h"
  have new: "\<not> exists_service sys ?s" using h by (simp add: exists_service_def)
  have s: "service_inv sys x" for x using inv by (simp add: sys_inv_def)
  from s [of ?s] have free: "places sys ?s = {}" by (cases rule: service_inv_cases) (use new in auto)
  have "r \<in> places ?sys' x \<longleftrightarrow> r \<in> places sys x" for r x
    by (cases r) (auto simp: places_iff AddService_def)
  then have pl: "places ?sys' x = places sys x" for x by blast
  have th: "perthread ?sys' = perthread sys" by (simp add: AddService_def)
  have ex: "exists_service ?sys' x \<longleftrightarrow> exists_service sys x \<or> x = ?s" for x
    using h inv
    by (auto simp: exists_service_def AddService_def sys_inv_def table_inv_def split: service.splits)
  have ctx: "contexts ?sys' x = (if x = ?s then c else contexts sys x)" for x
    by (simp add: AddService_def)
  have "service_inv ?sys' x" for x
  proof (cases "x = ?s")
    case True
    with free pl ok c ctx [of ?s] show ?thesis
      by (intro service_inv_free) (simp_all add: free_ctx_def)
  next
    case False
    show ?thesis by (rule service_inv_frame [OF s]) (simp_all only: pl th ex ctx False if_False simp_thms)
  qed
  moreover have "table_inv ?sys'"
    using inv c ex unfolding table_inv_def th ctx sys_inv_def
    by (auto simp: AddService_def h blocked_ctx_def split: if_splits)
  ultimately show ?thesis by (simp add: sys_inv_def)
qed

lemma LaunchService_eq:
  "LaunchService ty sys =
     (if stopped sys then (None, sys)
      else let h = service_index_alloc sys + 1; s = LaunchedService h;
               mask = (if ty = kUserThreadService then kServiceStart else kMessage OR kServiceStop);
               sys' = set_context s ((ServiceContext_Create ty)\<lparr>status := kBlocked, wait_events := mask,
                   blocked_time := current_time sys, wakeup_time := current_time sys\<rparr>)
                 (AddService s (sys\<lparr>service_index_alloc := h\<rparr>))
           in (Some h, if ty = kUserThreadService then snd (Wakeup_Locked s kServiceStart sys') else sys'))"
proof -
  have add: "AddService x (set_context y c z) = set_context y c (AddService x z)" for x y c z
    by (simp add: AddService_def set_context_def)
  show ?thesis
    by (simp add: LaunchService_def SetServiceStatus_def Let_def add ServiceContext_Create_def
        Wakeup_Locked_def kServiceStart_def)
qed

lemma LaunchService_inv:
  assumes inv: "sys_inv sys"
  shows "sys_inv (snd (LaunchService ty sys))"
proof (cases "stopped sys")
  case False
  let ?h = "service_index_alloc sys + 1"
  let ?s = "LaunchedService ?h"
  let ?mask = "if ty = kUserThreadService then kServiceStart else kMessage OR kServiceStop"
  let ?c = "(ServiceContext_Create ty :: 'a service_context)\<lparr>status := kBlocked, wait_events := ?mask,
     blocked_time := current_time sys, wakeup_time := current_time sys\<rparr>"
  let ?sys' = "set_context ?s ?c (AddService ?s (sys\<lparr>service_index_alloc := ?h\<rparr>))"
  have "context_ok ?c" "blocked_ctx ?s ?c" "\<not> is_swaping_out ?c"
    by (simp_all add: context_ok_def blocked_ctx_def parked_mask_def ServiceContext_Create_def
        kNoneEvent_def)
  from new_service_inv [OF inv refl this] have inv': "sys_inv ?sys'" .
  have ex: "exists_service ?sys' ?s"
    using inv by (simp add: exists_service_def AddService_def sys_inv_def table_inv_def)
  show ?thesis
    unfolding LaunchService_eq Let_def using False inv' Wakeup_Locked_inv [OF inv' ex, of kServiceStart]
    by (cases "ty = kUserThreadService") simp_all
qed (simp add: LaunchService_def inv)

lemma OnIOReady_inv:
  assumes inv: "sys_inv sys" and ex: "exists_service sys s"
  shows "sys_inv (OnIOReady s ioev sys)"
proof -
  have "harmless s c (c\<lparr>io_events := ioev\<rparr>)" for c :: "'a service_context"
    unfolding harmless_def by (auto simp: ctx_defs context_ok_def)
  from harmless_set_context [OF inv this] have "sys_inv (set_context s ((contexts sys s)\<lparr>io_events := ioev\<rparr>) sys)" .
  then show ?thesis using inv ex by (simp add: OnIOReady_def Let_def Wakeup_Locked_inv)
qed

lemma WaitIO_begin_inv:
  assumes inv: "sys_inv sys"
  shows "sys_inv (WaitIO_begin t fd sys)"
proof -
  have "harmless s c (c\<lparr>io_events := 0, ctx_fd := fd\<rparr>)" for s and c :: "'a service_context"
    unfolding harmless_def by (auto simp: ctx_defs context_ok_def)
  from harmless_set_context [OF inv this] show ?thesis
    by (simp add: WaitIO_begin_def SetServiceFD_def Let_def set_context_def)
qed

text \<open>Calls that name a service by its handle.\<close>

lemma by_handle_inv:
  assumes inv: "sys_inv sys" and self: "self_ok sys self h"
    and f: "\<And>s. exists_service sys s \<Longrightarrow> sys_inv (f s)"
  obtains r where "GrabService self h sys = Some r" "sys_inv (case r of Some s \<Rightarrow> f s | None \<Rightarrow> sys)"
proof -
  obtain r where "GrabService self h sys = Some r" "\<forall>s. r = Some s \<longrightarrow> exists_service sys s"
    using GrabService_exists [OF inv self] by blast
  then show thesis using f inv by (intro that [of r]) (auto split: option.split)
qed

section \<open>Moves of a worker thread\<close>

lemma at_cur: "sys_inv sys \<Longrightarrow> t < worker_num sys \<Longrightarrow> tpc sys t \<noteq> Stopped \<Longrightarrow>
    places sys (cur sys t) = {Cur t} \<and> context_ok (contexts sys (cur sys t)) \<and>
    exists_service sys (cur sys t) \<and> own_place (Cur t) (cur sys t) \<and>
    cur_ctx (tpc sys t) (cur sys t) (contexts sys (cur sys t))"
  using service_invD [of sys "cur sys t" "Cur t"]
  by (simp add: sys_inv_def at_place_def place_ctx_def)

text \<open>The thread keeps its current service and neither takes nor leaves another one.\<close>

definition plain_pc :: "service \<Rightarrow> thread_pc \<Rightarrow> bool" where
  "plain_pc s p \<longleftrightarrow> p \<in> {Running, Scheduling, Recheck, ResumeCur, Switching s}"

lemma local_step_inv:
  assumes inv: "sys_inv sys" and t: "t < worker_num sys"
    and pcs: "plain_pc (cur sys t) (tpc sys t)" "plain_pc (cur sys t) (pc d)" "current_service d = cur sys t"
    and ok: "context_ok c" and c: "cur_ctx (pc d) (cur sys t) c"
    and st: "status c \<noteq> kCreated" "is_idle (cur sys t) \<Longrightarrow> status c \<noteq> kDead"
  shows "sys_inv (set_thread t d (set_context (cur sys t) c sys))" (is "sys_inv ?sys'")
proof -
  let ?s = "cur sys t"
  have sv: "service_inv sys x" for x using inv by (simp add: sys_inv_def)
  have "tpc sys t \<noteq> Stopped" using pcs(1) by (auto simp: plain_pc_def)
  note cur = at_cur [OF inv t this]
  have "r \<in> places ?sys' x \<longleftrightarrow> r \<in> places sys x" for r x
    using t pcs by (cases r) (auto simp: places_iff plain_pc_def)
  then have pl: "places ?sys' x = places sys x" for x by blast
  have ex: "exists_service ?sys' x = exists_service sys x" for x
    by (simp add: exists_service_def split: service.split)
  have "service_inv ?sys' x" for x
  proof (cases "x = ?s")
    case True
    with cur ok c show ?thesis
      by (intro service_inv_at [of _ _ "Cur t"]) (simp_all add: pl ex place_ctx_def)
  next
    case False
    show ?thesis
      by (rule service_inv_frame [OF sv]) (use False in \<open>auto simp: pl ex places_iff\<close>)
  qed
  moreover have "table_inv ?sys'"
  proof -
    have "status (contexts ?sys' (IdleService u)) \<noteq> kDead"
      if "u < worker_num sys" "tpc ?sys' u \<noteq> Stopped" for u
    proof (cases "IdleService u = ?s")
      case True
      with st(2) show ?thesis by (metis fun_upd_same is_idle.simps(1) set_context_simps(1) set_thread_simps(1))
    next
      case False
      moreover have "tpc sys u \<noteq> Stopped"
        using that \<open>tpc sys t \<noteq> Stopped\<close> by (cases "u = t") auto
      ultimately show ?thesis using inv that(1) by (simp add: sys_inv_def table_inv_def)
    qed
    then show ?thesis
      using inv st(1) by (auto simp: sys_inv_def table_inv_def ex)
  qed
  ultimately show ?thesis by (simp add: sys_inv_def)
qed

lemma RemoveService_inv: "sys_inv sys \<Longrightarrow> sys_inv (RemoveService h sys)"
proof -
  assume inv: "sys_inv sys"
  have "r \<in> places (RemoveService h sys) s \<longleftrightarrow> r \<in> places sys s" for r s
    by (cases r) (auto simp: places_iff RemoveService_def)
  then have pl: "places (RemoveService h sys) s = places sys s" for s by blast
  have ex: "exists_service (RemoveService h sys) s = exists_service sys s" for s
    by (simp add: exists_service_def RemoveService_def split: service.split)
  have "service_inv (RemoveService h sys) s" for s
    by (rule service_inv_frame [of sys])
      (use inv pl ex in \<open>simp_all add: sys_inv_def RemoveService_def\<close>)
  moreover have "table_inv (RemoveService h sys)"
    using inv unfolding table_inv_def sys_inv_def ex by (simp add: RemoveService_def)
  ultimately show ?thesis by (simp add: sys_inv_def)
qed

lemma goto_set_context [simp]: "goto t p (set_context s c sys) = set_context s c (goto t p sys)"
  by (simp add: goto_def set_thread_def set_context_def)

lemma set_thread_set_context: "set_context s c (set_thread t d sys) = set_thread t d (set_context s c sys)"
  by (simp add: set_thread_def set_context_def)

lemma local_goto_inv:
  assumes "sys_inv sys" "t < worker_num sys" "plain_pc (cur sys t) (tpc sys t)" "plain_pc (cur sys t) p"
    and "context_ok c" "cur_ctx p (cur sys t) c" "status c \<noteq> kCreated"
    and "is_idle (cur sys t) \<Longrightarrow> status c \<noteq> kDead"
  shows "sys_inv (set_context (cur sys t) c (goto t p sys))"
  using local_step_inv [OF assms(1-3), of "(perthread sys t)\<lparr>pc := p\<rparr>" c] assms(4-)
  by (simp add: goto_def set_thread_set_context)

text \<open>A running service other than an idle one waits: the \<open>CHECK\<close>s hold and the invariant is kept.\<close>

lemma Wait_Locked_inv:
  assumes inv: "sys_inv sys" and t: "t < worker_num sys" and run: "tpc sys t = Running"
    and idle: "\<not> is_idle (cur sys t)" and at: "is_wait u" "wait_mask u = es"
    and loop: "u = InLoopWait \<Longrightarrow> ucontext (contexts sys (cur sys t)) = InLoop \<and>
      msg_queue (contexts sys (cur sys t)) = []"
  obtains (now) r c where
      "Wait_Locked t (cur sys t) es u sys = Some (Some r, set_context (cur sys t) c sys)"
      "r \<noteq> 0" "r AND es = r" "sys_inv (return_events t r (set_context (cur sys t) c sys))"
    | (block) sys' where "Wait_Locked t (cur sys t) es u sys = Some (None, sys')" "sys_inv sys'"
proof -
  let ?s = "cur sys t" let ?c = "contexts sys ?s"
  have cur: "context_ok ?c" "running_ctx ?s ?c"
    using at_cur [OF inv t] run by (simp_all add: cur_ctx_def)
  then have c: "status ?c = kRunning" "wait_events ?c = 0" "\<not> wakeup_signal ?c" "\<not> is_swaping_out ?c"
    "ucontext ?c \<in> {InLoop, InUser}"
    using idle by (auto simp: running_ctx_def on_cpu_def quiet_def)
  have plain: "plain_pc (cur sys t) (tpc sys t)" using run by (simp add: plain_pc_def)
  have ret: "sys_inv (return_events t r (set_context ?s c' sys))"
    if "context_ok c'" "running_ctx ?s c'" "status c' = kRunning" for r c'
    using local_step_inv [OF inv t plain, of "(perthread sys t)\<lparr>pc := Running, revents := r\<rparr>" c'] that
    by (simp add: return_events_def plain_pc_def cur_ctx_def)
  consider (stop) "stopping ?c" "es AND kServiceStop \<noteq> 0"
    | (pending) "\<not> (stopping ?c \<and> es AND kServiceStop \<noteq> 0)" "es AND events ?c \<noteq> 0"
    | (wait) "\<not> (stopping ?c \<and> es AND kServiceStop \<noteq> 0)" "es AND events ?c = 0"
    by blast
  then show thesis
  proof cases
    case stop
    let ?c' = "?c\<lparr>wait_events := 0\<rparr>"
    have c': "context_ok ?c'" "running_ctx ?s ?c'" "status ?c' = kRunning"
      using cur c by (auto simp: running_ctx_def on_cpu_def quiet_def context_ok_def)
    have "kServiceStop AND es = kServiceStop"
      using stop(2) unfolding kServiceStop_def by (rule flag_absorb)
    moreover have "Wait_Locked t ?s es u sys = Some (Some kServiceStop, set_context ?s ?c' sys)"
      using stop c(1) by (simp add: Wait_Locked_def Let_def)
    ultimately show thesis using now ret [OF c'] by (simp add: kServiceStop_def)
  next
    case pending
    let ?c' = "?c\<lparr>wait_events := 0, events := events ?c AND NOT es\<rparr>"
    have c': "context_ok ?c'" "running_ctx ?s ?c'" "status ?c' = kRunning"
      using cur c by (auto simp: running_ctx_def on_cpu_def quiet_def context_ok_def)
    have "Wait_Locked t ?s es u sys = Some (Some (events ?c AND es), set_context ?s ?c' sys)"
      using pending c(1) by (auto simp: Wait_Locked_def Let_def)
    then show thesis using now ret [OF c'] pending(2) by (simp add: and.commute and.assoc)
  next
    case wait
    let ?c' = "?c\<lparr>status := kBlocked, is_swaping_out := True, wait_events := es, ucontext := u\<rparr>"
    have pm: "parked_mask ?c' = es" using at by (cases u) (auto simp: parked_mask_def)
    have "waiting_ctx ?s ?c'" using idle at c wait pm by (simp add: waiting_ctx_def)
    moreover have "context_ok ?c'"
      using cur(1) wait(1) loop at(1) by (cases u) (auto simp: context_ok_def)
    ultimately have "sys_inv (set_context ?s ?c' (goto t Scheduling sys))"
      by (intro local_goto_inv [OF inv t plain]) (simp_all add: plain_pc_def cur_ctx_def leaving_ctx_def)
    moreover have "Wait_Locked t ?s es u sys = Some (None, set_context ?s ?c' (goto t Scheduling sys))"
      using wait c(1) by (auto simp: Wait_Locked_def Let_def)
    ultimately show thesis by (rule block [rotated])
  qed
qed

lemma Wait_inv:
  assumes "sys_inv sys" "t < worker_num sys" "tpc sys t = Running" "\<not> is_idle (cur sys t)"
  obtains sys' where "Wait t es sys = Some sys'" "sys_inv sys'"
proof -
  have "is_wait (InUserWait es)" "wait_mask (InUserWait es) = es" by (simp_all add: wait_mask_def)
  from Wait_Locked_inv [OF assms this] show thesis
    by cases (use that in \<open>auto simp: Wait_def\<close>)
qed

lemma Schedule_inv:
  assumes inv: "sys_inv sys" and t: "t < worker_num sys" and run: "tpc sys t = Running"
    and loop: "ucontext (contexts sys (cur sys t)) = InUser"
  shows "sys_inv (Schedule t InSchedule sys)"
proof -
  have cur: "context_ok (contexts sys (cur sys t))" "running_ctx (cur sys t) (contexts sys (cur sys t))"
    using at_cur [OF inv t] run by (simp_all add: cur_ctx_def)
  show ?thesis unfolding Schedule_def goto_set_context
    using cur loop run
    by (intro local_goto_inv [OF inv t])
      (auto simp: plain_pc_def cur_ctx_def leaving_ctx_def running_ctx_def on_cpu_def quiet_def context_ok_def)
qed

lemma retire_inv:
  assumes inv: "sys_inv sys" and t: "t < worker_num sys" and run: "tpc sys t = Running"
    and idle: "\<not> is_idle (cur sys t)"
    and q: "service_type (contexts sys (cur sys t)) = kMessageDrivenService \<Longrightarrow>
      msg_queue (contexts sys (cur sys t)) = []"
  shows "sys_inv (set_context (cur sys t)
      ((contexts sys (cur sys t))\<lparr>stopping := True, status := kDead, ucontext := Retired\<rparr>)
      (goto t Scheduling sys))"
proof -
  have cur: "context_ok (contexts sys (cur sys t))" "running_ctx (cur sys t) (contexts sys (cur sys t))"
    using at_cur [OF inv t] run by (simp_all add: cur_ctx_def)
  then show ?thesis
    using idle q run
    by (intro local_goto_inv [OF inv t])
      (auto simp: plain_pc_def cur_ctx_def leaving_ctx_def running_ctx_def on_cpu_def quiet_def
        retired_ctx_def context_ok_def)
qed

lemma goto_RemoveService [simp]: "goto t p (RemoveService h sys) = RemoveService h (goto t p sys)"
  by (simp add: goto_def set_thread_def RemoveService_def)

lemma set_context_RemoveService [simp]:
  "set_context s c (RemoveService h sys) = RemoveService h (set_context s c sys)"
  by (simp add: set_context_def RemoveService_def)

lemma RemoveService_simps [simp]:
  "contexts (RemoveService h sys) = contexts sys" "perthread (RemoveService h sys) = perthread sys"
  by (simp_all add: RemoveService_def)

lemma MessageLoop_inv:
  assumes inv: "sys_inv sys" and t: "t < worker_num sys" and run: "tpc sys t = Running"
    and loop: "ucontext (contexts sys (cur sys t)) = InLoop"
  obtains sys' where "MessageDrivenServiceMain t sys = Some sys'" "sys_inv sys'"
proof -
  let ?s = "cur sys t" let ?c = "contexts sys ?s"
  have cur: "context_ok ?c" "running_ctx ?s ?c"
    using at_cur [OF inv t] run by (simp_all add: cur_ctx_def)
  have plain: "plain_pc (cur sys t) (tpc sys t)" using run by (simp add: plain_pc_def)
  have idle: "\<not> is_idle ?s" and st: "status ?c = kRunning" and sig: "\<not> wakeup_signal ?c"
    using cur loop by (auto simp: running_ctx_def on_cpu_def context_ok_def quiet_def)
  show thesis
  proof (cases "msg_queue ?c")
    case (Cons msg q)
    let ?c' = "?c\<lparr>msg_queue := q, handled := handled ?c @ [msg], ucontext := InUser\<rparr>"
    have "sys_inv (set_context ?s ?c' (goto t Running sys))"
      using cur Cons st
      by (intro local_goto_inv [OF inv t plain])
        (auto simp: plain_pc_def cur_ctx_def running_ctx_def on_cpu_def quiet_def context_ok_def)
    moreover have "goto t Running sys = sys"
      using run by (simp add: goto_def set_thread_def flip: run)
    ultimately show thesis using Cons that by (simp add: MessageDrivenServiceMain_def Let_def)
  next
    case Nil
    show thesis
    proof (cases "stopping ?c")
      case True
      then have stop: "?c\<lparr>stopping := True\<rparr> = ?c" by simp
      have "MessageDrivenServiceMain t sys = Some (RemoveService (handle_index ?s) (set_context ?s
          (?c\<lparr>stopping := True, status := kDead, ucontext := Retired\<rparr>) (goto t Scheduling sys)))"
        using Nil True
        by (simp add: MessageDrivenServiceMain_def Let_def Schedule_def SetServiceStatus_def stop)
      then show thesis
        using that RemoveService_inv [OF retire_inv [OF inv t run idle]] Nil by simp
    next
      case False
      have w: "is_wait InLoopWait" "wait_mask InLoopWait = kMessage OR kServiceStop"
        by (simp_all add: wait_mask_def)
      have main: "MessageDrivenServiceMain t sys =
          do { (r, sys) \<leftarrow> Wait_Locked t ?s (kMessage OR kServiceStop) InLoopWait sys;
               (case r of
                  Some r \<Rightarrow> do { CHECK (r AND (kMessage OR kServiceStop) \<noteq> 0); Some (return_events t r sys) }
                | None \<Rightarrow> Some sys) }"
        using Nil False sig by (simp add: MessageDrivenServiceMain_def Let_def)
      show thesis
      proof (rule Wait_Locked_inv [OF inv t run idle w])
        show "ucontext ?c = InLoop \<and> msg_queue ?c = []" using loop Nil by simp
      qed (use that main in auto)
    qed
  qed
qed

lemma HandlerReturn_inv:
  assumes inv: "sys_inv sys" and t: "in_user sys t"
    and ty: "service_type (contexts sys (cur sys t)) = kMessageDrivenService"
  shows "sys_inv (HandleMessage_return t sys)"
proof -
  let ?c = "contexts sys (cur sys t)"
  have t: "t < worker_num sys" and run: "tpc sys t = Running" using t by (auto simp: in_user_def)
  have cur: "context_ok ?c" "running_ctx (cur sys t) ?c"
    using at_cur [OF inv t] run by (simp_all add: cur_ctx_def)
  have "goto t Running sys = sys" using run by (simp add: goto_def set_thread_def flip: run)
  moreover have "sys_inv (set_context (cur sys t) (?c\<lparr>ucontext := InLoop\<rparr>) (goto t Running sys))"
    using cur ty run
    by (intro local_goto_inv [OF inv t])
      (auto simp: plain_pc_def cur_ctx_def running_ctx_def on_cpu_def quiet_def context_ok_def)
  ultimately show ?thesis by (simp add: HandleMessage_return_def Let_def)
qed

lemma not_idle_cur:
  assumes "sys_inv sys" "t < worker_num sys" "tpc sys t \<noteq> Stopped"
  shows "is_idle (cur sys t) \<longleftrightarrow> cur sys t = IdleService t"
    "handle_index (cur sys t) = idle_service_index \<longleftrightarrow> cur sys t = IdleService t"
  using at_cur [OF assms]
  by (cases "cur sys t", simp_all add: exists_service_def idle_service_index_def)+

text \<open>An idle service returns from its loop: the thread stops.\<close>

lemma thread_stop_inv:
  assumes inv: "sys_inv sys" and t: "t < worker_num sys" and run: "tpc sys t = Running"
    and cur: "cur sys t = IdleService t"
  shows "sys_inv (set_context (IdleService t)
      ((contexts sys (IdleService t))\<lparr>stopping := True, status := kDead, ucontext := Retired\<rparr>)
      (goto t Stopped sys))" (is "sys_inv ?sys'")
proof -
  let ?s = "IdleService t" let ?c = "contexts sys ?s"
  let ?c' = "?c\<lparr>stopping := True, status := kDead, ucontext := Retired\<rparr>"
  have sv: "service_inv sys x" for x using inv by (simp add: sys_inv_def)
  have at: "places sys ?s = {Cur t}" "context_ok ?c" "running_ctx ?s ?c"
    using at_cur [OF inv t] run cur by (simp_all add: cur_ctx_def)
  have "r \<in> places ?sys' x \<longleftrightarrow> r \<in> places sys x \<and> \<not> (x = ?s \<and> r = Cur t)" for r x
    using t run cur by (cases r) (auto simp: places_iff goto_def)
  then have pl: "places ?sys' x = (if x = ?s then {} else places sys x)" for x using at(1) by auto
  have ex: "exists_service ?sys' x = exists_service sys x" for x
    by (simp add: exists_service_def goto_def split: service.split)
  have "service_inv ?sys' x" for x
  proof (cases "x = ?s")
    case True
    have ctx: "contexts ?sys' ?s = ?c'" by simp
    have "context_ok ?c'" "free_ctx ?s ?c'"
      using at(2,3) by (auto simp: context_ok_def free_ctx_def retired_ctx_def running_ctx_def on_cpu_def quiet_def)
    with True pl show ?thesis by (intro service_inv_free) (simp_all only: ctx if_True simp_thms)
  next
    case False
    have "tpc ?sys' u = tpc sys u" if "Cur u \<in> places sys x" for u
      using that False cur by (auto simp: places_iff goto_def)
    then show ?thesis using False pl [of x] ex [of x] by (intro service_inv_frame [OF sv]) simp_all
  qed
  moreover have "table_inv ?sys'"
    using inv unfolding table_inv_def sys_inv_def ex by (auto simp: goto_def)
  ultimately show ?thesis by (simp add: sys_inv_def)
qed

lemma MainReturn_inv:
  assumes inv: "sys_inv sys" and user: "in_user sys t"
    and ty: "service_type (contexts sys (cur sys t)) = kUserThreadService"
  shows "sys_inv (UserThreadServiceMain_return t sys)"
proof -
  let ?s = "cur sys t" let ?c = "contexts sys ?s"
  have t: "t < worker_num sys" and run: "tpc sys t = Running" using user by (auto simp: in_user_def)
  have "tpc sys t \<noteq> Stopped" using run by simp
  note idle = not_idle_cur [OF inv t this]
  show ?thesis
  proof (cases "?s = IdleService t")
    case True
    then show ?thesis
      using idle(2) RemoveService_inv [OF thread_stop_inv [OF inv t run True]]
      by (simp add: UserThreadServiceMain_return_def Let_def SetServiceStatus_def)
  next
    case False
    then show ?thesis
      using idle RemoveService_inv [OF retire_inv [OF inv t run]] ty
      by (simp add: UserThreadServiceMain_return_def Let_def SetServiceStatus_def Schedule_def)
  qed
qed

lemma Resume_inv:
  assumes inv: "sys_inv sys" and t: "t < worker_num sys" and at: "tpc sys t = ResumeCur"
  obtains sys' where "Resume t sys = Some sys'" "sys_inv sys'"
proof -
  let ?s = "cur sys t" let ?c = "contexts sys ?s"
  have cur: "context_ok ?c" "ready_ctx ?s ?c" using at_cur [OF inv t] at by (simp_all add: cur_ctx_def)
  then have c: "status ?c = kReady" "\<not> is_swaping_out ?c" by (simp_all add: ready_ctx_def)
  have plain: "plain_pc (cur sys t) (tpc sys t)" using at by (simp add: plain_pc_def)
  define c1 where "c1 = ?c\<lparr>last_thread_index := int t, wakeup_signal := False, wait_events := 0,
    status := kRunning, wakeup_time := current_time sys\<rparr>"
  define d where "d p = (perthread sys t)\<lparr>prev_service := None, pc := p\<rparr>" for p
  have run: "sys_inv (set_thread t (d Running) (set_context ?s (c1\<lparr>ucontext := u\<rparr>) sys))"
    if "u \<in> {InLoop, InUser}" "u = InLoop \<Longrightarrow> service_type ?c = kMessageDrivenService" for u
    using that cur
    by (intro local_step_inv [OF inv t plain])
      (auto simp: d_def c1_def plain_pc_def cur_ctx_def running_ctx_def on_cpu_def quiet_def ready_ctx_def
        context_ok_def)
  have r: "OnResume_cur t sys = Some (set_context ?s c1 sys)"
    using c by (simp add: OnResume_cur_def Let_def c1_def)
  have c1: "c1\<lparr>status := kRunning\<rparr> = c1" "ucontext c1 = ucontext ?c" "service_type c1 = service_type ?c"
    by (simp_all add: c1_def)
  have "Resume t sys =
     (if ucontext ?c = AtServiceMain
      then Some (set_thread t (d Running) (set_context ?s
             (c1\<lparr>ucontext := if service_type ?c = kUserThreadService then InUser else InLoop\<rparr>) sys))
      else if ucontext ?c = InSchedule
      then Some (set_thread t (d Running) (set_context ?s (c1\<lparr>ucontext := InUser\<rparr>) sys))
      else if is_wait (ucontext ?c)
      then Some (set_thread t (d Recheck) (set_context ?s c1 sys)) else None)"
    using r unfolding Resume_def after_Schedule_def d_def
    by (auto simp: Let_def c1 set_thread_def set_context_def goto_def split: ucontext.splits)
  moreover have "ucontext ?c = AtServiceMain \<or> ucontext ?c = InSchedule \<or> is_wait (ucontext ?c)"
    using cur(2) by (auto simp: ready_ctx_def split: if_splits)
  moreover have "sys_inv (set_thread t (d Recheck) (set_context ?s c1 sys))" if "is_wait (ucontext ?c)"
    using that cur
    by (intro local_step_inv [OF inv t plain])
      (auto simp: d_def c1_def plain_pc_def cur_ctx_def recheck_ctx_def quiet_def ready_ctx_def
        context_ok_def parked_mask_def split: if_splits)
  moreover have "service_type ?c = kUserThreadService \<or> service_type ?c = kMessageDrivenService"
    by (cases "service_type ?c") simp_all
  ultimately show thesis using that run by (auto split: if_splits)
qed

lemma Recheck_inv:
  assumes inv: "sys_inv sys" and t: "t < worker_num sys" and at: "tpc sys t = Recheck"
  obtains sys' where "Wait_Recheck t sys = Some sys'" "sys_inv sys'" "tpc sys' t = Running"
    "revents (perthread sys' t) = events (contexts sys (cur sys t)) AND wait_mask (ucontext (contexts sys (cur sys t)))"
    "revents (perthread sys' t) \<noteq> 0"
proof -
  let ?s = "cur sys t" let ?c = "contexts sys ?s" let ?es = "wait_mask (ucontext ?c)"
  let ?c' = "?c\<lparr>events := events ?c AND NOT ?es, ucontext := if ucontext ?c = InLoopWait then InLoop else InUser\<rparr>"
  let ?d = "(perthread sys t)\<lparr>pc := Running, revents := events ?c AND ?es\<rparr>"
  have cur: "context_ok ?c" "recheck_ctx ?s ?c" using at_cur [OF inv t] at by (simp_all add: cur_ctx_def)
  then have ev: "?es AND events ?c \<noteq> 0" by (simp add: recheck_ctx_def)
  have "ucontext ?c = InLoopWait \<Longrightarrow> (events ?c AND ?es) AND (kMessage OR kServiceStop) \<noteq> 0"
    using ev by (simp add: wait_mask_def and.commute and.assoc)
  then have step: "Wait_Recheck t sys = Some (set_thread t ?d (set_context ?s ?c' sys))"
    using ev by (simp add: Wait_Recheck_def Let_def return_events_def)
  have inv': "sys_inv (set_thread t ?d (set_context ?s ?c' sys))"
    using cur at
    by (intro local_step_inv [OF inv t])
      (auto simp: plain_pc_def cur_ctx_def recheck_ctx_def quiet_def running_ctx_def on_cpu_def context_ok_def)
  show thesis by (rule that [OF step inv']) (use ev in \<open>simp_all add: and.commute\<close>)
qed

text \<open>
  The thread takes a service: from the run queue, or its own idle service, which is then nowhere
  unless the thread already runs it.
\<close>

lemma idle_free:
  assumes inv: "sys_inv sys" and t: "t < worker_num sys" and at: "tpc sys t = Scheduling"
    and cur: "cur sys t \<noteq> IdleService t"
  shows "places sys (IdleService t) = {}"
    "on_cpu (IdleService t) (contexts sys (IdleService t))"
    "ucontext (contexts sys (IdleService t)) = InSchedule"
    "\<not> is_swaping_out (contexts sys (IdleService t))"
proof -
  let ?c = "contexts sys (IdleService t)"
  have st: "status ?c \<noteq> kDead" "status ?c \<noteq> kCreated"
    using inv t at by (auto simp: sys_inv_def table_inv_def exists_service_def)
  have "service_inv sys (IdleService t)" using inv by (simp add: sys_inv_def)
  then have "places sys (IdleService t) = {} \<and> free_ctx (IdleService t) ?c"
  proof (cases rule: service_inv_cases)
    case (at r)
    then have "r \<in> places sys (IdleService t)" "own_place r (IdleService t)" by simp_all
    with cur \<open>tpc sys t = Scheduling\<close> show ?thesis by (cases r) (auto simp: places_iff)
  qed simp
  with st show "places sys (IdleService t) = {}" "on_cpu (IdleService t) ?c" "ucontext ?c = InSchedule"
    "\<not> is_swaping_out ?c"
    by (auto simp: free_ctx_def blocked_ctx_def retired_ctx_def)
qed

text \<open>The thread's place for the next service is taken by \<open>s\<close>, which leaves the place \<open>from\<close>.\<close>

lemma take_next_inv:
  assumes inv: "sys_inv sys" and t: "t < worker_num sys" and at: "tpc sys t = Scheduling"
    and ne: "cur sys t \<noteq> s" and ex: "exists_service sys s" and own: "own_place (Next t) s"
    and ok: "context_ok c" and ready: "ready_ctx s c"
    and q: "set q = set (run_queue sys) - {s}" "distinct q"
    and pl: "places sys s \<subseteq> {Queued}"
  shows "sys_inv (goto t (Switching s) (set_context s c (sys\<lparr>run_queue := q\<rparr>)))" (is "sys_inv ?sys'")
proof -
  have sv: "service_inv sys x" for x using inv by (simp add: sys_inv_def)
  have "r \<in> places ?sys' x \<longleftrightarrow> r \<in> places sys x \<and> \<not> (x = s \<and> r = Queued) \<or> x = s \<and> r = Next t" for r x
    using t at ne q(1) by (cases r) (auto simp: places_iff)
  then have pl': "places ?sys' x = (if x = s then {Next t} else places sys x)" for x
    using pl by auto
  have ex': "exists_service ?sys' x = exists_service sys x" for x
    by (simp add: exists_service_def split: service.split)
  have "service_inv ?sys' x" for x
  proof (cases "x = s")
    case True
    have ctx: "contexts ?sys' s = c" by simp
    show ?thesis unfolding True
      by (rule service_inv_at [of _ _ "Next t"])
        (use pl' [of s] ex' [of s] ex own ok ready ctx in \<open>simp_all add: place_ctx_def\<close>)
  next
    case False
    show ?thesis
    proof (cases "x = cur sys t")
      case True
      have c: "places sys x = {Cur t}" "context_ok (contexts sys x)" "exists_service sys x"
        "own_place (Cur t) x" "leaving_ctx False x (contexts sys x)"
        using at_cur [OF inv t] at True by (auto simp: cur_ctx_def)
      have "place_ctx ?sys' (Cur t) x (contexts ?sys' x)"
        using c(5) ne False True by (simp add: place_ctx_def cur_ctx_def)
      then show ?thesis
        using c False pl' [of x] ex' [of x] by (intro service_inv_at [of _ _ "Cur t"]) simp_all
    next
      case neq: False
      have "tpc ?sys' u = tpc sys u" if "Cur u \<in> places sys x" for u
        using that neq by (auto simp: places_iff)
      then show ?thesis
        using False pl' [of x] ex' [of x] by (intro service_inv_frame [OF sv]) simp_all
    qed
  qed
  moreover have "table_inv ?sys'"
    using inv ready q(2) at unfolding table_inv_def sys_inv_def ex'
    by (auto simp: ready_ctx_def)
  ultimately show ?thesis by (simp add: sys_inv_def)
qed

lemma GetReady_inv:
  assumes inv: "sys_inv sys" and t: "t < worker_num sys" and at: "tpc sys t = Scheduling"
  shows "sys_inv (Schedule_GetReady t sys)"
proof (cases "run_queue sys")
  case (Cons s q)
  have "at_place sys Queued s" using Cons by (simp add: at_place_def)
  with inv have s: "places sys s = {Queued}" "exists_service sys s" "ready_ctx s (contexts sys s)"
    "\<not> is_idle s" "context_ok (contexts sys s)"
    using service_invD [of sys s Queued] by (simp_all add: sys_inv_def place_ctx_def)
  have "cur sys t \<noteq> s" using s(1) t at places_iff(2) [of t sys s] by auto
  moreover have "own_place (Next t) s" using s(4) by (cases s) simp_all
  moreover have "distinct (s # q)" using inv Cons by (simp add: sys_inv_def table_inv_def)
  ultimately have "sys_inv (goto t (Switching s) (set_context s (contexts sys s) (sys\<lparr>run_queue := q\<rparr>)))"
    using s Cons by (intro take_next_inv [OF inv t at]) auto
  then show ?thesis using Cons by (simp add: Schedule_GetReady_def GetReadyService_def set_context_def)
next
  case Nil
  let ?s = "IdleService t" let ?c = "contexts sys ?s"
  have step: "Schedule_GetReady t sys = goto t (Switching ?s) (set_context ?s (?c\<lparr>status := kReady\<rparr>) sys)"
    using Nil by (simp add: Schedule_GetReady_def GetReadyService_def SetServiceStatus_def)
  show ?thesis
  proof (cases "cur sys t = ?s")
    case True
    have cur: "context_ok ?c" "leaving_ctx False ?s ?c"
      using at_cur [OF inv t] at True by (simp_all add: cur_ctx_def)
    have "sys_inv (set_context (cur sys t) (?c\<lparr>status := kReady\<rparr>) (goto t (Switching ?s) sys))"
      using cur at True
      by (intro local_goto_inv [OF inv t])
        (auto simp: plain_pc_def cur_ctx_def leaving_ctx_def waiting_ctx_def on_cpu_def quiet_def context_ok_def)
    then show ?thesis using step True by simp
  next
    case False
    note idle = idle_free [OF inv t at False]
    have "context_ok ?c" using inv by (simp add: sys_inv_def service_inv_def)
    then have "context_ok (?c\<lparr>status := kReady\<rparr>)" "ready_ctx ?s (?c\<lparr>status := kReady\<rparr>)"
      using idle by (auto simp: context_ok_def ready_ctx_def on_cpu_def quiet_def)
    moreover have "exists_service sys ?s" using t by (simp add: exists_service_def)
    ultimately have "sys_inv (goto t (Switching ?s) (set_context ?s (?c\<lparr>status := kReady\<rparr>) (sys\<lparr>run_queue := []\<rparr>)))"
      using idle(1) Nil False by (intro take_next_inv [OF inv t at]) auto
    moreover have "sys\<lparr>run_queue := []\<rparr> = sys" using Nil by simp
    ultimately show ?thesis using step by simp
  qed
qed

lemma switch_away_inv:
  assumes inv: "sys_inv sys" and t: "t < worker_num sys" and at: "tpc sys t = Switching s"
    and ne: "cur sys t \<noteq> s"
  shows "sys_inv (set_thread t ((perthread sys t)\<lparr>current_service := s, prev_service := Some (cur sys t),
      pc := ResumePrev\<rparr>) (set_context (cur sys t)
        ((contexts sys (cur sys t))\<lparr>is_swaping_out := True, blocked_time := tm\<rparr>) sys))"
    (is "sys_inv ?sys'")
proof -
  let ?p = "cur sys t" let ?c = "contexts sys ?p"
  let ?c' = "?c\<lparr>is_swaping_out := True, blocked_time := tm\<rparr>"
  have sv: "service_inv sys x" for x using inv by (simp add: sys_inv_def)
  have p: "places sys ?p = {Cur t}" "context_ok ?c" "exists_service sys ?p" "own_place (Cur t) ?p"
    "leaving_ctx False ?p ?c"
    using at_cur [OF inv t] at by (simp_all add: cur_ctx_def)
  have "at_place sys (Next t) s" using t at ne by (simp add: at_place_def)
  from service_invD [OF sv this] have s: "places sys s = {Next t}" "context_ok (contexts sys s)"
    "exists_service sys s" "own_place (Next t) s" "ready_ctx s (contexts sys s)"
    by (simp_all add: place_ctx_def)
  have "r \<in> places ?sys' x \<longleftrightarrow>
      r \<in> places sys x \<and> r \<noteq> Cur t \<and> r \<noteq> Next t \<or> x = s \<and> r = Cur t \<or> x = ?p \<and> r = Prev t" for r x
    using t at ne by (cases r) (auto simp: places_iff)
  then have pl: "places ?sys' s = {Cur t}" "places ?sys' ?p = {Prev t}"
    "x \<noteq> s \<Longrightarrow> x \<noteq> ?p \<Longrightarrow> places ?sys' x = places sys x" for x
    using s(1) p(1) ne t at by (auto simp: places_iff)
  have ex: "exists_service ?sys' x = exists_service sys x" for x
    by (simp add: exists_service_def split: service.split)
  have "service_inv ?sys' x" for x
  proof -
    consider "x = s" | "x = ?p" | "x \<noteq> s" "x \<noteq> ?p" by blast
    then show ?thesis
    proof cases
      case 1
      have "own_place (Cur t) s" using s(4) by (cases s) simp_all
      then show ?thesis unfolding 1
        using s ne by (intro service_inv_at [OF pl(1)]) (simp_all add: ex place_ctx_def cur_ctx_def)
    next
      case 2
      have "own_place (Prev t) ?p" using p(4) by (cases ?p) simp_all
      moreover have "context_ok ?c'" "leaving_ctx True ?p ?c'"
        using p(2,5) by (auto simp: context_ok_def leaving_ctx_def waiting_ctx_def on_cpu_def quiet_def
            retired_ctx_def)
      ultimately show ?thesis unfolding 2
        using p(3) by (intro service_inv_at [OF pl(2)]) (simp_all add: ex place_ctx_def)
    next
      case 3
      have "tpc ?sys' u = tpc sys u" if "Cur u \<in> places sys x" for u
        using that 3 by (auto simp: places_iff)
      then show ?thesis using 3 pl(3) ex by (intro service_inv_frame [OF sv]) simp_all
    qed
  qed
  moreover have "table_inv ?sys'"
    using inv at unfolding table_inv_def sys_inv_def ex by (auto split: if_splits)
  ultimately show ?thesis by (simp add: sys_inv_def)
qed

lemma Switch_inv:
  assumes inv: "sys_inv sys" and t: "t < worker_num sys" and at: "tpc sys t = Switching s"
  obtains sys' where "SwitchTo t (cur sys t) s sys = Some sys'" "sys_inv sys'"
proof (cases "cur sys t = s")
  case True
  let ?c = "contexts sys s"
  have cur: "context_ok ?c" "leaving_ctx False s ?c" "is_idle s"
    using at_cur [OF inv t] at True by (simp_all add: cur_ctx_def)
  then have u: "ucontext ?c = InSchedule" by (auto simp: leaving_ctx_def waiting_ctx_def)
  then have "SwitchTo t (cur sys t) s sys =
      Some (set_context (cur sys t) (?c\<lparr>ucontext := InUser\<rparr>) (goto t Running sys))"
    using True by (simp add: SwitchTo_def after_Schedule_def Let_def)
  moreover have "sys_inv (set_context (cur sys t) (?c\<lparr>ucontext := InUser\<rparr>) (goto t Running sys))"
    using cur at True
    by (intro local_goto_inv [OF inv t])
      (auto simp: plain_pc_def cur_ctx_def leaving_ctx_def waiting_ctx_def running_ctx_def on_cpu_def
        quiet_def context_ok_def)
  ultimately show thesis using that by simp
next
  case False
  then show thesis using that switch_away_inv [OF inv t at False] by (simp add: SwitchTo_def Let_def)
qed

text \<open>The service the thread came from is let go.\<close>

lemma leave_prev_inv:
  assumes inv: "sys_inv sys" and t: "t < worker_num sys" and at: "tpc sys t = ResumePrev"
    and prev: "prev_service (perthread sys t) = Some p"
    and ok: "context_ok c" and free: "free_ctx p c" and st: "status c \<noteq> kCreated"
    and idle: "is_idle p \<Longrightarrow> status c \<noteq> kDead"
  shows "sys_inv (set_context p c (goto t ResumeCur sys))" (is "sys_inv ?sys'")
    "places (set_context p c (goto t ResumeCur sys)) p = {}"
proof -
  have sv: "service_inv sys x" for x using inv by (simp add: sys_inv_def)
  have "at_place sys (Prev t) p" using t at prev by (simp add: at_place_def)
  from service_invD [OF sv this] have p: "places sys p = {Prev t}" by simp
  have cur: "places sys (cur sys t) = {Cur t}" "context_ok (contexts sys (cur sys t))"
    "exists_service sys (cur sys t)" "own_place (Cur t) (cur sys t)"
    "ready_ctx (cur sys t) (contexts sys (cur sys t))"
    using at_cur [OF inv t] at by (simp_all add: cur_ctx_def)
  have ne: "cur sys t \<noteq> p" using cur(1) p by auto
  have "r \<in> places ?sys' x \<longleftrightarrow> r \<in> places sys x \<and> \<not> (x = p \<and> r = Prev t)" for r x
    using t at prev by (cases r) (auto simp: places_iff)
  then have pl: "places ?sys' x = (if x = p then {} else places sys x)" for x using p by auto
  then show "places ?sys' p = {}" by simp
  have ex: "exists_service ?sys' x = exists_service sys x" for x
    by (simp add: exists_service_def split: service.split)
  have "service_inv ?sys' x" for x
  proof -
    consider "x = p" | "x = cur sys t" | "x \<noteq> p" "x \<noteq> cur sys t" by blast
    then show ?thesis
    proof cases
      case 1
      then show ?thesis using pl [of p] ok free by (intro service_inv_free) simp_all
    next
      case 2
      then show ?thesis
        using cur pl [of "cur sys t"] ex [of "cur sys t"] ne
        by (intro service_inv_at [of _ _ "Cur t"]) (simp_all add: place_ctx_def cur_ctx_def)
    next
      case 3
      have "tpc ?sys' u = tpc sys u" if "Cur u \<in> places sys x" for u
        using that 3 by (auto simp: places_iff)
      then show ?thesis using 3 pl [of x] ex [of x] by (intro service_inv_frame [OF sv]) simp_all
    qed
  qed
  moreover have "table_inv ?sys'"
    using inv at st idle unfolding table_inv_def sys_inv_def ex by (auto split: if_splits)
  ultimately show "sys_inv ?sys'" by (simp add: sys_inv_def)
qed

lemma OnResume_first_inv:
  assumes inv: "sys_inv sys" and t: "t < worker_num sys" and at: "tpc sys t = ResumePrev"
    and prev: "prev_service (perthread sys t) = None"
  shows "sys_inv (goto t ResumeCur sys)" (is "sys_inv ?sys'")
proof -
  have sv: "service_inv sys x" for x using inv by (simp add: sys_inv_def)
  have cur: "places sys (cur sys t) = {Cur t}" "context_ok (contexts sys (cur sys t))"
    "exists_service sys (cur sys t)" "own_place (Cur t) (cur sys t)"
    "ready_ctx (cur sys t) (contexts sys (cur sys t))"
    using at_cur [OF inv t] at by (simp_all add: cur_ctx_def)
  have "r \<in> places ?sys' x \<longleftrightarrow> r \<in> places sys x" for r x
    using t at prev by (cases r) (auto simp: places_iff)
  then have pl: "places ?sys' x = places sys x" for x by blast
  have ex: "exists_service ?sys' x = exists_service sys x" for x
    by (simp add: exists_service_def split: service.split)
  have "service_inv ?sys' x" for x
  proof (cases "x = cur sys t")
    case True
    then show ?thesis
      using cur pl [of "cur sys t"] ex [of "cur sys t"]
      by (intro service_inv_at [of _ _ "Cur t"]) (simp_all add: place_ctx_def cur_ctx_def)
  next
    case False
    have "tpc ?sys' u = tpc sys u" if "Cur u \<in> places sys x" for u
      using that False by (auto simp: places_iff)
    then show ?thesis using pl [of x] ex [of x] by (intro service_inv_frame [OF sv]) simp_all
  qed
  moreover have "table_inv ?sys'"
    using inv at unfolding table_inv_def sys_inv_def ex by (auto split: if_splits)
  ultimately show ?thesis by (simp add: sys_inv_def)
qed

lemma OnResume_prev_inv:
  assumes inv: "sys_inv sys" and t: "t < worker_num sys" and at: "tpc sys t = ResumePrev"
  obtains sys' where "OnResume_prev t sys = Some sys'" "sys_inv sys'"
proof (cases "prev_service (perthread sys t)")
  case None
  then show thesis using that OnResume_first_inv [OF inv t at] by (simp add: OnResume_prev_def)
next
  case (Some p)
  let ?c = "contexts sys p" let ?rel = "?c\<lparr>is_swaping_out := False\<rparr>"
  have "service_inv sys p" using inv by (simp add: sys_inv_def)
  moreover have "at_place sys (Prev t) p" using t at Some by (simp add: at_place_def)
  ultimately have p: "exists_service sys p" "own_place (Prev t) p" "leaving_ctx True p ?c" "context_ok ?c"
    using service_invD [of sys p "Prev t"] by (simp_all add: place_ctx_def)
  have st: "status ?c \<noteq> kCreated" using inv p(1) by (simp add: sys_inv_def table_inv_def)
  have swap: "is_swaping_out ?c" using p(3) by (auto simp: leaving_ctx_def waiting_ctx_def)
  have idle: "IsIdleService p \<longleftrightarrow> is_idle p"
    using p(1) by (cases p) (auto simp: IsIdleService_def idle_service_index_def exists_service_def)
  show thesis
  proof (cases "wakeup_signal ?c \<and> status ?c = kBlocked")
    case True
    then have w: "waiting_ctx p ?c" using p(3) by (auto simp: leaving_ctx_def on_cpu_def retired_ctx_def)
    let ?d = "?c\<lparr>is_swaping_out := False, status := kRunning, wait_events := 0,
      wakeup_signal := False, ucontext := InSchedule\<rparr>"
    let ?mid = "set_context p ?d (goto t ResumeCur sys)"
    have d: "context_ok ?d" "free_ctx p ?d" "status ?d \<noteq> kCreated" "is_idle p \<Longrightarrow> status ?d \<noteq> kDead"
      using w p(4) by (simp_all add: context_ok_def free_ctx_def on_cpu_def quiet_def waiting_ctx_def)
    have step: "OnResume_prev t sys =
        Some (PutReadyService p (set_context p (?rel\<lparr>status := kReady\<rparr>) ?mid))"
      using Some swap True w idle by (simp add: OnResume_prev_def Let_def waiting_ctx_def)
    note s1 = leave_prev_inv [OF inv t at Some d]
    have "exists_service ?mid p" using p(1) by (simp add: exists_service_def split: service.splits)
    moreover have "ready_ctx p (?rel\<lparr>status := kReady\<rparr>)" "context_ok (?rel\<lparr>status := kReady\<rparr>)" "\<not> is_idle p"
      using w True p(4) by (auto simp: ready_ctx_def waiting_ctx_def context_ok_def)
    ultimately show thesis using that [OF step] PutReady_inv [OF s1] by blast
  next
    case False
    then have "OnResume_prev t sys = Some (set_context p ?rel (goto t ResumeCur sys))"
      using Some swap by (auto simp: OnResume_prev_def Let_def)
    moreover have "context_ok ?rel" using p(4) by (simp add: context_ok_def)
    moreover have "free_ctx p ?rel"
      using p(3) False
      by (auto simp: leaving_ctx_def free_ctx_def waiting_ctx_def blocked_ctx_def on_cpu_def quiet_def retired_ctx_def)
    moreover have "is_idle p \<Longrightarrow> status ?c \<noteq> kDead"
      using p(3) by (auto simp: leaving_ctx_def waiting_ctx_def on_cpu_def)
    ultimately show thesis using that leave_prev_inv(1) [OF inv t at Some] st by simp
  qed
qed

section \<open>Every reachable state satisfies the invariant\<close>

lemma foldr_ThreadMain:
  "contexts (foldr ThreadMain ts sys) s =
     (if \<exists>t\<in>set ts. s = IdleService t then (ServiceContext_Create kUserThreadService)\<lparr>status := kReady\<rparr>
      else contexts sys s)"
  "perthread (foldr ThreadMain ts sys) u =
     (if u \<in> set ts
      then \<lparr>current_service = IdleService u, prev_service = None, pc = ResumePrev, revents = 0\<rparr>
      else perthread sys u)"
  "run_queue (foldr ThreadMain ts sys) = run_queue sys"
  "services (foldr ThreadMain ts sys) = services sys"
  "worker_num (foldr ThreadMain ts sys) = worker_num sys"
  "service_index_alloc (foldr ThreadMain ts sys) = service_index_alloc sys"
  by (induction ts) (auto simp: ThreadMain_def)

lemma System_Start_inv: "sys_inv (System_Start n :: 'm system)"
proof -
  let ?sys = "System_Start n :: 'm system"
  define k where "k = nat (if n \<le> 0 then 2 else n)"
  have ctx: "contexts ?sys s = (if \<exists>t<k. s = IdleService t
      then (ServiceContext_Create kUserThreadService)\<lparr>status := kReady\<rparr>
      else ServiceContext_Create kUserThreadService)" for s
    by (auto simp: System_Start_def Let_def foldr_ThreadMain System_init_def k_def)
  have th: "t < k \<Longrightarrow> perthread ?sys t =
      \<lparr>current_service = IdleService t, prev_service = None, pc = ResumePrev, revents = 0\<rparr>" for t
    by (simp add: System_Start_def Let_def foldr_ThreadMain k_def)
  have rest: "worker_num ?sys = k" "run_queue ?sys = []" "services ?sys = Map.empty"
    "service_index_alloc ?sys = 16"
    by (simp_all add: System_Start_def Let_def foldr_ThreadMain System_init_def k_def)
  have pl: "r \<in> places ?sys s \<longleftrightarrow> (\<exists>t<k. s = IdleService t \<and> r = Cur t)" for r s
    by (cases r) (auto simp: places_iff rest th)
  have "service_inv ?sys s" for s
  proof (cases "\<exists>t<k. s = IdleService t")
    case True
    then obtain t where t: "t < k" "s = IdleService t" by blast
    then have "places ?sys s = {Cur t}" using pl by auto
    moreover have "contexts ?sys s = (ServiceContext_Create kUserThreadService)\<lparr>status := kReady\<rparr>"
      using t ctx by simp
    ultimately show ?thesis
      using t th [OF t(1)] rest(1) by (intro service_inv_at [of _ _ "Cur t"])
        (simp_all add: exists_service_def place_ctx_def cur_ctx_def ready_ctx_def context_ok_def
          ServiceContext_Create_def quiet_def kNoneEvent_def)
  next
    case False
    then have "places ?sys s = {}" using pl by blast
    moreover have "contexts ?sys s = ServiceContext_Create kUserThreadService"
      using ctx [of s] unfolding if_not_P [OF False] .
    ultimately show ?thesis
      by (intro service_inv_free)
        (simp_all add: context_ok_def free_ctx_def ServiceContext_Create_def quiet_def kNoneEvent_def)
  qed
  moreover have "table_inv ?sys"
    by (auto simp: table_inv_def rest ctx th exists_service_def ServiceContext_Create_def
        split: service.splits)
  ultimately show ?thesis by (simp add: sys_inv_def)
qed

lemma clock_inv: "sys_inv sys \<Longrightarrow> sys_inv (sys\<lparr>current_time := tm\<rparr>)"
  and stopped_inv: "sys_inv sys \<Longrightarrow> sys_inv (sys\<lparr>stopped := b\<rparr>)"
  by (simp_all add: sys_inv_def table_inv_def service_inv_def places_def at_place_def place_ctx_def
      exists_service_def cong: place.case_cong service.case_cong)

text \<open>No \<open>CHECK\<close> fails and no null pointer is followed, and the invariant is kept.\<close>

lemma call_inv:
  assumes inv: "sys_inv sys" and a: "enabled a sys"
    and call: "\<forall>t es b. a \<notin> {CallWait t es, CallYield t, IdleLoop b t, MessageLoop t, HandlerReturn t,
      MainReturn t, GetReady t, Switch t, ResumePrevious t, ResumeCurrent t, RecheckEvents t}"
  shows "\<exists>sys'. perform a sys = Some sys' \<and> sys_inv sys'"
proof -
  have grab: "\<exists>r. GrabService self h sys = Some r \<and> sys_inv (case r of Some s \<Rightarrow> f s | None \<Rightarrow> sys)"
    if "self_ok sys self h" "\<And>s. exists_service sys s \<Longrightarrow> sys_inv (f s)" for self h f
    using by_handle_inv [OF inv that(1), of f] that(2) by blast
  note wake = Wakeup_Locked_inv [OF inv]
  show ?thesis
  proof (cases a)
    case (CallWakeUp self h e)
    then obtain r where "GrabService self h sys = Some r"
      "sys_inv (case r of Some s \<Rightarrow> snd (WakeUp_ptr s e sys) | None \<Rightarrow> sys)"
      using a grab [of self h "\<lambda>s. snd (WakeUp_ptr s e sys)"] wake by (auto simp: WakeUp_ptr_def)
    then show ?thesis using CallWakeUp by (cases r) (simp_all add: WakeUp_def)
  next
    case (CallStopService self h)
    then obtain r where "GrabService self h sys = Some r"
      "sys_inv (case r of Some s \<Rightarrow> StopService_ptr s sys | None \<Rightarrow> sys)"
      using a grab [of self h "\<lambda>s. StopService_ptr s sys"] StopService_ptr_inv [OF inv] by auto
    then show ?thesis using CallStopService by (cases r) (simp_all add: StopService_def)
  next
    case (CallInterrupt self h)
    let ?f = "\<lambda>s. if status (contexts sys s) = kBlocked \<and> wait_events (contexts sys s) AND kInterrupt \<noteq> 0
      then snd (Wakeup_Locked s kInterrupt sys) else sys"
    have "sys_inv (?f s)" if "exists_service sys s" for s using wake [OF that] inv by simp
    then obtain r where "GrabService self h sys = Some r" "sys_inv (case r of Some s \<Rightarrow> ?f s | None \<Rightarrow> sys)"
      using a CallInterrupt grab [of self h ?f] by auto
    then show ?thesis using CallInterrupt by (cases r) (simp_all add: InterruptService_def Let_def)
  next
    case (CallSignal self h)
    then obtain r where "GrabService self h sys = Some r"
      "sys_inv (case r of Some s \<Rightarrow> snd (Wakeup_Locked s kSignal sys) | None \<Rightarrow> sys)"
      using a grab [of self h "\<lambda>s. snd (Wakeup_Locked s kSignal sys)"] wake by auto
    then show ?thesis using CallSignal by (cases r) (simp_all add: Signal_def)
  next
    case (CallSend self h msg)
    with a have "self_ok sys self h" by simp
    from SendMessage_inv [OF inv this] obtain b sys' where
      "SendMessage self h msg sys = Some (b, sys')" "sys_inv sys'" .
    with CallSend show ?thesis by simp
  next
    case (IdleLoop b t)
    then show ?thesis using call [rule_format, of t 0 b] by simp
  qed (use a call inv wake in \<open>simp_all add: LaunchService_inv WakeUp_ptr_def StopService_ptr_inv
      OnIOReady_inv WaitIO_begin_inv clock_inv stopped_inv\<close>)
qed

lemma perform_inv:
  assumes inv: "sys_inv sys" and a: "enabled a sys"
  shows "\<exists>sys'. perform a sys = Some sys' \<and> sys_inv sys'"
proof -
  have user: "t < worker_num sys \<and> tpc sys t = Running \<and> ucontext (contexts sys (cur sys t)) = InUser
      \<and> (is_idle (cur sys t) \<longleftrightarrow> cur sys t = IdleService t)" if "in_user sys t" for t
    using that not_idle_cur(1) [OF inv] by (simp add: in_user_def)
  show ?thesis
  proof (cases a)
    case (CallWait t es)
    with a user show ?thesis using Wait_inv [OF inv, of t es] by auto
  next
    case (CallYield t)
    with a user show ?thesis using Schedule_inv [OF inv] by (simp add: Yield_def)
  next
    case (IdleLoop b t)
    with a have t: "in_user sys t" "cur sys t = IdleService t" by simp_all
    have "running_ctx (cur sys t) (contexts sys (cur sys t))"
      using at_cur [OF inv, of t] user [OF t(1)] by (simp add: cur_ctx_def)
    then have "service_type (contexts sys (cur sys t)) = kUserThreadService"
      using t(2) by (simp add: running_ctx_def on_cpu_def)
    then show ?thesis
      using IdleLoop user [OF t(1)] Schedule_inv [OF inv, of t] MainReturn_inv [OF inv t(1)]
      by (simp add: IdleService_Main_def)
  next
    case (MessageLoop t)
    with a show ?thesis using MessageLoop_inv [OF inv, of t] by auto
  next
    case (HandlerReturn t)
    with a show ?thesis using HandlerReturn_inv [OF inv] by simp
  next
    case (MainReturn t)
    with a show ?thesis using MainReturn_inv [OF inv] by simp
  next
    case (GetReady t)
    with a show ?thesis using GetReady_inv [OF inv] by simp
  next
    case (Switch t)
    with a obtain s where s: "t < worker_num sys" "tpc sys t = Switching s"
      by (auto split: thread_pc.splits)
    from Switch_inv [OF inv this] obtain sys' where "SwitchTo t (cur sys t) s sys = Some sys'" "sys_inv sys'" .
    with s Switch show ?thesis by simp
  next
    case (ResumePrevious t)
    with a show ?thesis using OnResume_prev_inv [OF inv, of t] by auto
  next
    case (ResumeCurrent t)
    with a show ?thesis using Resume_inv [OF inv, of t] by auto
  next
    case (RecheckEvents t)
    with a show ?thesis using Recheck_inv [OF inv, of t] by (metis enabled.simps(19) perform.simps(22))
  qed (use call_inv [OF inv a] in simp_all)
qed

lemma sys_step_inv: "sys_step sys sys' \<Longrightarrow> sys_inv sys \<Longrightarrow> sys_inv sys'"
  using perform_inv by (metis option.inject sys_stepE)

lemma sys_reachable_inv: "sys_reachable sys \<Longrightarrow> sys_inv sys"
  by (induction rule: sys_reachable.induct) (auto intro: System_Start_inv sys_step_inv)

end
