(* ===== verification/Scheduler_Properties.thy ===== *)
theory Scheduler_Properties
  imports Scheduler_Safety
begin

text \<open>
  What the invariant of the scheduler gives its users: nobody aborts, nobody runs a service twice,
  no wake-up and no message is lost, waiting returns exactly when it should, and a queued service
  gets to run.  The last section is about \<open>Service::Yield\<close>.
\<close>

section \<open>Consequences of the invariant\<close>

lemma service_inv_reachable: "sys_reachable sys \<Longrightarrow> service_inv sys s"
  using sys_reachable_inv [of sys] by (simp add: sys_inv_def)

lemma place_unique:
  assumes "sys_reachable sys" "r \<in> places sys s" "r' \<in> places sys s"
  shows "r = r'"
  using service_inv_reachable [OF assms(1), of s]
  by (cases rule: service_inv_cases) (use assms(2,3) in auto)

lemma blocked_cases:
  assumes "sys_reachable sys" "status (contexts sys s) = kBlocked"
  obtains (asleep) "places sys s = {}" "\<not> is_swaping_out (contexts sys s)" "blocked_ctx s (contexts sys s)"
    | (leaving) t where "t < worker_num sys" "is_swaping_out (contexts sys s)" "waiting_ctx s (contexts sys s)"
        "cur sys t = s \<and> (tpc sys t = Scheduling \<or> (\<exists>s'. tpc sys t = Switching s')) \<or>
         prev_service (perthread sys t) = Some s \<and> tpc sys t = ResumePrev"
proof -
  from service_inv_reachable [OF assms(1), of s] show thesis
  proof (cases rule: service_inv_cases)
    case free
    with assms(2) show thesis
      by (intro asleep) (auto simp: free_ctx_def on_cpu_def retired_ctx_def)
  next
    case (at r)
    then have r: "r \<in> places sys s" by simp
    show thesis
    proof (cases r)
      case (Cur t)
      with r at(5) assms(2) show thesis
        by (intro leaving [of t])
          (auto simp: places_iff place_ctx_def cur_ctx_def running_ctx_def on_cpu_def leaving_ctx_def
            waiting_ctx_def retired_ctx_def ready_ctx_def recheck_ctx_def split: thread_pc.splits)
    next
      case (Prev t)
      with r at(5) assms(2) show thesis
        by (intro leaving [of t])
          (auto simp: places_iff place_ctx_def leaving_ctx_def waiting_ctx_def on_cpu_def retired_ctx_def)
    qed (use r at(5) assms(2) in \<open>auto simp: place_ctx_def ready_ctx_def\<close>)
  qed
qed

lemma ready_cases:
  assumes "sys_reachable sys" "status (contexts sys (LaunchedService i)) = kReady"
  shows "LaunchedService i \<in> set (run_queue sys) \<or>
    (\<exists>t<worker_num sys. tpc sys t = Switching (LaunchedService i) \<or>
       cur sys t = LaunchedService i \<and> (tpc sys t = ResumePrev \<or> tpc sys t = ResumeCur))"
proof -
  let ?s = "LaunchedService i"
  from service_inv_reachable [OF assms(1), of ?s] show ?thesis
  proof (cases rule: service_inv_cases)
    case free
    with assms(2) show ?thesis by (auto simp: free_ctx_def on_cpu_def retired_ctx_def blocked_ctx_def)
  next
    case (at r)
    then have r: "r \<in> places sys ?s" by simp
    with at(5) assms(2) show ?thesis
      by (cases r)
        (auto simp: places_iff place_ctx_def cur_ctx_def running_ctx_def on_cpu_def leaving_ctx_def
          waiting_ctx_def retired_ctx_def recheck_ctx_def split: thread_pc.splits)
  qed
qed

section \<open>Example states\<close>

text \<open>
  The states the witnesses of the properties use, all with one worker thread.  In \<open>idling\<close> the idle
  service runs.  In \<open>asleep17\<close> a message-driven service waits for its first message.  In \<open>leaving17\<close>
  a user thread has called \<open>Wait\<close>, was signalled while it was being switched out, and the thread
  is about to let it go.
\<close>

definition idling :: "nat system" where
  "idling = the (run_actions [ResumePrevious 0, ResumeCurrent 0] (System_Start 1))"

definition asleep17 :: "nat system" where
  "asleep17 = the (run_actions [CallLaunch kMessageDrivenService] idling)"

definition in_user17 :: "nat system" where
  "in_user17 = the (run_actions
     [CallLaunch kUserThreadService, IdleLoop False 0, GetReady 0, Switch 0, ResumePrevious 0, ResumeCurrent 0] idling)"

definition leaving17 :: "nat system" where
  "leaving17 = the (run_actions
     [CallWait 0 (kSignal OR kInterrupt), CallSignal None 17, GetReady 0, Switch 0] in_user17)"

lemma reachable_the_run:
  assumes "sys_reachable sys" "\<not> Option.is_none (run_actions as sys)"
  shows "sys_reachable (the (run_actions as sys))"
  using assms reachable_run [of sys as] by (cases "run_actions as sys") auto

lemma example_states_reachable:
  "sys_reachable idling" "sys_reachable asleep17" "sys_reachable in_user17" "sys_reachable leaving17"
proof -
  show i: "sys_reachable idling"
    unfolding idling_def by (rule reachable_the_run [OF start]) code_simp
  show "sys_reachable asleep17"
    unfolding asleep17_def by (rule reachable_the_run [OF i]) code_simp
  show u: "sys_reachable in_user17"
    unfolding in_user17_def by (rule reachable_the_run [OF i]) code_simp
  show "sys_reachable leaving17"
    unfolding leaving17_def by (rule reachable_the_run [OF u]) code_simp
qed

section \<open>Safety\<close>



text \<open>
  C2: a service is in one place only.  The run queue never holds a service twice; two worker threads
  never have the same current service; a service in the run queue is not the current service of any
  thread; and the service that a thread is about to switch to is neither queued nor current anywhere
  else.
\<close>

theorem service_in_one_place:
  assumes "sys_reachable sys" and "t < worker_num sys" "tpc sys t \<noteq> Stopped"
  shows "distinct (run_queue sys) \<and>
    (\<forall>u<worker_num sys. tpc sys u \<noteq> Stopped \<and> cur sys u = cur sys t \<longrightarrow> u = t) \<and>
    cur sys t \<notin> set (run_queue sys) \<and>
    (\<forall>s. tpc sys t = Switching s \<and> cur sys t \<noteq> s \<longrightarrow> s \<notin> set (run_queue sys) \<and>
       (\<forall>u<worker_num sys. tpc sys u \<noteq> Stopped \<longrightarrow> cur sys u \<noteq> s))"
proof -
  note one = place_unique [OF assms(1)]
  have cur: "Cur t \<in> places sys (cur sys t)" using assms(2,3) by (simp add: places_iff)
  have "distinct (run_queue sys)"
    using sys_reachable_inv [OF assms(1)] by (simp add: sys_inv_def table_inv_def)
  moreover have "\<forall>u<worker_num sys. tpc sys u \<noteq> Stopped \<and> cur sys u = cur sys t \<longrightarrow> u = t"
    using one [OF cur] places_iff(2) [of _ sys "cur sys t"] by blast
  moreover have "cur sys t \<notin> set (run_queue sys)"
    using one [OF cur] places_iff(1) [of sys "cur sys t"] by blast
  moreover have "s \<notin> set (run_queue sys) \<and> (\<forall>u<worker_num sys. tpc sys u \<noteq> Stopped \<longrightarrow> cur sys u \<noteq> s)"
    if "tpc sys t = Switching s \<and> cur sys t \<noteq> s" for s
  proof -
    from that have "Next t \<in> places sys s" using assms(2) by (simp add: places_iff)
    then show ?thesis
      using one [of "Next t" s] places_iff(1) [of sys s] places_iff(2) [of _ sys s] by blast
  qed
  ultimately show ?thesis by blast
qed

theorem service_in_one_place_witness:
  "distinct (run_queue leaving17) \<and> cur leaving17 0 \<notin> set (run_queue leaving17)"
proof -
  have "0 < worker_num leaving17" "tpc leaving17 0 \<noteq> Stopped" by code_simp+
  from service_in_one_place [OF example_states_reachable(4) this] show ?thesis by blast
qed

text \<open>
  C3: no wake-up is lost.  If a blocked service has received an event it waits for, then it is still
  being switched out, its wake-up is noted in \<open>wakeup_signal\<close>, and some worker thread is on the way
  from the service to the first half of \<open>OnResume\<close>, which requeues it (lemma \<open>resume_requeues\<close>).  So a blocked
  service that no thread is leaving has received nothing it waits for.
\<close>

theorem no_lost_wakeup:
  assumes "sys_reachable sys" "status (contexts sys s) = kBlocked"
    and "wait_events (contexts sys s) AND events (contexts sys s) \<noteq> 0"
  shows "is_swaping_out (contexts sys s) \<and> wakeup_signal (contexts sys s) \<and>
    (\<exists>t<worker_num sys.
       cur sys t = s \<and> (tpc sys t = Scheduling \<or> (\<exists>s'. tpc sys t = Switching s')) \<or>
       prev_service (perthread sys t) = Some s \<and> tpc sys t = ResumePrev)"
  using assms(1,2)
proof (cases rule: blocked_cases)
  case asleep
  with assms(3) show ?thesis by (simp add: blocked_ctx_def)
next
  case (leaving t)
  with assms(3) show ?thesis by (auto simp: waiting_ctx_def)
qed

theorem no_lost_wakeup_witness:
  "is_swaping_out (contexts leaving17 (LaunchedService 17)) \<and>
   wakeup_signal (contexts leaving17 (LaunchedService 17))"
proof -
  have "status (contexts leaving17 (LaunchedService 17)) = kBlocked"
    "wait_events (contexts leaving17 (LaunchedService 17)) AND
     events (contexts leaving17 (LaunchedService 17)) \<noteq> 0" by code_simp+
  from no_lost_wakeup [OF example_states_reachable(4) this] show ?thesis by simp
qed

text \<open>
  A noted wake-up is honoured.  When a worker thread reaches the first half of \<open>OnResume\<close>
  coming from a service that has meanwhile received an event it waits for, the service is made
  ready and appended to the run queue.
\<close>

lemma resume_requeues:
  assumes "sys_reachable sys" "t < worker_num sys" "tpc sys t = ResumePrev"
    and "prev_service (perthread sys t) = Some s" "status (contexts sys s) = kBlocked"
    and "wait_events (contexts sys s) AND events (contexts sys s) \<noteq> 0"
  shows "\<exists>sys'. OnResume_prev t sys = Some sys' \<and> run_queue sys' = run_queue sys @ [s] \<and>
    status (contexts sys' s) = kReady \<and> \<not> is_swaping_out (contexts sys' s) \<and> tpc sys' t = ResumeCur"
proof -
  from assms(1,5) have w: "waiting_ctx s (contexts sys s)"
  proof (cases rule: blocked_cases)
    case asleep
    with assms(6) show ?thesis by (simp add: blocked_ctx_def)
  qed
  have "at_place sys (Prev t) s" using assms(2-4) by (simp add: at_place_def)
  then have "exists_service sys s"
    by (rule service_invD(2) [OF service_inv_reachable [OF assms(1)]])
  moreover have "\<not> is_idle s" using w by (simp add: waiting_ctx_def)
  ultimately have "handle_index s \<noteq> idle_service_index"
    by (cases s) (auto simp: exists_service_def idle_service_index_def)
  then show ?thesis
    using w assms(4,6)
    by (auto simp: OnResume_prev_def Let_def waiting_ctx_def IsIdleService_def PutReadyService_def tsq_push_def)
qed

text \<open>
  The types of the scheduler's state.  The table maps a handle to the service that was launched with
  it; only a message-driven service is in the message loop or waits in it, so every service runs the
  main function of its type; only launched services are queued; the current service of a thread is
  its own idle service or a launched one.
\<close>

definition well_typed :: "'m system \<Rightarrow> bool" where
  "well_typed sys \<longleftrightarrow>
     (\<forall>h s. services sys h = Some s \<longrightarrow> s = LaunchedService h \<and> 16 < h \<and> h \<le> service_index_alloc sys) \<and>
     (\<forall>s. ucontext (contexts sys s) \<in> {InLoop, InLoopWait} \<longrightarrow>
        service_type (contexts sys s) = kMessageDrivenService) \<and>
     (\<forall>s \<in> set (run_queue sys). \<exists>h. s = LaunchedService h \<and> 16 < h \<and> h \<le> service_index_alloc sys) \<and>
     (\<forall>t<worker_num sys. tpc sys t \<noteq> Stopped \<longrightarrow>
        (case cur sys t of
           IdleService u \<Rightarrow> u = t
         | LaunchedService h \<Rightarrow> 16 < h \<and> h \<le> service_index_alloc sys))"

text \<open>The worker thread that makes a move, and the moves a thread makes on its own.\<close>

fun moves :: "nat \<Rightarrow> 'm action \<Rightarrow> bool" where
  "moves t (IdleLoop _ u) = (t = u)"
| "moves t (MessageLoop u) = (t = u)"
| "moves t (HandlerReturn u) = (t = u)"
| "moves t (MainReturn u) = (t = u)"
| "moves t (GetReady u) = (t = u)"
| "moves t (Switch u) = (t = u)"
| "moves t (ResumePrevious u) = (t = u)"
| "moves t (ResumeCurrent u) = (t = u)"
| "moves t (RecheckEvents u) = (t = u)"
| "moves t _ = False"

lemma reachable_well_typed:
  assumes "sys_reachable sys"
  shows "well_typed sys"
proof -
  note inv = sys_reachable_inv [OF assms]
  have ex: "exists_service sys s \<and> \<not> is_idle s" if "s \<in> set (run_queue sys)" for s
    using that service_invD [OF service_inv_reachable [OF assms], of Queued s]
    by (auto simp: at_place_def place_ctx_def)
  have run: "\<exists>h. s = LaunchedService h \<and> 16 < h \<and> h \<le> service_index_alloc sys" if "s \<in> set (run_queue sys)" for s
    using ex [OF that] by (cases s) (simp_all add: exists_service_def)
  have cur: "case cur sys t of IdleService u \<Rightarrow> u = t | LaunchedService h \<Rightarrow> 16 < h \<and> h \<le> service_index_alloc sys"
    if "t < worker_num sys" "tpc sys t \<noteq> Stopped" for t
    using at_cur [OF inv that] by (cases "cur sys t") (simp_all add: exists_service_def)
  have "service_type (contexts sys s) = kMessageDrivenService"
    if "ucontext (contexts sys s) \<in> {InLoop, InLoopWait}" for s
    using service_inv_reachable [OF assms, of s] that by (auto simp: service_inv_def context_ok_def)
  moreover have "s = LaunchedService h \<and> 16 < h \<and> h \<le> service_index_alloc sys" if "services sys h = Some s" for h s
  proof -
    from inv that have "s = LaunchedService h" "exists_service sys s" unfolding sys_inv_def table_inv_def by blast+
    then show ?thesis by (simp add: exists_service_def)
  qed
  ultimately show ?thesis using run cur unfolding well_typed_def by blast
qed

lemma move_enabled:
  assumes inv: "sys_inv sys" and t: "t < worker_num sys" "tpc sys t \<noteq> Stopped"
  shows "\<exists>a. moves t a \<and> enabled a sys"
proof (cases "tpc sys t")
  case Running
  let ?c = "contexts sys (cur sys t)"
  have "running_ctx (cur sys t) ?c" using at_cur [OF inv t] Running by (simp add: cur_ctx_def)
  then consider "ucontext ?c = InLoop" | "ucontext ?c = InUser" by (auto simp: running_ctx_def)
  then show ?thesis
  proof cases
    case 1
    then show ?thesis using t(1) Running by (intro exI [of _ "MessageLoop t"]) simp
  next
    case 2
    then have u: "in_user sys t" using t(1) Running by (simp add: in_user_def)
    show ?thesis
    proof (cases "cur sys t = IdleService t")
      case True
      then show ?thesis using u by (intro exI [of _ "IdleLoop False t"]) simp
    next
      case False
      then show ?thesis
        using u exI [of "\<lambda>a. moves t a \<and> enabled a sys" "HandlerReturn t"]
          exI [of "\<lambda>a. moves t a \<and> enabled a sys" "MainReturn t"]
        by (cases "service_type ?c") simp_all
    qed
  qed
next
  case Scheduling
  then show ?thesis using t by (intro exI [of _ "GetReady t"]) simp
next
  case (Switching s)
  then show ?thesis using t by (intro exI [of _ "Switch t"]) simp
next
  case ResumePrev
  then show ?thesis using t by (intro exI [of _ "ResumePrevious t"]) simp
next
  case ResumeCur
  then show ?thesis using t by (intro exI [of _ "ResumeCurrent t"]) simp
next
  case Recheck
  then show ?thesis using t by (intro exI [of _ "RecheckEvents t"]) simp
qed (use t in simp)

text \<open>
  C4: the scheduler is type sound.  In every reachable state the table, the run queue and the
  threads hold services of the right kind, and every service is where its type allows; and every
  worker thread that has not returned can go on: it has a move, the move succeeds, and it leads to a
  well-typed state again.
\<close>

theorem scheduler_type_soundness:
  assumes "sys_reachable sys"
  shows "well_typed sys \<and>
    (\<forall>t<worker_num sys. tpc sys t \<noteq> Stopped \<longrightarrow>
       (\<exists>a sys'. moves t a \<and> enabled a sys \<and> perform a sys = Some sys' \<and> well_typed sys'))"
proof -
  have "\<exists>a sys'. moves t a \<and> enabled a sys \<and> perform a sys = Some sys' \<and> well_typed sys'"
    if t: "t < worker_num sys" "tpc sys t \<noteq> Stopped" for t
  proof -
    obtain a where a: "moves t a" "enabled a sys"
      using move_enabled [OF sys_reachable_inv [OF assms] t] by blast
    obtain sys' where "perform a sys = Some sys'"
      using perform_inv [OF sys_reachable_inv [OF assms] a(2)] by blast
    with a show ?thesis using reachable_well_typed [OF reachable_perform [OF assms a(2)]] by blast
  qed
  then show ?thesis using reachable_well_typed [OF assms] by blast
qed

theorem scheduler_type_soundness_witness:
  "well_typed leaving17 \<and> (\<exists>a sys'. moves 0 a \<and> perform a leaving17 = Some sys' \<and> well_typed sys')"
proof -
  have "0 < worker_num leaving17" "tpc leaving17 0 \<noteq> Stopped" by code_simp+
  with scheduler_type_soundness [OF example_states_reachable(4)] show ?thesis by blast
qed

text \<open>
  C5: a wake-up of a sleeping service schedules it.  Waking a blocked service that no thread is
  leaving, with an event it waits for, returns \<open>true\<close>, makes the service ready and appends it to the
  run queue; a wake-up with other events only records them.
\<close>

theorem wakeup_schedules:
  assumes "sys_reachable sys" "exists_service sys s"
    and "status (contexts sys s) = kBlocked" "\<not> is_swaping_out (contexts sys s)"
  shows "fst (Wakeup_Locked s e sys) = (wait_events (contexts sys s) AND e \<noteq> 0) \<and>
    (let sys' = snd (Wakeup_Locked s e sys)
     in events (contexts sys' s) = events (contexts sys s) OR e \<and>
        (if wait_events (contexts sys s) AND e \<noteq> 0
         then run_queue sys' = run_queue sys @ [s] \<and> status (contexts sys' s) = kReady
         else run_queue sys' = run_queue sys \<and> status (contexts sys' s) = kBlocked))"
proof -
  have "\<not> is_idle s"
    using blocked_is_free(2) [OF sys_reachable_inv [OF assms(1)] assms(3,4)] by (simp add: blocked_ctx_def)
  then have "handle_index s \<noteq> idle_service_index"
    using assms(2) by (cases s) (auto simp: exists_service_def idle_service_index_def)
  then show ?thesis
    using assms(3,4)
    by (simp add: Wakeup_Locked_def Let_def PutReadyService_def tsq_push_def)
qed

theorem wakeup_schedules_witness:
  "run_queue (snd (Wakeup_Locked (LaunchedService 17) kMessage asleep17)) =
   run_queue asleep17 @ [LaunchedService 17]"
proof -
  have a: "exists_service asleep17 (LaunchedService 17)"
    "status (contexts asleep17 (LaunchedService 17)) = kBlocked"
    "\<not> is_swaping_out (contexts asleep17 (LaunchedService 17))" by code_simp+
  have "wait_events (contexts asleep17 (LaunchedService 17)) AND kMessage \<noteq> 0" by code_simp
  then show ?thesis
    using wakeup_schedules [OF example_states_reachable(2) a, of kMessage] by (simp add: Let_def)
qed


definition woken17 :: "nat system" where
  "woken17 = the (run_actions
     [ResumePrevious 0, ResumeCurrent 0, IdleLoop False 0, GetReady 0, Switch 0, ResumePrevious 0, ResumeCurrent 0]
     leaving17)"

lemma woken17_reachable: "sys_reachable woken17"
  unfolding woken17_def by (rule reachable_the_run [OF example_states_reachable(4)]) code_simp


text \<open>
  C7: a ready service is never forgotten: it is in the run queue, or a worker thread has taken it and
  is on its way to running it.
\<close>

theorem ready_service_not_forgotten:
  assumes "sys_reachable sys" "status (contexts sys (LaunchedService i)) = kReady"
  shows "LaunchedService i \<in> set (run_queue sys) \<or>
    (\<exists>t<worker_num sys. tpc sys t = Switching (LaunchedService i) \<or>
       cur sys t = LaunchedService i \<and> (tpc sys t = ResumePrev \<or> tpc sys t = ResumeCur))"
  using assms by (rule ready_cases)

definition queued17 :: "nat system" where
  "queued17 = the (run_actions [CallSend None 17 5, IdleLoop False 0] asleep17)"

lemma queued17_reachable: "sys_reachable queued17"
  unfolding queued17_def by (rule reachable_the_run [OF example_states_reachable(2)]) code_simp

theorem ready_service_not_forgotten_witness:
  "LaunchedService 17 \<in> set (run_queue queued17) \<or>
    (\<exists>t<worker_num queued17. tpc queued17 t = Switching (LaunchedService 17) \<or>
       cur queued17 t = LaunchedService 17 \<and> (tpc queued17 t = ResumePrev \<or> tpc queued17 t = ResumeCur))"
proof (rule ready_service_not_forgotten [OF queued17_reachable])
  show "status (contexts queued17 (LaunchedService 17)) = kReady" by code_simp
qed

text \<open>
  C8: a queued service gets to run.  From any reachable state in which a worker thread is scheduling
  and the run queue starts with \<open>s\<close>, the four moves of that thread (\<open>GetReadyService\<close>, \<open>SwitchTo\<close>,
  the two halves of \<open>OnResume\<close>) succeed, and then \<open>s\<close> is the thread's current service, its status
  is \<open>kRunning\<close>, and its own code is executing.
\<close>

theorem queue_head_runs:
  assumes "sys_reachable sys" "t < worker_num sys" "tpc sys t = Scheduling" "run_queue sys = s # q"
  shows "\<exists>sys'. run_actions [GetReady t, Switch t, ResumePrevious t, ResumeCurrent t] sys = Some sys' \<and>
    cur sys' t = s \<and> status (contexts sys' s) = kRunning \<and> tpc sys' t \<in> {Running, Recheck} \<and>
    run_queue sys' \<in> {q, q @ [cur sys t]}"
proof -
  have s: "cur sys t \<noteq> s"
  proof
    assume "cur sys t = s"
    then have "Cur t \<in> places sys s" "Queued \<in> places sys s" using assms(2-4) by (simp_all add: places_iff)
    from place_unique [OF assms(1) this] show False by simp
  qed
  let ?s1 = "Schedule_GetReady t sys"
  have s1: "perform (GetReady t) sys = Some ?s1" "tpc ?s1 t = Switching s" "cur ?s1 t = cur sys t"
    "run_queue ?s1 = q" "worker_num ?s1 = worker_num sys"
    using assms(4) by (simp_all add: Schedule_GetReady_def GetReadyService_def)
  have r1: "sys_reachable ?s1" by (rule reachable_perform [OF assms(1) _ s1(1)]) (use assms in simp)
  obtain s2 where s2: "perform (Switch t) ?s1 = Some s2" "tpc s2 t = ResumePrev" "cur s2 t = s"
    "prev_service (perthread s2 t) = Some (cur sys t)" "run_queue s2 = q" "worker_num s2 = worker_num sys"
    using s1 s by (simp add: SwitchTo_def Let_def)
  have r2: "sys_reachable s2"
    by (rule reachable_perform [OF r1 _ s2(1)]) (use assms s1 in simp)
  have "enabled (ResumePrevious t) s2" using assms(2) s2 by simp
  with perform_inv [OF sys_reachable_inv [OF r2]] obtain s3 where s3: "perform (ResumePrevious t) s2 = Some s3"
    by blast
  then have s3': "tpc s3 t = ResumeCur" "cur s3 t = s" "run_queue s3 \<in> {q, q @ [cur sys t]}"
    "worker_num s3 = worker_num sys"
    using s2 by (auto simp: OnResume_prev_def Let_def PutReadyService_def tsq_push_def split: if_splits)
  have r3: "sys_reachable s3"
    by (rule reachable_perform [OF r2 _ s3]) (use assms s2 in simp)
  have "enabled (ResumeCurrent t) s3" using assms(2) s3' by simp
  with perform_inv [OF sys_reachable_inv [OF r3]] obtain s4 where s4: "perform (ResumeCurrent t) s3 = Some s4"
    by blast
  then have "cur s4 t = s" "status (contexts s4 s) = kRunning" "tpc s4 t \<in> {Running, Recheck}"
    "run_queue s4 = run_queue s3"
    using s3' by (auto simp: Resume_def OnResume_cur_def after_Schedule_def Let_def
        split: if_splits ucontext.splits)
  then show ?thesis using assms(2,3) s1 s2 s3 s3' s4 by simp
qed

theorem queue_head_runs_witness:
  "\<exists>sys'. run_actions [GetReady 0, Switch 0, ResumePrevious 0, ResumeCurrent 0] queued17 = Some sys' \<and>
     cur sys' 0 = LaunchedService 17"
proof -
  have "0 < worker_num queued17" "tpc queued17 0 = Scheduling" "run_queue queued17 = [LaunchedService 17]"
    by code_simp+
  from queue_head_runs [OF queued17_reachable this] show ?thesis by blast
qed

section \<open>Messages and stopping\<close>

text \<open>
  C9: messages are delivered in order, once.  The messages \<open>SendMessage\<close> accepted for a service
  are, in the order of acceptance, those its \<open>HandleMessage\<close> has been given followed by those still
  in its queue; and a message-driven service that has died was given every message it accepted.
\<close>

theorem messages_in_order_once:
  assumes "sys_reachable sys"
  shows "accepted (contexts sys s) = handled (contexts sys s) @ msg_queue (contexts sys s) \<and>
    (status (contexts sys s) = kDead \<and> service_type (contexts sys s) = kMessageDrivenService \<longrightarrow>
     handled (contexts sys s) = accepted (contexts sys s))"
proof -
  have "context_ok (contexts sys s)"
    using service_inv_reachable [OF assms, of s] by (simp add: service_inv_def)
  then show ?thesis by (auto simp: context_ok_def)
qed

theorem messages_in_order_once_witness:
  "accepted (contexts queued17 (LaunchedService 17)) =
   handled (contexts queued17 (LaunchedService 17)) @ msg_queue (contexts queued17 (LaunchedService 17))"
  using messages_in_order_once [OF queued17_reachable] by blast



section \<open>Yielding\<close>

text \<open>
  \<open>Service::Yield\<close> is a bare \<open>Schedule\<close>: it does not put the service back into the run queue.  A
  service that is nowhere while its status is \<open>kRunning\<close> waits for no event, so nothing can ever
  schedule it again.
\<close>

definition stranded :: "'m system \<Rightarrow> service \<Rightarrow> bool" where
  "stranded sys s \<longleftrightarrow>
     \<not> is_idle s \<and> exists_service sys s \<and> status (contexts sys s) = kRunning \<and>
     wait_events (contexts sys s) = 0 \<and> s \<notin> set (run_queue sys) \<and>
     (\<forall>t<worker_num sys. (cur sys t = s \<longrightarrow> tpc sys t = Stopped) \<and> tpc sys t \<noteq> Switching s \<and>
        (prev_service (perthread sys t) = Some s \<longrightarrow> tpc sys t \<noteq> ResumePrev))"

lemma stranded_call:
  assumes "stranded sys s"
  shows "stranded (snd (Wakeup_Locked x e sys)) s" "stranded (StopService_ptr x sys) s"
    "stranded (OnIOReady x ioev sys) s" "stranded (WaitIO_begin t fd sys) s"
  using assms
  by (auto simp: stranded_def Wakeup_Locked_def StopService_ptr_def OnIOReady_def PutReadyService_def
      WaitIO_begin_def SetServiceFD_def
      exists_service_def tsq_push_def Let_def split: service.splits)

lemma stranded_send:
  assumes "stranded sys s" "SendMessage self h msg sys = Some (b, sys')"
  shows "stranded sys' s"
  using assms
  by (auto simp: stranded_def SendMessage_def Wakeup_Locked_def PutReadyService_def
      exists_service_def tsq_push_def Let_def bind_eq_Some_conv split: service.splits option.splits if_splits)

lemma stranded_launch:
  assumes "stranded sys s"
  shows "stranded (snd (LaunchService ty sys)) s"
proof -
  have "s \<noteq> LaunchedService (service_index_alloc sys + 1)"
    using assms by (auto simp: stranded_def exists_service_def)
  then show ?thesis
    using assms
    by (auto simp: LaunchService_eq stranded_def Wakeup_Locked_def PutReadyService_def AddService_def
        exists_service_def tsq_push_def Let_def split: service.splits)
qed

text \<open>The moves of a thread touch its current, its previous, its idle and the queue's first service.\<close>

lemma stranded_move:
  assumes str: "stranded sys s" and t: "t < worker_num sys" "tpc sys t \<noteq> Stopped"
  shows "Wait t es sys = Some sys' \<Longrightarrow> stranded sys' s"
    and "stranded (Schedule t u sys) s"
    and "MessageDrivenServiceMain t sys = Some sys' \<Longrightarrow> stranded sys' s"
    and "stranded (HandleMessage_return t sys) s"
    and "stranded (UserThreadServiceMain_return t sys) s"
    and "stranded (Schedule_GetReady t sys) s"
    and "tpc sys t = Switching x \<Longrightarrow> SwitchTo t (cur sys t) x sys = Some sys' \<Longrightarrow> stranded sys' s"
    and "tpc sys t = ResumePrev \<Longrightarrow> OnResume_prev t sys = Some sys' \<Longrightarrow> stranded sys' s"
    and "Resume t sys = Some sys' \<Longrightarrow> stranded sys' s"
    and "Wait_Recheck t sys = Some sys' \<Longrightarrow> stranded sys' s"
proof -
  have s: "cur sys t \<noteq> s" "tpc sys t \<noteq> Switching s" "s \<noteq> IdleService t" "\<not> is_idle s"
    "tpc sys t = ResumePrev \<Longrightarrow> prev_service (perthread sys t) \<noteq> Some s" "s \<notin> set (run_queue sys)"
    using str t by (auto simp: stranded_def)
  note d = stranded_def exists_service_def Let_def set_context_def set_thread_def goto_def
    SetServiceStatus_def RemoveService_def return_events_def
  show "Wait t es sys = Some sys' \<Longrightarrow> stranded sys' s"
    using str s unfolding Wait_def Wait_Locked_def
    by (auto simp: d bind_eq_Some_conv split: service.splits if_splits)
  show "stranded (Schedule t u sys) s"
    using str s unfolding Schedule_def by (auto simp: d split: service.splits)
  show "MessageDrivenServiceMain t sys = Some sys' \<Longrightarrow> stranded sys' s"
    using str s unfolding MessageDrivenServiceMain_def Wait_Locked_def Schedule_def
    by (auto simp: d bind_eq_Some_conv split: service.splits if_splits list.splits)
  show "stranded (HandleMessage_return t sys) s"
    using str s unfolding HandleMessage_return_def by (auto simp: d split: service.splits)
  show "stranded (UserThreadServiceMain_return t sys) s"
    using str s unfolding UserThreadServiceMain_return_def Schedule_def
    by (auto simp: d split: service.splits)
  show "stranded (Schedule_GetReady t sys) s"
    using str s unfolding Schedule_GetReady_def GetReadyService_def tsq_pop_def
    by (cases "run_queue sys") (auto simp: d split: service.splits)
  show "stranded sys' s" if "tpc sys t = Switching x" "SwitchTo t (cur sys t) x sys = Some sys'"
    using str s that unfolding SwitchTo_def after_Schedule_def
    by (auto simp: d split: service.splits if_splits ucontext.splits)
  show "stranded sys' s" if "tpc sys t = ResumePrev" "OnResume_prev t sys = Some sys'"
    using str s that unfolding OnResume_prev_def PutReadyService_def tsq_push_def
    by (auto simp: d split: service.splits if_splits option.splits)
  show "Resume t sys = Some sys' \<Longrightarrow> stranded sys' s"
    using str s unfolding Resume_def OnResume_cur_def after_Schedule_def
    by (auto simp: d split: service.splits if_splits ucontext.splits)
  show "Wait_Recheck t sys = Some sys' \<Longrightarrow> stranded sys' s"
    using str s unfolding Wait_Recheck_def
    by (auto simp: d split: service.splits if_splits)
qed

lemma stranded_perform:
  assumes str: "stranded sys s" and en: "enabled a sys" and step: "perform a sys = Some sys'"
  shows "stranded sys' s"
proof -
  note call = stranded_call [OF str] and move = stranded_move [OF str]
  have pc: "t < worker_num sys \<and> tpc sys t \<noteq> Stopped" if "in_user sys t" for t
    using that by (simp add: in_user_def)
  show ?thesis
  proof (cases a)
    case (Switch t)
    then obtain x where "t < worker_num sys" "tpc sys t = Switching x" "SwitchTo t (cur sys t) x sys = Some sys'"
      using en step by (auto split: thread_pc.splits)
    then show ?thesis using move(7) [of t] by simp
  next
    case (CallSend self h msg)
    then show ?thesis using step stranded_send [OF str] by auto
  next
    case (CallWakeUp self h e)
    then show ?thesis
      using step call str by (auto simp: WakeUp_def WakeUp_ptr_def bind_eq_Some_conv split: option.splits)
        (metis snd_conv)
  next
    case (CallStopService self h)
    then show ?thesis using step call str by (auto simp: StopService_def bind_eq_Some_conv split: option.splits)
  next
    case (CallInterrupt self h)
    then show ?thesis
      using step call str by (auto simp: InterruptService_def Let_def bind_eq_Some_conv split: option.splits if_splits)
  next
    case (CallSignal self h)
    then show ?thesis using step call str by (auto simp: Signal_def bind_eq_Some_conv split: option.splits)
  next
    case ClockTick
    then show ?thesis using step str by (auto simp: stranded_def exists_service_def split: service.splits)
  next
    case SystemStop
    then show ?thesis using step str by (auto simp: stranded_def exists_service_def split: service.splits)
  next
    case (CallWait t es)
    then show ?thesis using en step pc [of t] move(1) [of t es sys'] by simp
  qed (use en step call move pc stranded_launch [OF str] in \<open>auto simp: WakeUp_ptr_def Yield_def IdleService_Main_def\<close>)
qed

lemma stranded_forever: "sys_step\<^sup>*\<^sup>* sys sys' \<Longrightarrow> stranded sys s \<Longrightarrow> stranded sys' s"
  by (induction rule: rtranclp_induct) (auto elim!: sys_stepE intro: stranded_perform)

lemma strandedI:
  assumes "places sys s = {}" "\<not> is_idle s" "exists_service sys s"
    and "status (contexts sys s) = kRunning" "wait_events (contexts sys s) = 0"
  shows "stranded sys s"
proof -
  have none: "r \<notin> places sys s" for r using assms(1) by simp
  have "(cur sys t = s \<longrightarrow> tpc sys t = Stopped) \<and> tpc sys t \<noteq> Switching s \<and>
      (prev_service (perthread sys t) = Some s \<longrightarrow> tpc sys t \<noteq> ResumePrev)" if "t < worker_num sys" for t
    using none [of "Cur t"] none [of "Prev t"] none [of "Next t"] that by (auto simp: places_iff)
  then show ?thesis using none [of Queued] assms(2-) by (simp add: stranded_def places_iff)
qed

lemma yield_leaves:
  assumes reach: "sys_reachable sys" and en: "enabled (CallYield t) sys"
    and run: "run_actions [CallYield t, GetReady t, Switch t, ResumePrevious t] sys = Some sys'"
  shows "stranded sys' (cur sys t)"
proof -
  let ?s = "cur sys t"
  have t: "t < worker_num sys" "tpc sys t = Running" "?s \<noteq> IdleService t"
    using en by (auto simp: in_user_def)
  have c: "running_ctx ?s (contexts sys ?s)" "exists_service sys ?s" "\<not> is_idle ?s"
    using at_cur [OF sys_reachable_inv [OF reach] t(1)] not_idle_cur(1) [OF sys_reachable_inv [OF reach] t(1)] t
    by (simp_all add: cur_ctx_def)
  let ?y = "Yield t sys" let ?g = "Schedule_GetReady t ?y"
  obtain x where g: "tpc ?g t = Switching x" "cur ?g t = ?s" "worker_num ?g = worker_num sys"
    "contexts ?g ?s = (contexts sys ?s)\<lparr>ucontext := InSchedule\<rparr>" "exists_service ?g ?s"
    using t(3) c(2)
    by (cases "run_queue sys")
      (auto simp: Yield_def Schedule_def Schedule_GetReady_def GetReadyService_def SetServiceStatus_def
        exists_service_def split: service.splits)
  have eny: "enabled (GetReady t) ?y" using t(1) by (simp add: Yield_def Schedule_def)
  have rg: "sys_reachable ?g"
    by (rule reachable_run [OF reach, of "[CallYield t, GetReady t]"])
      (simp only: run_actions.simps perform.simps option.case en eny if_True)
  have "tpc ?g t \<noteq> Stopped" using g(1) by simp
  from at_cur [OF sys_reachable_inv [OF rg] _ this] have ne: "?s \<noteq> x"
    using g t(1) c(3) by (auto simp: cur_ctx_def)
  obtain w where w: "perform (Switch t) ?g = Some w" "OnResume_prev t w = Some sys'"
    using run unfolding run_actions.simps perform.simps(13,18,20) option.case
    by (simp only: if_True en eny option.case split: if_splits option.splits) simp_all
  then have w': "tpc w t = ResumePrev" "prev_service (perthread w t) = Some ?s" "worker_num w = worker_num sys"
    "exists_service w ?s" "status (contexts w ?s) = status (contexts sys ?s)"
    "wait_events (contexts w ?s) = wait_events (contexts sys ?s)" "contexts w ?s = contexts w ?s"
    using g ne by (auto simp: SwitchTo_def Let_def exists_service_def split: service.splits)
  have "sys_reachable w" by (rule reachable_perform [OF rg _ w(1)]) (use g t in simp)
  note iw = sys_reachable_inv [OF this]
  have st: "status (contexts w ?s) = kRunning" "wait_events (contexts w ?s) = 0"
    using c w' by (auto simp: running_ctx_def on_cpu_def quiet_def)
  then have sys': "sys' = set_context ?s ((contexts w ?s)\<lparr>is_swaping_out := False\<rparr>) (goto t ResumeCur w)"
    using w(2) w'(2) by (auto simp: OnResume_prev_def Let_def split: if_splits)
  have "at_place w (Prev t) ?s" using w' t(1) by (simp add: at_place_def)
  with iw have pw: "places w ?s = {Prev t}" using service_invD(1) by (auto simp: sys_inv_def)
  have "r \<in> places sys' ?s \<longleftrightarrow> r \<in> places w ?s \<and> r \<noteq> Prev t" for r
    using t(1) w' by (cases r) (auto simp: sys' places_iff)
  with pw have "places sys' ?s = {}" by blast
  then show ?thesis
    using c st w'(4) by (intro strandedI) (auto simp: sys' exists_service_def split: service.splits)
qed

text \<open>
  C11: \<open>Service::Yield\<close> strands its caller.  Once a launched service has yielded and its thread has
  switched away from it, the service is never again the current service of a worker thread and never
  again in the run queue, whatever anybody does.
\<close>

theorem yield_strands_service:
  assumes "sys_reachable sys" "enabled (CallYield t) sys"
    and "run_actions [CallYield t, GetReady t, Switch t, ResumePrevious t] sys = Some sys1"
    and "sys_step\<^sup>*\<^sup>* sys1 sys2" "u < worker_num sys2" "tpc sys2 u \<noteq> Stopped"
  shows "cur sys2 u \<noteq> cur sys t \<and> cur sys t \<notin> set (run_queue sys2)"
  using stranded_forever [OF assms(4) yield_leaves [OF assms(1-3)]] assms(5,6)
  by (auto simp: stranded_def)

theorem yield_strands_service_witness:
  "LaunchedService 17 \<notin> set (run_queue (the (run_actions
     [CallYield 0, GetReady 0, Switch 0, ResumePrevious 0] in_user17)))"
proof -
  let ?as = "[CallYield 0, GetReady 0, Switch 0, ResumePrevious 0]"
  let ?sys = "the (run_actions ?as in_user17)"
  have "\<not> Option.is_none (run_actions ?as in_user17)" by code_simp
  then have run: "run_actions ?as in_user17 = Some ?sys" by (cases "run_actions ?as in_user17") auto
  have en: "enabled (CallYield 0) in_user17" "0 < worker_num ?sys" "tpc ?sys 0 \<noteq> Stopped"
    "cur in_user17 0 = LaunchedService 17" by code_simp+
  from yield_strands_service [OF example_states_reachable(3) en(1) run rtranclp.rtrancl_refl en(2,3)] en(4)
  show ?thesis by simp
qed

end
