(* ===== verification/Status.thy ===== *)
theory Status
  imports Mcast_Prelude
begin

text \<open>
  Statuses and results (\<open>src/src/util/Status.h\<close>, \<open>src/src/util/Result.h\<close>).

  A \<open>Status\<close> is one pointer, \<open>state_\<close>: null for success, otherwise a heap buffer that holds
  the state code, the length of the text in one byte, and the text.  The model keeps both
  layers: a memory of status objects and heap buffers on which the constructors, the
  assignments, \<open>swap\<close> and the destructor work as in the source (an access outside a buffer, a
  second \<open>delete[]\<close> or the use of an object that does not exist is \<open>None\<close>), and an abstract
  layer of values, an optional pair of state and text.  The refinement shows that every
  sequence of operations that uses its objects correctly runs without such an access, agrees
  with the values, and leaks no buffer.
\<close>

subsection \<open>States\<close>

datatype State = kOK | kInvailArgument | kNotFound | kFailed | State_kInterrupt | kEof | kAgain
  | kStateCount

fun State_code :: "State \<Rightarrow> nat" where
  "State_code kOK = 0"
| "State_code kInvailArgument = 1"
| "State_code kNotFound = 2"
| "State_code kFailed = 3"
| "State_code State_kInterrupt = 4"
| "State_code kEof = 5"
| "State_code kAgain = 6"
| "State_code kStateCount = 7"

definition all_states :: "State list" where
  "all_states = [kOK, kInvailArgument, kNotFound, kFailed, State_kInterrupt, kEof, kAgain, kStateCount]"

text \<open>\<open>static_cast<State>\<close> of a byte that holds a state's code.\<close>

definition State_of_code :: "nat \<Rightarrow> State" where
  "State_of_code n = (if n < length all_states then all_states ! n else kStateCount)"

lemma State_of_code_State_code [simp]: "State_of_code (State_code s) = s"
  by (cases s) (simp_all add: State_of_code_def all_states_def)

lemma State_code_less [simp]: "State_code s < 256"
  by (cases s) simp_all

subsection \<open>The memory of status objects\<close>

record status_mem =
  objs :: "nat \<rightharpoonup> nat option"   \<comment> \<open>the live objects with their \<open>state_\<close>\<close>
  heap :: "nat \<rightharpoonup> string"       \<comment> \<open>the buffers allocated by \<open>new char[]\<close>\<close>
  brk :: nat                    \<comment> \<open>the next address \<open>new\<close> returns\<close>

definition empty_mem :: status_mem where
  "empty_mem = \<lparr>objs = Map.empty, heap = Map.empty, brk = 0\<rparr>"

definition new_chars :: "string \<Rightarrow> status_mem \<Rightarrow> nat \<times> status_mem" where
  "new_chars buf m = (brk m, m\<lparr>heap := (heap m)(brk m \<mapsto> buf), brk := Suc (brk m)\<rparr>)"

definition delete_chars :: "nat option \<Rightarrow> status_mem \<Rightarrow> status_mem option" where
  "delete_chars p m = (case p of
     None \<Rightarrow> Some m
   | Some a \<Rightarrow> if heap m a = None then None else Some (m\<lparr>heap := (heap m)(a := None)\<rparr>))"

definition set_state :: "nat \<Rightarrow> nat option \<Rightarrow> status_mem \<Rightarrow> status_mem" where
  "set_state x p m = m\<lparr>objs := (objs m)(x \<mapsto> p)\<rparr>"

text \<open>The buffer the three-argument constructor fills.\<close>

definition state_buffer :: "State \<Rightarrow> string \<Rightarrow> string" where
  "state_buffer s msg = char_of (State_code s) # char_of (length msg) # msg"

definition ErrorTextSize :: "string \<Rightarrow> nat option" where
  "ErrorTextSize buf = (if 1 < length buf then Some (of_char (buf ! 1)) else None)"

subsection \<open>Operations\<close>

definition Status_default :: "nat \<Rightarrow> status_mem \<Rightarrow> status_mem option" where
  "Status_default x m = (if objs m x = None then Some (set_state x None m) else None)"

definition Status_new :: "nat \<Rightarrow> State \<Rightarrow> string \<Rightarrow> status_mem \<Rightarrow> status_mem option" where
  "Status_new x s msg m =
     (if objs m x = None
      then let (p, m) = new_chars (state_buffer s msg) m in Some (set_state x (Some p) m)
      else None)"

text \<open>The copy constructor's new \<open>state_\<close>, from the \<open>state_\<close> of the argument.\<close>

definition copy_state :: "nat option \<Rightarrow> status_mem \<Rightarrow> (nat option \<times> status_mem) option" where
  "copy_state p m = (case p of
     None \<Rightarrow> Some (None, m)
   | Some a \<Rightarrow> do {
       buf \<leftarrow> heap m a;
       n \<leftarrow> ErrorTextSize buf;
       let size = n + 2;
       if length buf < size then None
       else let (q, m) = new_chars (take size buf) m in Some (Some q, m)
     })"

definition Status_copy :: "nat \<Rightarrow> nat \<Rightarrow> status_mem \<Rightarrow> status_mem option" where
  "Status_copy x y m =
     (if objs m x = None
      then do { py \<leftarrow> objs m y; (q, m) \<leftarrow> copy_state py m; Some (set_state x q m) }
      else None)"

definition Status_move :: "nat \<Rightarrow> nat \<Rightarrow> status_mem \<Rightarrow> status_mem option" where
  "Status_move x y m =
     (if objs m x = None
      then do { py \<leftarrow> objs m y; Some (set_state y None (set_state x py m)) }
      else None)"

definition Status_destroy :: "nat \<Rightarrow> status_mem \<Rightarrow> status_mem option" where
  "Status_destroy x m = do {
     p \<leftarrow> objs m x;
     m \<leftarrow> delete_chars p m;
     Some (m\<lparr>objs := (objs m)(x := None)\<rparr>)
   }"

text \<open>
  The copy assignment copies into a temporary, swaps the pointers and destroys the temporary,
  which then holds the old buffer.
\<close>

definition Status_assign :: "nat \<Rightarrow> nat \<Rightarrow> status_mem \<Rightarrow> status_mem option" where
  "Status_assign x y m = do {
     py \<leftarrow> objs m y;
     (tmp, m) \<leftarrow> copy_state py m;
     px \<leftarrow> objs m x;
     let m = set_state x tmp m;
     delete_chars px m
   }"

definition Status_move_assign :: "nat \<Rightarrow> nat \<Rightarrow> status_mem \<Rightarrow> status_mem option" where
  "Status_move_assign x y m = do {
     px \<leftarrow> objs m x;
     py \<leftarrow> objs m y;
     if x \<noteq> y then do { m \<leftarrow> delete_chars px m; Some (set_state y None (set_state x py m)) }
     else Some m
   }"

definition Status_swap :: "nat \<Rightarrow> nat \<Rightarrow> status_mem \<Rightarrow> status_mem option" where
  "Status_swap x y m = do {
     px \<leftarrow> objs m x;
     py \<leftarrow> objs m y;
     Some (set_state y px (set_state x py m))
   }"

subsection \<open>Observers\<close>

definition IsOK :: "nat \<Rightarrow> status_mem \<Rightarrow> bool option" where
  "IsOK x m = do { p \<leftarrow> objs m x; Some (p = None) }"

definition StateValue :: "nat \<Rightarrow> status_mem \<Rightarrow> State option" where
  "StateValue x m = do {
     p \<leftarrow> objs m x;
     case p of
       None \<Rightarrow> Some kOK
     | Some a \<Rightarrow> do {
         buf \<leftarrow> heap m a;
         if buf = [] then None else Some (State_of_code (of_char (buf ! 0)))
       }
   }"

definition Status_Is :: "State \<Rightarrow> nat \<Rightarrow> status_mem \<Rightarrow> bool option" where
  "Status_Is s x m = do { v \<leftarrow> StateValue x m; Some (v = s) }"

definition ErrorText :: "nat \<Rightarrow> status_mem \<Rightarrow> string option" where
  "ErrorText x m = do {
     p \<leftarrow> objs m x;
     case p of
       None \<Rightarrow> Some []
     | Some a \<Rightarrow> do {
         buf \<leftarrow> heap m a;
         size \<leftarrow> ErrorTextSize buf;
         if size = 0 then Some []
         else if length buf < 2 + size then None
         else Some (take size (drop 2 buf))
       }
   }"

text \<open>The stream operator; an index outside \<open>txt_ary\<close> is \<open>None\<close>.\<close>

definition txt_ary :: "string list" where
  "txt_ary = [''OK'', ''InvailArgument'', ''NotFound'', ''Failed'', ''Interrupt'', ''Eof'', ''Again'']"

definition Status_print :: "nat \<Rightarrow> status_mem \<Rightarrow> string option" where
  "Status_print x m = do {
     v \<leftarrow> StateValue x m;
     if State_code v < length txt_ary then do {
       ok \<leftarrow> IsOK x m;
       if ok then Some (txt_ary ! State_code v)
       else do { t \<leftarrow> ErrorText x m; Some (txt_ary ! State_code v @ '':'' @ t) }
     } else None
   }"

subsection \<open>Values: what a status is\<close>

text \<open>
  The value of a status: nothing for success, or a state and its text.  The length byte cuts a
  text of more than 255 characters down to its length modulo 256.
\<close>

type_synonym status = "(State \<times> string) option"

definition Status_OK :: status where
  "Status_OK = None"

definition Status_of :: "State \<Rightarrow> string \<Rightarrow> status" where
  "Status_of s msg = Some (s, take (length msg mod 256) msg)"

definition state_value :: "status \<Rightarrow> State" where
  "state_value v = (case v of None \<Rightarrow> kOK | Some (s, _) \<Rightarrow> s)"

definition error_text :: "status \<Rightarrow> string" where
  "error_text v = (case v of None \<Rightarrow> [] | Some (_, t) \<Rightarrow> t)"

definition decode_buffer :: "string \<Rightarrow> State \<times> string" where
  "decode_buffer buf = (State_of_code (of_char (buf ! 0)), take (of_char (buf ! 1)) (drop 2 buf))"

definition ptr_val :: "status_mem \<Rightarrow> nat option \<Rightarrow> status" where
  "ptr_val m p = (case p of None \<Rightarrow> None | Some a \<Rightarrow> map_option decode_buffer (heap m a))"

definition status_vals :: "status_mem \<Rightarrow> nat \<rightharpoonup> status" where
  "status_vals m x = map_option (ptr_val m) (objs m x)"

datatype status_op = Op_default nat | Op_new nat State string | Op_copy nat nat | Op_move nat nat
  | Op_destroy nat | Op_assign nat nat | Op_move_assign nat nat | Op_swap nat nat

fun status_step :: "status_op \<Rightarrow> status_mem \<Rightarrow> status_mem option" where
  "status_step (Op_default x) m = Status_default x m"
| "status_step (Op_new x s msg) m = Status_new x s msg m"
| "status_step (Op_copy x y) m = Status_copy x y m"
| "status_step (Op_move x y) m = Status_move x y m"
| "status_step (Op_destroy x) m = Status_destroy x m"
| "status_step (Op_assign x y) m = Status_assign x y m"
| "status_step (Op_move_assign x y) m = Status_move_assign x y m"
| "status_step (Op_swap x y) m = Status_swap x y m"

fun val_step :: "status_op \<Rightarrow> (nat \<rightharpoonup> status) \<Rightarrow> (nat \<rightharpoonup> status) option" where
  "val_step (Op_default x) V = (if V x = None then Some (V(x \<mapsto> Status_OK)) else None)"
| "val_step (Op_new x s msg) V = (if V x = None then Some (V(x \<mapsto> Status_of s msg)) else None)"
| "val_step (Op_copy x y) V = (if V x = None then do { v \<leftarrow> V y; Some (V(x \<mapsto> v)) } else None)"
| "val_step (Op_move x y) V =
     (if V x = None then do { v \<leftarrow> V y; Some (V(x \<mapsto> v, y \<mapsto> Status_OK)) } else None)"
| "val_step (Op_destroy x) V = do { _ \<leftarrow> V x; Some (V(x := None)) }"
| "val_step (Op_assign x y) V = do { _ \<leftarrow> V x; v \<leftarrow> V y; Some (V(x \<mapsto> v)) }"
| "val_step (Op_move_assign x y) V = do {
     _ \<leftarrow> V x; v \<leftarrow> V y; Some (if x = y then V else V(x \<mapsto> v, y \<mapsto> Status_OK)) }"
| "val_step (Op_swap x y) V = do { u \<leftarrow> V x; v \<leftarrow> V y; Some (V(x \<mapsto> v, y \<mapsto> u)) }"

fun status_run :: "status_op list \<Rightarrow> status_mem \<Rightarrow> status_mem option" where
  "status_run [] m = Some m"
| "status_run (c # cs) m = status_step c m \<bind> status_run cs"

fun val_run :: "status_op list \<Rightarrow> (nat \<rightharpoonup> status) \<Rightarrow> (nat \<rightharpoonup> status) option" where
  "val_run [] V = Some V"
| "val_run (c # cs) V = val_step c V \<bind> val_run cs"

subsection \<open>Ownership of the buffers\<close>

definition wf_buffer :: "string \<Rightarrow> bool" where
  "wf_buffer buf \<longleftrightarrow> 2 \<le> length buf \<and> 2 + of_char (buf ! 1) \<le> length buf"

text \<open>
  Every buffer is owned by exactly one live object, or is the one buffer \<open>tmp\<close> held by a
  temporary in the middle of an operation.
\<close>

definition owned :: "status_mem \<Rightarrow> nat option \<Rightarrow> bool" where
  "owned m tmp \<longleftrightarrow>
     (\<forall>x a. objs m x = Some (Some a) \<longrightarrow> heap m a \<noteq> None \<and> tmp \<noteq> Some a) \<and>
     (\<forall>x y a. objs m x = Some (Some a) \<longrightarrow> objs m y = Some (Some a) \<longrightarrow> x = y) \<and>
     (\<forall>a. tmp = Some a \<longrightarrow> heap m a \<noteq> None) \<and>
     (\<forall>a buf. heap m a = Some buf \<longrightarrow> wf_buffer buf \<and> a < brk m) \<and>
     (\<forall>a buf. heap m a = Some buf \<longrightarrow> tmp = Some a \<or> (\<exists>x. objs m x = Some (Some a)))"

lemma wf_state_buffer [simp]: "wf_buffer (state_buffer s msg)"
  by (simp add: wf_buffer_def state_buffer_def)

lemma decode_state_buffer [simp]:
  "decode_buffer (state_buffer s msg) = (s, take (length msg mod 256) msg)"
  by (simp add: decode_buffer_def state_buffer_def)

lemma wf_buffer_take:
  assumes "wf_buffer buf" "n = of_char (buf ! 1) + 2"
  shows "wf_buffer (take n buf)" "decode_buffer (take n buf) = decode_buffer buf"
proof -
  have len: "2 \<le> length buf" "n \<le> length buf" "2 \<le> n"
    using assms by (auto simp: wf_buffer_def)
  show "wf_buffer (take n buf)"
    using len assms by (simp add: wf_buffer_def)
  show "decode_buffer (take n buf) = decode_buffer buf"
    using len assms(2) by (simp add: decode_buffer_def drop_take)
qed

lemma owned_empty: "owned empty_mem None"
  by (simp add: owned_def empty_mem_def)

lemma status_vals_empty: "status_vals empty_mem = Map.empty"
  by (simp add: status_vals_def empty_mem_def fun_eq_iff)

lemma status_vals_None [simp]: "status_vals m x = None \<longleftrightarrow> objs m x = None"
  by (simp add: status_vals_def)

lemma status_vals_dead: "objs m x = None \<Longrightarrow> status_vals m x = None"
  by simp

lemma status_vals_Some: "objs m x = Some p \<Longrightarrow> status_vals m x = Some (ptr_val m p)"
  by (simp add: status_vals_def)

lemma ptr_val_None [simp]: "ptr_val m None = None"
  by (simp add: ptr_val_def)

lemma set_state_simps [simp]:
  "objs (set_state x p m) = (objs m)(x \<mapsto> p)" "heap (set_state x p m) = heap m"
  "brk (set_state x p m) = brk m" "ptr_val (set_state x p m) = ptr_val m"
  by (simp_all add: set_state_def ptr_val_def fun_eq_iff split: option.split)

lemma status_vals_set [simp]:
  "status_vals (set_state x p m) = (status_vals m)(x \<mapsto> ptr_val m p)"
  by (simp add: status_vals_def fun_eq_iff)

lemma owned_new:
  assumes "owned m None" "wf_buffer buf" "new_chars buf m = (q, m')"
  shows "owned m' (Some q)" "status_vals m' = status_vals m" "objs m' = objs m"
    "ptr_val m' (Some q) = Some (decode_buffer buf)"
proof -
  have fresh: "objs m x \<noteq> Some (Some (brk m))" for x
    using assms(1) by (fastforce simp: owned_def)
  have eqs: "q = brk m" "objs m' = objs m" "heap m' = (heap m)(brk m \<mapsto> buf)" "brk m' = Suc (brk m)"
    using assms(3) by (auto simp: new_chars_def)
  show "owned m' (Some q)"
    using assms(1,2) fresh unfolding owned_def eqs by (auto simp: less_Suc_eq)
  show "status_vals m' = status_vals m"
  proof (rule ext)
    fix x
    show "status_vals m' x = status_vals m x"
      using fresh [of x] by (cases "objs m x") (auto simp: status_vals_def ptr_val_def eqs split: option.splits)
  qed
  show "objs m' = objs m" "ptr_val m' (Some q) = Some (decode_buffer buf)"
    by (simp_all add: eqs ptr_val_def)
qed

lemma owned_copy:
  assumes "owned m None" "objs m y = Some p"
  obtains q m' where "copy_state p m = Some (q, m')" "owned m' q" "status_vals m' = status_vals m"
    "objs m' = objs m" "ptr_val m' q = ptr_val m p"
proof (cases p)
  case None
  then show thesis using that assms(1) by (simp add: copy_state_def)
next
  case (Some a)
  then obtain buf where buf: "heap m a = Some buf" "wf_buffer buf"
    using assms by (fastforce simp: owned_def)
  define n where "n = of_char (buf ! 1) + (2::nat)"
  obtain q m' where new: "new_chars (take n buf) m = (q, m')"
    by (rule prod.exhaust)
  have "copy_state p m = Some (Some q, m')"
    using buf new by (simp add: copy_state_def Some ErrorTextSize_def wf_buffer_def n_def)
  moreover note owned_new [OF assms(1) wf_buffer_take(1) [OF buf(2) n_def] new]
  moreover have "ptr_val m p = Some (decode_buffer (take n buf))"
    using buf wf_buffer_take(2) [OF buf(2) n_def] by (simp add: ptr_val_def Some)
  ultimately show thesis using that by simp
qed

lemma ownedD:
  assumes "owned m tmp"
  shows "objs m x = Some (Some a) \<Longrightarrow> heap m a \<noteq> None \<and> tmp \<noteq> Some a"
    and "objs m x = Some (Some a) \<Longrightarrow> objs m y = Some (Some a) \<Longrightarrow> x = y"
    and "tmp = Some a \<Longrightarrow> heap m a \<noteq> None"
    and "heap m a = Some buf \<Longrightarrow> wf_buffer buf \<and> a < brk m"
    and "heap m a = Some buf \<Longrightarrow> tmp = Some a \<or> (\<exists>x. objs m x = Some (Some a))"
  using assms unfolding owned_def by blast+

lemma ownedI:
  assumes "\<And>x a. objs m x = Some (Some a) \<Longrightarrow> heap m a \<noteq> None \<and> tmp \<noteq> Some a"
    and "\<And>x y a. objs m x = Some (Some a) \<Longrightarrow> objs m y = Some (Some a) \<Longrightarrow> x = y"
    and "\<And>a. tmp = Some a \<Longrightarrow> heap m a \<noteq> None"
    and "\<And>a buf. heap m a = Some buf \<Longrightarrow> wf_buffer buf \<and> a < brk m"
    and "\<And>a buf. heap m a = Some buf \<Longrightarrow> tmp = Some a \<or> (\<exists>x. objs m x = Some (Some a))"
  shows "owned m tmp"
  unfolding owned_def using assms by blast

text \<open>The object \<open>x\<close> exchanges its buffer for the temporary's; its old one becomes the temporary.\<close>

lemma owned_exchange:
  assumes own: "owned m q" and p: "p = Option.bind (objs m x) id"
    and r: "r = Some q \<or> r = None \<and> q = None"
  shows "owned (m\<lparr>objs := (objs m)(x := r)\<rparr>) p"
proof (rule ownedI)
  have p_iff: "p = Some a \<longleftrightarrow> objs m x = Some (Some a)" for a
    by (cases "objs m x") (simp_all add: p)
  have new: "q = Some a \<longleftrightarrow> r = Some (Some a)" for a using r by auto
  let ?m = "m\<lparr>objs := (objs m)(x := r)\<rparr>"
  show "heap ?m a \<noteq> None \<and> p \<noteq> Some a" if "objs ?m y = Some (Some a)" for y a
    using that ownedD(1) [OF own, of y a] ownedD(1) [OF own, of x a] ownedD(3) [OF own, of a]
      ownedD(2) [OF own, of x a y]
    by (cases "y = x") (auto simp: p_iff new)
  show "y = z" if "objs ?m y = Some (Some a)" "objs ?m z = Some (Some a)" for y z a
    using that ownedD(1) [OF own, of y a] ownedD(1) [OF own, of z a] ownedD(2) [OF own, of y a z]
    by (auto simp: new split: if_splits)
  show "heap ?m a \<noteq> None" if "p = Some a" for a
    using that ownedD(1) [OF own, of x a] by (simp add: p_iff)
  show "wf_buffer buf \<and> a < brk ?m" if "heap ?m a = Some buf" for a buf
    using that ownedD(4) [OF own, of a buf] by simp
  show "p = Some a \<or> (\<exists>y. objs ?m y = Some (Some a))" if "heap ?m a = Some buf" for a buf
    using that ownedD(5) [OF own, of a buf] by (auto simp: p_iff new)
qed

lemma owned_set:
  "owned m q \<Longrightarrow> owned (set_state x q m) (Option.bind (objs m x) id)"
  unfolding set_state_def by (rule owned_exchange) simp_all

lemma owned_remove:
  "owned m None \<Longrightarrow> objs m x = Some p \<Longrightarrow> owned (m\<lparr>objs := (objs m)(x := None)\<rparr>) p"
  by (rule owned_exchange) simp_all

lemma owned_delete:
  assumes "owned m p"
  obtains m' where "delete_chars p m = Some m'" "owned m' None" "objs m' = objs m"
    "status_vals m' = status_vals m"
proof (cases p)
  case None
  then show thesis using that assms by (simp add: delete_chars_def)
next
  case (Some a)
  define m' where "m' = m\<lparr>heap := (heap m)(a := None)\<rparr>"
  have free: "objs m x \<noteq> Some (Some a)" for x
    using assms by (auto simp: owned_def Some)
  show thesis
  proof (rule that [of m'])
    show "delete_chars p m = Some m'"
      using assms by (simp add: delete_chars_def Some m'_def owned_def)
    show "owned m' None"
      using assms free by (auto simp: owned_def Some m'_def split: if_splits)
    show "objs m' = objs m" by (simp add: m'_def)
    show "status_vals m' = status_vals m"
    proof (rule ext)
      fix x
      show "status_vals m' x = status_vals m x"
        using free [of x]
        by (cases "objs m x") (auto simp: status_vals_def ptr_val_def m'_def split: option.splits)
    qed
  qed
qed

subsection \<open>The operations on values\<close>

lemma owned_swap:
  assumes own: "owned m None" and x: "objs m x = Some px" and y: "objs m y = Some py"
  shows "owned (set_state y px (set_state x py m)) None"
proof -
  define f where "f z = (if z = x then y else if z = y then x else z)" for z
  have f: "f (f z) = z" for z by (simp add: f_def)
  let ?m = "set_state y px (set_state x py m)"
  have objs: "objs ?m z = objs m (f z)" for z using x y by (auto simp: f_def)
  show ?thesis
  proof (rule ownedI)
    show "heap ?m a \<noteq> None \<and> None \<noteq> Some a" if "objs ?m z = Some (Some a)" for z a
      using ownedD(1) [OF own, of "f z" a] that unfolding objs by simp
    show "z = u" if "objs ?m z = Some (Some a)" "objs ?m u = Some (Some a)" for z u a
    proof -
      have "f z = f u" using ownedD(2) [OF own, of "f z" a "f u"] that unfolding objs by simp
      then have "f (f z) = f (f u)" by simp
      then show ?thesis by (simp only: f)
    qed
    show "wf_buffer buf \<and> a < brk ?m" if "heap ?m a = Some buf" for a buf
      using ownedD(4) [OF own, of a buf] that by simp
    show "None = Some a \<or> (\<exists>z. objs ?m z = Some (Some a))" if buf: "heap ?m a = Some buf" for a buf
    proof -
      obtain z where "objs m z = Some (Some a)"
        using ownedD(5) [OF own, of a buf] buf by auto
      then have "objs ?m (f z) = Some (Some a)" by (simp only: objs f)
      then show ?thesis by blast
    qed
  qed simp_all
qed

definition simulates :: "status_mem option \<Rightarrow> (nat \<rightharpoonup> status) option \<Rightarrow> bool" where
  "simulates mo Vo \<longleftrightarrow> (\<forall>V. Vo = Some V \<longrightarrow> (\<exists>m. mo = Some m \<and> owned m None \<and> status_vals m = V))"

lemma simulatesI: "mo = Some m \<Longrightarrow> owned m None \<Longrightarrow> Vo = Some (status_vals m) \<Longrightarrow> simulates mo Vo"
  by (simp add: simulates_def)

lemma Status_default_simulates:
  assumes "owned m None"
  shows "simulates (Status_default x m) (val_step (Op_default x) (status_vals m))"
proof (cases "objs m x")
  case None
  show ?thesis
    using owned_set [OF assms, of x] None
    by (intro simulatesI [of _ "set_state x None m"]) (simp_all add: Status_default_def Status_OK_def)
qed (simp add: simulates_def status_vals_Some)

lemma Status_new_simulates:
  assumes "owned m None"
  shows "simulates (Status_new x s msg m) (val_step (Op_new x s msg) (status_vals m))"
proof (cases "objs m x")
  case None
  obtain q m' where new: "new_chars (state_buffer s msg) m = (q, m')" by (rule prod.exhaust)
  note new' = owned_new [OF assms wf_state_buffer new]
  show ?thesis
    using owned_set [OF new'(1), of x] None new new'
    by (intro simulatesI [of _ "set_state x (Some q) m'"]) (simp_all add: Status_new_def Status_of_def)
qed (simp add: simulates_def status_vals_Some)

lemma Status_copy_simulates:
  assumes "owned m None"
  shows "simulates (Status_copy x y m) (val_step (Op_copy x y) (status_vals m))"
proof (cases "objs m x = None \<and> objs m y \<noteq> None")
  case True
  then obtain py where py: "objs m y = Some py" by auto
  obtain q m' where copy: "copy_state py m = Some (q, m')" "owned m' q"
    "status_vals m' = status_vals m" "objs m' = objs m" "ptr_val m' q = ptr_val m py"
    by (rule owned_copy [OF assms py])
  show ?thesis
    using owned_set [OF copy(2), of x] True py copy
    by (intro simulatesI [of _ "set_state x q m'"]) (simp_all add: Status_copy_def status_vals_Some)
qed (auto simp: simulates_def status_vals_Some status_vals_dead)

lemma Status_move_simulates:
  assumes "owned m None"
  shows "simulates (Status_move x y m) (val_step (Op_move x y) (status_vals m))"
proof (cases "objs m x = None \<and> objs m y \<noteq> None")
  case True
  then obtain py where py: "objs m y = Some py" by auto
  have "x \<noteq> y" using True by auto
  have "owned (set_state x py (set_state y None m)) None"
    using owned_set [OF owned_set [OF assms, of y], of x] True py \<open>x \<noteq> y\<close> by simp
  moreover have "set_state x py (set_state y None m) = set_state y None (set_state x py m)"
    using \<open>x \<noteq> y\<close> by (simp add: set_state_def fun_upd_twist)
  ultimately show ?thesis
    using True py
    by (intro simulatesI [of _ "set_state y None (set_state x py m)"])
      (simp_all add: Status_move_def status_vals_Some Status_OK_def)
qed (auto simp: simulates_def status_vals_Some status_vals_dead)

lemma Status_destroy_simulates:
  assumes "owned m None"
  shows "simulates (Status_destroy x m) (val_step (Op_destroy x) (status_vals m))"
proof (cases "objs m x")
  case (Some p)
  let ?f = "\<lambda>m. m\<lparr>objs := (objs m)(x := None)\<rparr>"
  obtain m' where del: "delete_chars p (?f m) = Some m'" "owned m' None"
    "objs m' = objs (?f m)" "status_vals m' = status_vals (?f m)"
    by (rule owned_delete [OF owned_remove [OF assms Some]])
  have "delete_chars p m \<bind> (\<lambda>m. Some (?f m)) = delete_chars p (?f m)"
    by (simp add: delete_chars_def split: option.split)
  then have "Status_destroy x m = Some m'"
    using Some del(1) by (simp add: Status_destroy_def)
  moreover have vals: "ptr_val (?f m) = ptr_val m"
    by (simp add: ptr_val_def fun_eq_iff split: option.split)
  have "status_vals (?f m) = (status_vals m)(x := None)"
    by (rule ext) (simp add: status_vals_def vals)
  ultimately show ?thesis
    using del Some by (intro simulatesI [of _ m']) (simp_all add: status_vals_Some)
qed (simp add: simulates_def status_vals_dead)

lemma Status_assign_simulates:
  assumes "owned m None"
  shows "simulates (Status_assign x y m) (val_step (Op_assign x y) (status_vals m))"
proof (cases "objs m x \<noteq> None \<and> objs m y \<noteq> None")
  case True
  then obtain px py where p: "objs m x = Some px" "objs m y = Some py" by auto
  obtain q m' where copy: "copy_state py m = Some (q, m')" "owned m' q"
    "status_vals m' = status_vals m" "objs m' = objs m" "ptr_val m' q = ptr_val m py"
    by (rule owned_copy [OF assms p(2)])
  have "owned (set_state x q m') px"
    using owned_set [OF copy(2), of x] copy(4) p by simp
  then obtain m'' where del: "delete_chars px (set_state x q m') = Some m''" "owned m'' None"
    "status_vals m'' = status_vals (set_state x q m')"
    by (rule owned_delete)
  then show ?thesis
    using p copy
    by (intro simulatesI [of _ m'']) (simp_all add: Status_assign_def status_vals_Some)
qed (auto simp: simulates_def status_vals_Some status_vals_dead)

lemma Status_move_assign_simulates:
  assumes "owned m None"
  shows "simulates (Status_move_assign x y m) (val_step (Op_move_assign x y) (status_vals m))"
proof (cases "objs m x \<noteq> None \<and> objs m y \<noteq> None")
  case True
  then obtain px py where p: "objs m x = Some px" "objs m y = Some py" by auto
  show ?thesis
  proof (cases "x = y")
    case True
    then show ?thesis
      using p assms by (intro simulatesI [of _ m]) (simp_all add: Status_move_assign_def status_vals_Some)
  next
    case False
    have "owned (set_state x None m) px"
      using owned_set [OF assms, of x] p by simp
    then obtain m' where del: "delete_chars px (set_state x None m) = Some m'" "owned m' None"
      "objs m' = objs (set_state x None m)" "status_vals m' = status_vals (set_state x None m)"
      by (rule owned_delete)
    let ?m = "set_state x py (set_state y None m')"
    have "owned ?m None"
      using owned_set [OF owned_set [OF del(2), of y], of x] False p del(3) by simp
    moreover have "delete_chars px m \<bind> (\<lambda>m. Some (set_state y None (set_state x py m))) = Some ?m"
      using False del(1)
      by (auto simp: delete_chars_def set_state_def fun_upd_twist split: option.splits if_splits)
    moreover have "status_vals m' y = Some (ptr_val m py)"
      using False p del(4) by (simp add: status_vals_Some)
    then have "ptr_val m' py = ptr_val m py"
      using False p del(3) by (simp add: status_vals_def)
    ultimately show ?thesis
      using False p del(4)
      by (intro simulatesI [of _ ?m])
        (simp_all add: Status_move_assign_def status_vals_Some Status_OK_def fun_upd_twist)
  qed
qed (auto simp: simulates_def status_vals_Some status_vals_dead)

lemma Status_swap_simulates:
  assumes "owned m None"
  shows "simulates (Status_swap x y m) (val_step (Op_swap x y) (status_vals m))"
proof (cases "objs m x \<noteq> None \<and> objs m y \<noteq> None")
  case True
  then obtain px py where p: "objs m x = Some px" "objs m y = Some py" by auto
  show ?thesis
    using p owned_swap [OF assms p]
    by (intro simulatesI [of _ "set_state y px (set_state x py m)"])
      (simp_all add: Status_swap_def status_vals_Some)
qed (auto simp: simulates_def status_vals_Some status_vals_dead)

lemma status_step_simulates:
  "owned m None \<Longrightarrow> simulates (status_step c m) (val_step c (status_vals m))"
  by (cases c)
    (simp_all only: status_step.simps Status_default_simulates Status_new_simulates
      Status_copy_simulates Status_move_simulates Status_destroy_simulates
      Status_assign_simulates Status_move_assign_simulates Status_swap_simulates)

lemma status_run_simulates:
  "owned m None \<Longrightarrow> simulates (status_run cs m) (val_run cs (status_vals m))"
proof (induction cs arbitrary: m)
  case Nil
  then show ?case by (simp add: simulates_def)
next
  case (Cons c cs)
  show ?case
  proof (cases "val_step c (status_vals m)")
    case (Some V)
    then obtain m' where "status_step c m = Some m'" "owned m' None" "status_vals m' = V"
      using status_step_simulates [OF Cons.prems, of c] by (auto simp: simulates_def)
    then show ?thesis using Cons.IH [of m'] Some by simp
  qed (simp add: simulates_def)
qed

subsection \<open>Observers on values\<close>

lemma observers_val:
  assumes "owned m None" "status_vals m x = Some v"
  shows "IsOK x m = Some (v = None)" "StateValue x m = Some (state_value v)"
    "ErrorText x m = Some (error_text v)"
proof -
  obtain p where p: "objs m x = Some p" "v = ptr_val m p"
    using assms(2) by (auto simp: status_vals_def)
  have "\<exists>buf. heap m a = Some buf \<and> wf_buffer buf" if "p = Some a" for a
    using ownedD(1) [OF assms(1), of x a] ownedD(4) [OF assms(1), of a] p that by auto
  then obtain buf where buf: "\<And>a. p = Some a \<Longrightarrow> heap m a = Some buf \<and> wf_buffer buf"
    by (cases p) auto
  show "IsOK x m = Some (v = None)"
    using p buf by (cases p) (auto simp: IsOK_def ptr_val_def)
  show "StateValue x m = Some (state_value v)"
    using p buf
    by (cases p)
      (auto simp: StateValue_def ptr_val_def state_value_def decode_buffer_def wf_buffer_def)
  show "ErrorText x m = Some (error_text v)"
    using p buf
    by (cases p)
      (auto simp: ErrorText_def ErrorTextSize_def ptr_val_def error_text_def decode_buffer_def
        wf_buffer_def)
qed

lemma Status_print_val:
  assumes "owned m None" "status_vals m x = Some v" "state_value v \<noteq> kStateCount"
  shows "Status_print x m =
    Some (case v of None \<Rightarrow> ''OK'' | Some (s, t) \<Rightarrow> txt_ary ! State_code s @ '':'' @ t)"
proof -
  have "State_code (state_value v) < length txt_ary"
    using assms(3) by (cases "state_value v") (simp_all add: txt_ary_def)
  then show ?thesis
    using observers_val [OF assms(1,2)]
    by (auto simp: Status_print_def state_value_def error_text_def txt_ary_def split: option.splits)
qed

lemma Status_of_short: "length msg < 256 \<Longrightarrow> Status_of s msg = Some (s, msg)"
  by (simp add: Status_of_def)

lemma Status_of_neq_OK [simp]: "Status_of s msg \<noteq> Status_OK" "Status_OK \<noteq> Status_of s msg"
  by (simp_all add: Status_of_def Status_OK_def)

lemma state_value_simps [simp]: "state_value (Status_of s msg) = s" "state_value Status_OK = kOK"
  by (simp_all add: state_value_def Status_of_def Status_OK_def)

definition status_IsOK :: "status \<Rightarrow> bool" where
  "status_IsOK v \<longleftrightarrow> v = None"

definition status_Is :: "State \<Rightarrow> status \<Rightarrow> bool" where
  "status_Is s v \<longleftrightarrow> state_value v = s"

lemma status_IsOK_iff: "status_IsOK v \<longleftrightarrow> v = Status_OK"
  by (simp add: status_IsOK_def Status_OK_def)

lemma status_Is_simps [simp]:
  "status_IsOK Status_OK" "\<not> status_IsOK (Status_of s msg)"
  "status_Is t (Status_of s msg) \<longleftrightarrow> s = t" "status_Is t Status_OK \<longleftrightarrow> t = kOK"
  by (auto simp: status_IsOK_def status_Is_def Status_OK_def Status_of_def state_value_def)

subsection \<open>Results\<close>

text \<open>A status with a datum; the datum of a failed result is the default value of its type.\<close>

record 'a result =
  res_state :: status
  res_data :: 'a

definition Result_default :: "'a \<Rightarrow> 'a result" where
  "Result_default dflt = \<lparr>res_state = Status_OK, res_data = dflt\<rparr>"

definition Result_value :: "'a \<Rightarrow> 'a result" where
  "Result_value x = \<lparr>res_state = Status_OK, res_data = x\<rparr>"

definition Result_status :: "'a \<Rightarrow> status \<Rightarrow> 'a result" where
  "Result_status dflt s = \<lparr>res_state = s, res_data = dflt\<rparr>"

definition Result_get :: "'a result \<Rightarrow> 'a" where
  "Result_get r = res_data r"

definition Result_set :: "'a \<Rightarrow> 'a result \<Rightarrow> 'a result" where
  "Result_set x r = r\<lparr>res_data := x\<rparr>"

definition Result_bool :: "'a result \<Rightarrow> bool" where
  "Result_bool r = status_IsOK (res_state r)"

definition Result_set_status :: "status \<Rightarrow> 'a result \<Rightarrow> 'a result" where
  "Result_set_status s r = r\<lparr>res_state := s\<rparr>"

lemma Result_laws [simp]:
  "Result_bool (Result_value x)" "Result_get (Result_value x) = x"
  "Result_bool (Result_status dflt s) = status_IsOK s" "res_state (Result_status dflt s) = s"
  "Result_get (Result_set x r) = x" "Result_bool (Result_set x r) = Result_bool r"
  "Result_bool (Result_set_status s r) = status_IsOK s" "Result_get (Result_set_status s r) = Result_get r"
  by (simp_all add: Result_bool_def Result_value_def Result_get_def Result_status_def Result_set_def
      Result_set_status_def)

subsection \<open>Properties\<close>

text \<open>
  C26 (refinement).  Statuses behave as values and manage their buffers correctly.  Take any
  sequence of constructions, copies, moves, assignments (self-assignments included), swaps and
  destructions that uses objects only while they exist.  Run on the memory it never reads
  outside a buffer and never deletes one twice; afterwards every object has the value the
  sequence gives it when statuses are plain values (moved-from objects are OK, a copy is equal
  to its source), every buffer in the heap belongs to exactly one live object, so nothing leaks
  and nothing dangles, and \<open>IsOK\<close>, \<open>StateValue\<close> and \<open>ErrorText\<close> report exactly that value.
\<close>

theorem statuses_are_values:
  assumes "val_run cs Map.empty = Some V"
  shows "\<exists>m. status_run cs empty_mem = Some m \<and> status_vals m = V \<and>
    (\<forall>a. heap m a \<noteq> None \<longleftrightarrow> (\<exists>!x. objs m x = Some (Some a))) \<and>
    (\<forall>x a. objs m x = Some (Some a) \<longrightarrow> heap m a \<noteq> None) \<and>
    (\<forall>x v. V x = Some v \<longrightarrow> IsOK x m = Some (v = None) \<and>
       StateValue x m = Some (state_value v) \<and> ErrorText x m = Some (error_text v))"
proof -
  obtain m where m: "status_run cs empty_mem = Some m" "owned m None" "status_vals m = V"
    using status_run_simulates [OF owned_empty, of cs] assms
    by (auto simp: simulates_def status_vals_empty)
  have "heap m a \<noteq> None \<longleftrightarrow> (\<exists>!x. objs m x = Some (Some a))" for a
    using ownedD(1,2,5) [OF m(2)] by (metis option.distinct(1) option.exhaust)
  then show ?thesis
    using m ownedD(1) [OF m(2)] observers_val [OF m(2)] by blast
qed

theorem statuses_are_values_witness:
  "\<exists>m. status_run [Op_new 0 kFailed ''io'', Op_copy 1 0, Op_assign 0 0, Op_move 2 0,
       Op_new 3 kEof [], Op_move_assign 3 1, Op_swap 0 3, Op_destroy 2] empty_mem = Some m \<and>
     ErrorText 0 m = Some ''io'' \<and> StateValue 0 m = Some kFailed \<and> IsOK 1 m = Some True"
proof -
  let ?cs = "[Op_new 0 kFailed ''io'', Op_copy 1 0, Op_assign 0 0, Op_move 2 0,
    Op_new 3 kEof [], Op_move_assign 3 1, Op_swap 0 3, Op_destroy 2]"
  obtain V where V: "val_run ?cs Map.empty = Some V" "V 0 = Some (Some (kFailed, ''io''))"
    "V 1 = Some None"
    by (simp add: Status_of_def Status_OK_def)
  show ?thesis
    using statuses_are_values [OF V(1)] V(2,3)
    by (fastforce simp: error_text_def state_value_def)
qed

end
