(* ===== verification/Socket_Ops.thy ===== *)
theory Socket_Ops
  imports Status
begin

text \<open>
  The socket layer (\<open>src/src/util/socketops.h\<close>, \<open>src/src/util/socketops.cpp\<close>): internet
  addresses and the wrappers that turn a system call's return value and \<open>errno\<close> into a
  \<open>Status\<close> or a \<open>Result\<close>.

  The operating system is a parameter, the record \<open>os\<close> of the calls the sources make.  A call
  works on an opaque world \<open>'w\<close> and returns the C return value together with the value of
  \<open>errno\<close> after the call; \<open>recv\<close> also returns the bytes it stored, \<open>accept\<close>, \<open>getsockname\<close>
  and \<open>getpeername\<close> the address.  What the proofs use of the system's documented behaviour are
  the named laws at the end of the theory.
\<close>

subsection \<open>The operating system\<close>

datatype errno = EAGAIN | EINTR | EISCONN | EINPROGRESS | Errno nat

record sockaddr_in =
  sin_family :: u16
  sin_port :: u16   \<comment> \<open>network byte order\<close>
  s_addr :: u32     \<comment> \<open>network byte order\<close>

type_synonym 'w syscall = "'w \<Rightarrow> (int \<times> errno) \<times> 'w"

record 'w os =
  os_socket :: "'w syscall"
  os_bind :: "int \<Rightarrow> sockaddr_in \<Rightarrow> 'w syscall"
  os_listen :: "int \<Rightarrow> int \<Rightarrow> 'w syscall"
  os_accept :: "int \<Rightarrow> 'w \<Rightarrow> (int \<times> errno \<times> sockaddr_in) \<times> 'w"
  os_connect :: "int \<Rightarrow> sockaddr_in \<Rightarrow> 'w syscall"
  os_shutdown_wr :: "int \<Rightarrow> 'w syscall"
  os_recv :: "int \<Rightarrow> nat \<Rightarrow> 'w \<Rightarrow> (int \<times> errno \<times> string) \<times> 'w"
  os_send :: "int \<Rightarrow> string \<Rightarrow> 'w syscall"
  os_getfl :: "int \<Rightarrow> 'w syscall"
  os_setfl :: "int \<Rightarrow> int \<Rightarrow> 'w syscall"
  os_set_reuseaddr :: "int \<Rightarrow> int \<Rightarrow> 'w syscall"
  os_set_nodelay :: "int \<Rightarrow> int \<Rightarrow> 'w syscall"
  os_getsockname :: "int \<Rightarrow> 'w \<Rightarrow> (int \<times> errno \<times> sockaddr_in) \<times> 'w"
  os_getpeername :: "int \<Rightarrow> 'w \<Rightarrow> (int \<times> errno \<times> sockaddr_in) \<times> 'w"
  os_close :: "int \<Rightarrow> 'w \<Rightarrow> 'w"
  os_epoll_create :: "'w syscall"
  os_pipe :: "'w \<Rightarrow> (int \<times> int \<times> int) \<times> 'w"
  os_epoll_add :: "int \<Rightarrow> int \<Rightarrow> u64 \<Rightarrow> u32 \<Rightarrow> 'w syscall"
  os_epoll_del :: "int \<Rightarrow> int \<Rightarrow> 'w syscall"
  os_epoll_wait :: "int \<Rightarrow> nat \<Rightarrow> 'w \<Rightarrow> (int \<times> errno \<times> (u64 \<times> u32) list) \<times> 'w"
  os_write :: "int \<Rightarrow> string \<Rightarrow> 'w syscall"
  os_inet_pton :: "string \<Rightarrow> u32 option"
  os_inet_ntop :: "u32 \<Rightarrow> string"
  os_strerror :: "errno \<Rightarrow> string"

text \<open>The text of the current \<open>errno\<close>, followed by the place in the sources.\<close>

definition ERRNO_TEXT :: "'w os \<Rightarrow> string \<Rightarrow> string \<Rightarrow> errno \<Rightarrow> string" where
  "ERRNO_TEXT os file line e = os_strerror os e @ ''('' @ file @ '':'' @ line @ '')''"

abbreviation socketops_cpp :: string where
  "socketops_cpp \<equiv> ''socketops.cpp''"

subsection \<open>Internet addresses\<close>

definition AF_INET :: u16 where "AF_INET = 2"
definition INADDR_ANY :: u32 where "INADDR_ANY = 0"
definition O_NONBLOCK :: int where "O_NONBLOCK = 2048"

text \<open>\<open>htons\<close> and \<open>ntohs\<close> on a little-endian host swap the two bytes; \<open>htonl(INADDR_ANY)\<close> is zero.\<close>

definition htons :: "u16 \<Rightarrow> u16" where
  "htons x = push_bit 8 x OR drop_bit 8 x"

definition ntohs :: "u16 \<Rightarrow> u16" where
  "ntohs x = push_bit 8 x OR drop_bit 8 x"

definition InetAddress :: sockaddr_in where
  "InetAddress = \<lparr>sin_family = 0, sin_port = 0, s_addr = 0\<rparr>"

text \<open>
  \<open>SetInetAddress\<close> on a C string, \<open>None\<close> being \<open>NULL\<close>; the result is the return value and the
  new address.
\<close>

definition SetInetAddress_cstr ::
  "'w os \<Rightarrow> string option \<Rightarrow> u16 \<Rightarrow> sockaddr_in \<Rightarrow> bool \<times> sockaddr_in" where
  "SetInetAddress_cstr os ip port addr =
     (let addr = InetAddress in
      case (case ip of
              Some s \<Rightarrow> map_option (\<lambda>a. addr\<lparr>s_addr := a\<rparr>) (os_inet_pton os s)
            | None \<Rightarrow> Some (addr\<lparr>s_addr := INADDR_ANY\<rparr>)) of
        None \<Rightarrow> (False, addr)
      | Some addr \<Rightarrow> (True, addr\<lparr>sin_family := AF_INET, sin_port := htons port\<rparr>))"

definition SetInetAddress :: "'w os \<Rightarrow> string \<Rightarrow> u16 \<Rightarrow> sockaddr_in \<Rightarrow> bool \<times> sockaddr_in" where
  "SetInetAddress os ip port addr =
     (if ip \<noteq> [] then SetInetAddress_cstr os (Some ip) port addr
      else SetInetAddress_cstr os None port addr)"

definition GetIp :: "'w os \<Rightarrow> sockaddr_in \<Rightarrow> string" where
  "GetIp os addr = os_inet_ntop os (s_addr addr)"

definition GetIpPort :: "sockaddr_in \<Rightarrow> u16" where
  "GetIpPort addr = ntohs (sin_port addr)"

definition GetIpNetEndian :: "sockaddr_in \<Rightarrow> u32" where
  "GetIpNetEndian addr = s_addr addr"

definition GetIpPortNetEndian :: "sockaddr_in \<Rightarrow> u16" where
  "GetIpPortNetEndian addr = sin_port addr"

subsection \<open>Socket options\<close>

definition SetNonBlocking :: "'w os \<Rightarrow> int \<Rightarrow> 'w \<Rightarrow> bool \<times> 'w" where
  "SetNonBlocking os fd w =
     (let ((opts, _), w) = os_getfl os fd w in
      if opts < 0 then (False, w)
      else let ((r, _), w) = os_setfl os fd (opts OR O_NONBLOCK) w in (\<not> r < 0, w))"

definition SetReuseAddr :: "'w os \<Rightarrow> int \<Rightarrow> 'w \<Rightarrow> bool \<times> 'w" where
  "SetReuseAddr os sockfd w =
     (let ((r, _), w) = os_set_reuseaddr os sockfd 1 w in (if r = -1 then (False, w) else (True, w)))"

definition SetNoDelay :: "'w os \<Rightarrow> int \<Rightarrow> bool \<Rightarrow> 'w \<Rightarrow> bool \<times> 'w" where
  "SetNoDelay os sockfd bl w =
     (let ((r, _), w) = os_set_nodelay os sockfd (if bl then 1 else 0) w in (r = 0, w))"

definition ShutdownWrite :: "'w os \<Rightarrow> int \<Rightarrow> 'w \<Rightarrow> bool \<times> 'w" where
  "ShutdownWrite os sockfd w = (let ((r, _), w) = os_shutdown_wr os sockfd w in (r = 0, w))"

subsection \<open>TCP calls\<close>

definition Socket :: "'w os \<Rightarrow> 'w \<Rightarrow> int result \<times> 'w" where
  "Socket os w =
     (let ((s, e), w) = os_socket os w in
      (if s \<noteq> -1 then Result_value s
       else Result_status 0 (Status_of kFailed (ERRNO_TEXT os socketops_cpp ''94'' e)), w))"

definition Bind :: "'w os \<Rightarrow> int \<Rightarrow> sockaddr_in \<Rightarrow> 'w \<Rightarrow> status \<times> 'w" where
  "Bind os fd addr w =
     (let ((r, e), w) = os_bind os fd addr w in
      (if r = 0 then Status_OK
       else Status_of kFailed (ERRNO_TEXT os socketops_cpp ''111'' e), w))"

definition Bind_cstr :: "'w os \<Rightarrow> int \<Rightarrow> string option \<Rightarrow> u16 \<Rightarrow> 'w \<Rightarrow> status \<times> 'w" where
  "Bind_cstr os sockfd ip port w =
     (let (ok, addr) = SetInetAddress_cstr os ip port InetAddress in
      if ok then Bind os sockfd addr w else (Status_of kInvailArgument [], w))"

definition Listen :: "'w os \<Rightarrow> int \<Rightarrow> 'w \<Rightarrow> status \<times> 'w" where
  "Listen os fd w =
     (let ((r, e), w) = os_listen os fd 32 w in
      (if r = 0 then Status_OK
       else Status_of kFailed (ERRNO_TEXT os socketops_cpp ''119'' e), w))"

definition Accept :: "'w os \<Rightarrow> int \<Rightarrow> 'w \<Rightarrow> int result \<times> 'w" where
  "Accept os sockfd w =
     (let ((fd, e, _), w) = os_accept os sockfd w in
      (if fd \<ge> 0 then Result_value fd
       else case e of
              EAGAIN \<Rightarrow> Result_status 0 (Status_of kAgain [])
            | _ \<Rightarrow> Result_status 0 (Status_of kFailed (ERRNO_TEXT os socketops_cpp ''135'' e)), w))"

text \<open>\<open>connfd\<close> and \<open>inet_addr\<close> are in-out parameters: they come back unchanged on failure.\<close>

definition Accept2 ::
  "'w os \<Rightarrow> int \<Rightarrow> int \<Rightarrow> sockaddr_in \<Rightarrow> 'w \<Rightarrow> status \<times> int \<times> sockaddr_in \<times> 'w" where
  "Accept2 os listenfd connfd inet_addr w =
     (let ((fd, e, addr), w) = os_accept os listenfd w in
      if fd \<ge> 0 then (Status_OK, fd, addr, w)
      else (case e of
              EAGAIN \<Rightarrow> Status_of kAgain []
            | _ \<Rightarrow> Status_of kFailed (ERRNO_TEXT os socketops_cpp ''155'' e), connfd, inet_addr, w))"

definition Connect :: "'w os \<Rightarrow> int \<Rightarrow> sockaddr_in \<Rightarrow> 'w \<Rightarrow> status \<times> 'w" where
  "Connect os sockfd addr w =
     (let ((r, e), w) = os_connect os sockfd addr w in
      (if r = 0 then Status_OK
       else case e of
              EISCONN \<Rightarrow> Status_OK
            | EAGAIN \<Rightarrow> Status_of kAgain []
            | EINPROGRESS \<Rightarrow> Status_of kAgain []
            | EINTR \<Rightarrow> Status_of State_kInterrupt []
            | _ \<Rightarrow> Status_of kFailed (ERRNO_TEXT os socketops_cpp ''187'' e), w))"

definition Connect_cstr :: "'w os \<Rightarrow> int \<Rightarrow> string option \<Rightarrow> u16 \<Rightarrow> 'w \<Rightarrow> status \<times> 'w" where
  "Connect_cstr os sockfd ip port w =
     (let (ok, addr) = SetInetAddress_cstr os ip port InetAddress in
      if ok then Connect os sockfd addr w else (Status_of kInvailArgument [], w))"

text \<open>The bytes \<open>recv\<close> stored in the buffer are returned beside the result.\<close>

definition Recv :: "'w os \<Rightarrow> int \<Rightarrow> nat \<Rightarrow> 'w \<Rightarrow> nat result \<times> string \<times> 'w" where
  "Recv os fd len w =
     (let ((r, e, buf), w) = os_recv os fd len w in
      (if r > 0 then Result_value (nat r)
       else if r = 0 then Result_status 0 (Status_of kEof [])
       else case e of
              EAGAIN \<Rightarrow> Result_status 0 (Status_of kAgain [])
            | EINTR \<Rightarrow> Result_status 0 (Status_of State_kInterrupt [])
            | _ \<Rightarrow> Result_status 0 (Status_of kFailed (ERRNO_TEXT os socketops_cpp ''213'' e)), buf, w))"

definition Send :: "'w os \<Rightarrow> int \<Rightarrow> string \<Rightarrow> 'w \<Rightarrow> nat result \<times> 'w" where
  "Send os fd buf w =
     (let ((r, e), w) = os_send os fd buf w in
      (if r \<ge> 0 then Result_value (nat r)
       else case e of
              EAGAIN \<Rightarrow> Result_status 0 (Status_of kAgain [])
            | EINTR \<Rightarrow> Result_status 0 (Status_of State_kInterrupt [])
            | _ \<Rightarrow> Result_status 0 (Status_of kFailed (ERRNO_TEXT os socketops_cpp ''232'' e)), w))"

definition GetLocalAddress ::
  "'w os \<Rightarrow> int \<Rightarrow> sockaddr_in \<Rightarrow> 'w \<Rightarrow> status \<times> sockaddr_in \<times> 'w" where
  "GetLocalAddress os sockfd inet_addr w =
     (let ((r, e, addr), w) = os_getsockname os sockfd w in
      if r < 0 then (Status_of kFailed (ERRNO_TEXT os socketops_cpp ''249'' e), inet_addr, w)
      else (Status_OK, addr, w))"

definition GetPeerAddress ::
  "'w os \<Rightarrow> int \<Rightarrow> sockaddr_in \<Rightarrow> 'w \<Rightarrow> status \<times> sockaddr_in \<times> 'w" where
  "GetPeerAddress os sockfd inet_addr w =
     (let ((r, e, addr), w) = os_getpeername os sockfd w in
      if r < 0 then (Status_of kFailed (ERRNO_TEXT os socketops_cpp ''262'' e), inet_addr, w)
      else (Status_OK, addr, w))"

subsection \<open>Laws of the operating system\<close>

text \<open>
  A stream socket delivers a sequence of bytes: \<open>inbox fd w\<close> are the bytes not yet received on
  \<open>fd\<close>.  A \<open>recv\<close> of at most \<open>n\<close> bytes that returns a positive \<open>r\<close> has stored the next \<open>r\<close> of
  them, at most \<open>n\<close>; otherwise it has taken none.
\<close>

definition recv_law :: "'w os \<Rightarrow> (int \<Rightarrow> 'w \<Rightarrow> string) \<Rightarrow> bool" where
  "recv_law os inbox \<longleftrightarrow>
     (\<forall>fd n w r e buf w'. os_recv os fd n w = ((r, e, buf), w') \<longrightarrow>
        (if 0 < r then nat r \<le> n \<and> length buf = nat r \<and> inbox fd w = buf @ inbox fd w'
         else inbox fd w' = inbox fd w))"

text \<open>
  \<open>outbox fd w\<close> are the bytes the system has taken over for sending on \<open>fd\<close>: a \<open>send\<close> that
  returns \<open>r \<ge> 0\<close> has taken the first \<open>r\<close> bytes, at most all of them, one that fails none.
\<close>

definition send_law :: "'w os \<Rightarrow> (int \<Rightarrow> 'w \<Rightarrow> string) \<Rightarrow> bool" where
  "send_law os outbox \<longleftrightarrow>
     (\<forall>fd buf w r e w'. os_send os fd buf w = ((r, e), w') \<longrightarrow>
        (if 0 \<le> r then nat r \<le> length buf \<and> outbox fd w' = outbox fd w @ take (nat r) buf
         else outbox fd w' = outbox fd w))"

text \<open>
  Patience: the system answers \<open>EAGAIN\<close> or \<open>EINTR\<close> (or, to a \<open>send\<close> of some bytes, takes nothing) only a
  bounded number of times, \<open>patience w\<close>, before it makes progress or fails.
\<close>

definition transient :: "errno \<Rightarrow> bool" where
  "transient e \<longleftrightarrow> e = EAGAIN \<or> e = EINTR"

definition recv_patient :: "'w os \<Rightarrow> ('w \<Rightarrow> nat) \<Rightarrow> bool" where
  "recv_patient os patience \<longleftrightarrow>
     (\<forall>fd n w r e buf w'. os_recv os fd n w = ((r, e, buf), w') \<longrightarrow> r < 0 \<longrightarrow> transient e \<longrightarrow>
        patience w' < patience w)"

definition send_patient :: "'w os \<Rightarrow> ('w \<Rightarrow> nat) \<Rightarrow> bool" where
  "send_patient os patience \<longleftrightarrow>
     (\<forall>fd buf w r e w'. os_send os fd buf w = ((r, e), w') \<longrightarrow> buf \<noteq> [] \<longrightarrow>
        r = 0 \<or> r < 0 \<and> transient e \<longrightarrow> patience w' < patience w)"

subsection \<open>What the wrappers report\<close>

lemma ntohs_htons [simp]: "ntohs (htons p) = p"
proof (rule bit_word_eqI)
  fix n assume "n < LENGTH(16)"
  then have n: "n < 16" by simp
  show "bit (ntohs (htons p)) n = bit p n"
    using n bit_imp_le_length [of p "n + 8"]
    by (cases "n < 8")
      (auto simp: htons_def ntohs_def bit_or_iff bit_push_bit_iff bit_drop_bit_eq dest: bit_imp_le_length)
qed

lemma SetInetAddress_port:
  "SetInetAddress os ip port a = (True, addr) \<Longrightarrow> GetIpPort addr = port"
  by (auto simp: SetInetAddress_def SetInetAddress_cstr_def GetIpPort_def Let_def
      split: option.splits if_splits)

lemma Recv_cases:
  assumes "Recv os fd n w = (r, buf, w')" "recv_law os inbox"
  obtains (bytes) "Result_bool r" "0 < Result_get r" "Result_get r \<le> n" "length buf = Result_get r"
      "inbox fd w = buf @ inbox fd w'" "res_state r = Status_OK"
  | (failed) "\<not> Result_bool r" "inbox fd w' = inbox fd w"
proof -
  obtain x e b where call: "os_recv os fd n w = ((x, e, b), w')"
    using assms(1) by (auto simp: Recv_def split: prod.splits)
  have law: "if 0 < x then nat x \<le> n \<and> length b = nat x \<and> inbox fd w = b @ inbox fd w'
      else inbox fd w' = inbox fd w"
    using assms(2) call unfolding recv_law_def by blast
  show thesis
  proof (cases "0 < x")
    case True
    then show thesis
      using law assms(1) call by (intro bytes) (auto simp: Recv_def Result_value_def Result_get_def Result_bool_def)
  next
    case False
    then show thesis
      using law assms(1) call
      by (intro failed) (auto simp: Recv_def Result_bool_def Result_status_def split: errno.splits if_splits)
  qed
qed

lemma Recv_patient:
  assumes "Recv os fd n w = (r, buf, w')" "recv_patient os patience"
    "status_Is kAgain (res_state r) \<or> status_Is State_kInterrupt (res_state r)"
  shows "patience w' < patience w"
proof -
  obtain x e b where call: "os_recv os fd n w = ((x, e, b), w')"
    using assms(1) by (auto simp: Recv_def split: prod.splits)
  have "x < 0 \<and> transient e"
    using assms(1,3) call
    by (auto simp: Recv_def transient_def Result_value_def split: if_splits errno.splits)
  then show ?thesis using assms(2) call unfolding recv_patient_def by blast
qed

lemma Send_cases:
  assumes "Send os fd buf w = (r, w')" "send_law os outbox"
  obtains (bytes) "Result_bool r" "Result_get r \<le> length buf"
      "outbox fd w' = outbox fd w @ take (Result_get r) buf" "res_state r = Status_OK"
  | (failed) "\<not> Result_bool r" "outbox fd w' = outbox fd w"
proof -
  obtain x e where call: "os_send os fd buf w = ((x, e), w')"
    using assms(1) by (auto simp: Send_def split: prod.splits)
  have law: "if 0 \<le> x then nat x \<le> length buf \<and> outbox fd w' = outbox fd w @ take (nat x) buf
      else outbox fd w' = outbox fd w"
    using assms(2) call unfolding send_law_def by blast
  show thesis
  proof (cases "0 \<le> x")
    case True
    then show thesis
      using law assms(1) call by (intro bytes) (auto simp: Send_def Result_value_def Result_get_def Result_bool_def)
  next
    case False
    then show thesis
      using law assms(1) call
      by (intro failed) (auto simp: Send_def Result_bool_def Result_status_def split: errno.splits if_splits)
  qed
qed

lemma Send_patient:
  assumes "Send os fd buf w = (r, w')" "send_patient os patience"
    "Result_bool r \<and> Result_get r = 0 \<or> status_Is kAgain (res_state r) \<or>
     status_Is State_kInterrupt (res_state r)" "buf \<noteq> []"
  shows "patience w' < patience w"
proof -
  obtain x e where call: "os_send os fd buf w = ((x, e), w')"
    using assms(1) by (auto simp: Send_def split: prod.splits)
  have "x = 0 \<or> x < 0 \<and> transient e"
    using assms(1,3) call
    by (auto simp: Send_def transient_def Result_value_def Result_get_def Result_bool_def
        Result_status_def split: if_splits errno.splits)
  then show ?thesis using assms(2,4) call unfolding send_patient_def by blast
qed

subsection \<open>A kernel for examples\<close>

text \<open>Every call succeeds and changes nothing; no data and no connection ever arrives.\<close>

definition quiet_os :: "'w os" where
  "quiet_os =
     \<lparr>os_socket = (\<lambda>w. ((3, Errno 0), w)),
      os_bind = (\<lambda>fd a w. ((0, Errno 0), w)), os_listen = (\<lambda>fd n w. ((0, Errno 0), w)),
      os_accept = (\<lambda>fd w. ((-1, EAGAIN, InetAddress), w)), os_connect = (\<lambda>fd a w. ((0, Errno 0), w)),
      os_shutdown_wr = (\<lambda>fd w. ((0, Errno 0), w)), os_recv = (\<lambda>fd n w. ((0, Errno 0, []), w)),
      os_send = (\<lambda>fd s w. ((int (length s), Errno 0), w)), os_getfl = (\<lambda>fd w. ((2, Errno 0), w)),
      os_setfl = (\<lambda>fd v w. ((0, Errno 0), w)), os_set_reuseaddr = (\<lambda>fd v w. ((0, Errno 0), w)),
      os_set_nodelay = (\<lambda>fd v w. ((0, Errno 0), w)),
      os_getsockname = (\<lambda>fd w. ((0, Errno 0, InetAddress), w)),
      os_getpeername = (\<lambda>fd w. ((0, Errno 0, InetAddress), w)),
      os_close = (\<lambda>fd w. w),
      os_epoll_create = (\<lambda>w. ((4, Errno 0), w)), os_pipe = (\<lambda>w. ((0, 5, 6), w)),
      os_epoll_add = (\<lambda>efd fd dat ev w. ((0, Errno 0), w)),
      os_epoll_del = (\<lambda>efd fd w. ((0, Errno 0), w)),
      os_epoll_wait = (\<lambda>efd n w. ((0, Errno 0, []), w)),
      os_write = (\<lambda>fd s w. ((int (length s), Errno 0), w)),
      os_inet_pton = (\<lambda>s. if s = ''127.0.0.1'' then Some 16777343 else None),
      os_inet_ntop = (\<lambda>a. ''127.0.0.1''), os_strerror = (\<lambda>e. ''error'')\<rparr>"

end
