(* ===== verification/IO_Service.thy ===== *)
theory IO_Service
  imports Socket_Ops Scheduler_Properties
begin

text \<open>
  The I/O service (\<open>src/src/IOService.h\<close>, \<open>src/src/IOService.cpp\<close>): an epoll instance in which
  a service registers one file descriptor before it blocks, and the thread that wakes services
  whose descriptors are ready.  \<open>System::WaitIO\<close> and its two wrappers, through which services
  use it, are here too.

  \<open>epoll_wait\<close> returns the number of events and the events, each a 64-bit datum and a mask; the
  datum is the handle index of the registered service, or all ones for the pipe that ends the
  thread.
\<close>

subsection \<open>Event masks of epoll\<close>

definition EPOLLIN :: u32 where "EPOLLIN = 1"
definition EPOLLOUT :: u32 where "EPOLLOUT = 4"
definition EPOLLERR :: u32 where "EPOLLERR = 8"
definition EPOLLHUP :: u32 where "EPOLLHUP = 16"
definition EPOLLRDHUP :: u32 where "EPOLLRDHUP = push_bit 13 1"
definition EPOLLET :: u32 where "EPOLLET = push_bit 31 1"

definition EpollEventText :: "int \<Rightarrow> u32 \<Rightarrow> string" where
  "EpollEventText fd e =
     (let msg = [];
          msg = msg @ (if e AND EPOLLIN \<noteq> 0 then ''IN '' else []);
          msg = msg @ (if e AND EPOLLOUT \<noteq> 0 then ''OUT '' else []);
          msg = msg @ (if e AND EPOLLERR \<noteq> 0 then ''ERR '' else []);
          msg = msg @ (if e AND EPOLLHUP \<noteq> 0 then ''HUP '' else []);
          msg = msg @ (if e AND EPOLLRDHUP \<noteq> 0 then ''RDHUP '' else [])
      in msg)"

subsection \<open>The service\<close>

record io_service =
  epoll_fd :: int
  exit_pipe_read :: int
  exit_pipe_write :: int

definition IOService_init :: io_service where
  "IOService_init = \<lparr>epoll_fd = -1, exit_pipe_read = -1, exit_pipe_write = -1\<rparr>"

text \<open>
  \<open>pipe\<close> returns its result and the two descriptors, which it stores only on success; the error
  paths of \<open>Initialize\<close> close what was opened.
\<close>

definition IOService_Initialize :: "'w os \<Rightarrow> io_service \<Rightarrow> 'w \<Rightarrow> status \<times> io_service \<times> 'w" where
  "IOService_Initialize os io w =
     (let io = io\<lparr>exit_pipe_read := -1, exit_pipe_write := -1\<rparr>;
          ((efd, _), w) = os_epoll_create os w;
          io = io\<lparr>epoll_fd := efd\<rparr>
      in if efd = -1 then (Status_of kFailed ''epoll_create1 failed'', io, w)
         else
           let ((r, p0, p1), w) = os_pipe os w
           in if r = -1
              then (Status_of kFailed ''pipe failed'', io\<lparr>epoll_fd := -1\<rparr>, os_close os efd w)
              else
                let io = io\<lparr>exit_pipe_read := p0, exit_pipe_write := p1\<rparr>;
                    ((r, _), w) = os_epoll_add os efd p0 (-1) EPOLLIN w
                in if r = -1
                   then (Status_of kFailed ''epoll_ctl add pipe failed'', io\<lparr>epoll_fd := -1\<rparr>,
                         os_close os p1 (os_close os p0 (os_close os efd w)))
                   else (Status_OK, io, w))"

definition IOService_Stop :: "'w os \<Rightarrow> io_service \<Rightarrow> 'w \<Rightarrow> 'w" where
  "IOService_Stop os io w = snd (os_write os (exit_pipe_write io) ''1'' w)"

definition IOService_destroy :: "'w os \<Rightarrow> io_service \<Rightarrow> 'w \<Rightarrow> 'w" where
  "IOService_destroy os io w =
     (let w = (if epoll_fd io \<ge> 0 then os_close os (epoll_fd io) w else w)
      in if exit_pipe_read io \<noteq> -1
         then os_close os (exit_pipe_write io) (os_close os (exit_pipe_read io) w) else w)"

text \<open>
  \<open>Add\<close> and \<open>Remove\<close> on the descriptor of the service with handle index \<open>h\<close>; \<open>set_fd\<close> is
  \<open>System::SetServiceFD\<close> on that service.
\<close>

definition IOService_Add ::
  "'w os \<Rightarrow> io_service \<Rightarrow> (int \<Rightarrow> 'w \<Rightarrow> 'w) \<Rightarrow> int \<Rightarrow> int \<Rightarrow> u32 \<Rightarrow> 'w \<Rightarrow> status \<times> 'w" where
  "IOService_Add os io set_fd h fd evs w =
     (let w = set_fd fd w;
          ((r, e), w) = os_epoll_add os (epoll_fd io) fd (word_of_int h) evs w
      in if r = -1 then (Status_of kFailed (ERRNO_TEXT os ''IOService.cpp'' ''85'' e), w)
         else (Status_OK, w))"

definition IOService_Remove :: "'w os \<Rightarrow> io_service \<Rightarrow> int \<Rightarrow> 'w \<Rightarrow> status \<times> 'w" where
  "IOService_Remove os io fd w =
     (let ((r, e), w) = os_epoll_del os (epoll_fd io) fd w
      in if r = -1 then (Status_of kFailed (ERRNO_TEXT os ''IOService.cpp'' ''98'' e), w)
         else (Status_OK, w))"

subsection \<open>The I/O thread\<close>

text \<open>
  The loop over the events of one \<open>epoll_wait\<close>; the result is \<open>True\<close> when the thread's function
  returns.  The thread is not a worker thread.
\<close>

fun IOService_dispatch ::
  "'w os \<Rightarrow> io_service \<Rightarrow> (u64 \<times> u32) list \<Rightarrow> 'm system \<Rightarrow> 'w \<Rightarrow> (bool \<times> 'm system \<times> 'w) option" where
  "IOService_dispatch os io [] sys w = Some (False, sys, w)"
| "IOService_dispatch os io ((dat, ev) # evs) sys w =
     (if sint dat < 0 then Some (True, sys, w)
      else do {
        srv \<leftarrow> GrabService None (sint dat) sys;
        (case srv of
           None \<Rightarrow> IOService_dispatch os io evs sys w
         | Some s \<Rightarrow> do {
             let fd = GetServiceFD s sys;
             CHECK (fd \<ge> 0);
             let w = snd (os_epoll_del os (epoll_fd io) fd w);
             IOService_dispatch os io evs (OnIOReady s ev sys) w
           })
      })"

text \<open>
  One round of \<open>Run\<close> for a thread that is not interrupted.
\<close>

definition IOService_round ::
  "'w os \<Rightarrow> io_service \<Rightarrow> 'm system \<Rightarrow> 'w \<Rightarrow> (bool \<times> 'm system \<times> 'w) option" where
  "IOService_round os io sys w =
     (let ((nfds, e, evs), w) = os_epoll_wait os (epoll_fd io) 32 w
      in if nfds = -1
         then (if e \<noteq> EINTR then Some (True, sys, w) else Some (False, sys, w))
         else IOService_dispatch os io (take (nat nfds) evs) sys w)"

text \<open>
  \<open>Run\<close> until it returns, while other threads move the system between two rounds
  (\<open>others\<close>, given the number of the round); \<open>interrupted\<close> is the thread's flag.  \<open>None\<close> is a
  failed \<open>CHECK\<close> or a run without end.
\<close>

partial_function (option) IOService_Run ::
  "'w os \<Rightarrow> (nat \<Rightarrow> bool) \<Rightarrow> (nat \<Rightarrow> 'm system \<Rightarrow> 'm system) \<Rightarrow> io_service \<Rightarrow> nat \<Rightarrow> 'm system \<Rightarrow> 'w \<Rightarrow>
    ('m system \<times> 'w) option" where
  "IOService_Run os interrupted others io k sys w =
     (if interrupted k then Some (sys, w)
      else do {
        (ret, sys, w) \<leftarrow> IOService_round os io sys w;
        if ret then Some (sys, w)
        else IOService_Run os interrupted others io (Suc k) (others k sys) w
      })"

subsection \<open>Waiting for a descriptor\<close>

text \<open>
  What a function of a service sees of the system around it: the operating system, the I/O
  service, its own handle index, the fields of its context that \<open>WaitIO\<close> touches, its stop flag
  and \<open>Wait_Locked\<close>, which blocks it while the rest of the world moves on and returns the events
  it was woken with.
\<close>

record 'w svc =
  svc_os :: "'w os"
  svc_io :: io_service
  svc_index :: int
  svc_set_fd :: "int \<Rightarrow> 'w \<Rightarrow> 'w"
  svc_set_io_events :: "u32 \<Rightarrow> 'w \<Rightarrow> 'w"
  svc_get_io_events :: "'w \<Rightarrow> u32"
  svc_stopping :: "'w \<Rightarrow> bool"
  svc_wait :: "u32 \<Rightarrow> 'w \<Rightarrow> u32 \<times> 'w"

definition WaitIO :: "'w svc \<Rightarrow> int \<Rightarrow> u32 \<Rightarrow> 'w \<Rightarrow> status \<times> 'w" where
  "WaitIO sv fd ioev w =
     (let w = svc_set_io_events sv 0 w;
          (s, w) = IOService_Add (svc_os sv) (svc_io sv) (svc_set_fd sv) (svc_index sv) fd ioev w
      in if status_IsOK s
         then let (revs, w) = svc_wait sv (kIO_Operation OR kServiceStop OR kInterrupt) w
              in if revs AND kIO_Operation \<noteq> 0
                 then (if svc_get_io_events sv w AND ioev \<noteq> 0 then (Status_OK, w)
                       else (Status_of kFailed ''WaitIO: io error'', w))
                 else let (_, w) = IOService_Remove (svc_os sv) (svc_io sv) fd w
                      in (Status_of State_kInterrupt [], w)
         else (s, w))"

definition WaitInput :: "'w svc \<Rightarrow> int \<Rightarrow> 'w \<Rightarrow> status \<times> 'w" where
  "WaitInput sv fd w = WaitIO sv fd (EPOLLIN OR EPOLLET) w"

definition WaitOutput :: "'w svc \<Rightarrow> int \<Rightarrow> 'w \<Rightarrow> status \<times> 'w" where
  "WaitOutput sv fd w = WaitIO sv fd (EPOLLOUT OR EPOLLET) w"

text \<open>The functions of \<open>Service\<close>.\<close>

definition Service_WaitInput :: "'w svc \<Rightarrow> int \<Rightarrow> 'w \<Rightarrow> status \<times> 'w" where
  "Service_WaitInput sv fd w = WaitInput sv fd w"

definition Service_WaitOutput :: "'w svc \<Rightarrow> int \<Rightarrow> 'w \<Rightarrow> status \<times> 'w" where
  "Service_WaitOutput sv fd w = WaitOutput sv fd w"

subsection \<open>The I/O thread and the scheduler\<close>

text \<open>What handing out one event changes.\<close>

lemma OnIOReady_frame:
  "services (OnIOReady s ev sys) = services sys"
  "GetServiceFD x (OnIOReady s ev sys) = GetServiceFD x sys"
  "wait_events (contexts (OnIOReady s ev sys) x) = wait_events (contexts sys x)"
  by (auto simp: OnIOReady_def Wakeup_Locked_def PutReadyService_def GetServiceFD_def Let_def)

lemma OnIOReady_keeps_event:
  "events (contexts sys x) AND kIO_Operation \<noteq> 0 \<Longrightarrow>
   events (contexts (OnIOReady s ev sys) x) AND kIO_Operation \<noteq> 0"
  by (auto simp: OnIOReady_def Wakeup_Locked_def PutReadyService_def Let_def event_simps)

lemma OnIOReady_event:
  "wait_events (contexts sys s) AND kIO_Operation \<noteq> 0 \<Longrightarrow>
   events (contexts (OnIOReady s ev sys) s) AND kIO_Operation \<noteq> 0"
  by (auto simp: OnIOReady_def Wakeup_Locked_def PutReadyService_def Let_def event_defs
      bit.conj_disj_distrib2)

definition registered_ok :: "'m system \<Rightarrow> (u64 \<times> u32) list \<Rightarrow> bool" where
  "registered_ok sys evs \<longleftrightarrow>
     (\<forall>(dat, ev) \<in> set evs. 0 \<le> sint dat \<longrightarrow> sint dat \<noteq> idle_service_index \<and>
        (\<forall>s. FindService (sint dat) sys = Some s \<longrightarrow> 0 \<le> GetServiceFD s sys))"

definition delivered :: "(u64 \<times> u32) list \<Rightarrow> (u64 \<times> u32) list" where
  "delivered evs = takeWhile (\<lambda>(dat, _). 0 \<le> sint dat) evs"

lemma dispatch_keeps_event:
  "IOService_dispatch os io evs sys w = Some (ret, sys', w') \<Longrightarrow>
   events (contexts sys x) AND kIO_Operation \<noteq> 0 \<Longrightarrow>
   events (contexts sys' x) AND kIO_Operation \<noteq> 0"
proof (induction evs arbitrary: sys w)
  case (Cons e evs)
  obtain dat ev where e: "e = (dat, ev)" by (rule prod.exhaust)
  show ?case
  proof (cases "sint dat < 0")
    case True
    then show ?thesis using Cons.prems by (simp add: e)
  next
    case False
    then obtain srv where srv: "GrabService None (sint dat) sys = Some srv"
      using Cons.prems(1) by (auto simp: e bind_eq_Some_conv)
    show ?thesis
      using Cons.prems Cons.IH [of sys w] False srv
        Cons.IH [of "OnIOReady (the srv) ev sys" "snd (os_epoll_del os (epoll_fd io) (GetServiceFD (the srv) sys) w)"]
        OnIOReady_keeps_event [of sys x "the srv" ev]
      by (cases srv) (simp_all add: e Let_def split: if_splits)
  qed
qed simp

text \<open>Every delivered event has reached its service, if the service waits for it.\<close>

definition served :: "'m system \<Rightarrow> (u64 \<times> u32) list \<Rightarrow> 'm system \<Rightarrow> bool" where
  "served sys evs sys' \<longleftrightarrow>
     (\<forall>(dat, ev) \<in> set evs. \<forall>s. FindService (sint dat) sys = Some s \<longrightarrow>
        wait_events (contexts sys s) AND kIO_Operation \<noteq> 0 \<longrightarrow>
        events (contexts sys' s) AND kIO_Operation \<noteq> 0)"

lemma dispatch_ok:
  assumes "sys_reachable sys" "registered_ok sys evs"
  shows "\<exists>ret sys' w'. IOService_dispatch os io evs sys w = Some (ret, sys', w') \<and>
    sys_reachable sys' \<and> ret = (delivered evs \<noteq> evs) \<and> served sys (delivered evs) sys'"
  using assms
proof (induction evs arbitrary: sys w)
  case Nil
  then show ?case by (auto simp: delivered_def served_def)
next
  case (Cons e evs)
  obtain dat ev where e: "e = (dat, ev)" by (rule prod.exhaust)
  show ?case
  proof (cases "sint dat < 0")
    case True
    then show ?thesis using Cons.prems by (auto simp: e delivered_def served_def)
  next
    case False
    then have d: "sint dat \<noteq> idle_service_index" "delivered (e # evs) = e # delivered evs"
      using Cons.prems(2) by (auto simp: registered_ok_def e delivered_def)
    show ?thesis
    proof (cases "FindService (sint dat) sys")
      case None
      have "registered_ok sys evs" using Cons.prems(2) by (auto simp: registered_ok_def)
      from Cons.IH [OF Cons.prems(1) this, of w] show ?thesis
        using False None d by (auto simp: e GrabService_def served_def)
    next
      case (Some s)
      let ?sys = "OnIOReady s ev sys" and ?w = "snd (os_epoll_del os (epoll_fd io) (GetServiceFD s sys) w)"
      have "exists_service sys s"
        using sys_reachable_inv [OF Cons.prems(1)] Some
        by (auto simp: sys_inv_def table_inv_def FindService_def)
      then have reach: "sys_reachable ?sys"
        using reachable_perform [OF Cons.prems(1), of "CallOnIOReady s ev" ?sys] by simp
      have "registered_ok ?sys evs"
        using Cons.prems(2) by (auto simp: registered_ok_def FindService_def OnIOReady_frame)
      from Cons.IH [OF reach this, of ?w] obtain ret sys' w'
        where rest: "IOService_dispatch os io evs ?sys ?w = Some (ret, sys', w')" "sys_reachable sys'"
          "ret = (delivered evs \<noteq> evs)" "served ?sys (delivered evs) sys'"
        by blast
      have "GetServiceFD s sys \<ge> 0"
        using Cons.prems(2) False Some by (auto simp: registered_ok_def e)
      then have disp: "IOService_dispatch os io (e # evs) sys w = Some (ret, sys', w')"
        using False Some d(1) rest(1) by (simp add: e GrabService_def)
      have head: "wait_events (contexts sys s) AND kIO_Operation \<noteq> 0 \<Longrightarrow>
          events (contexts sys' s) AND kIO_Operation \<noteq> 0"
        using dispatch_keeps_event [OF rest(1)] OnIOReady_event by blast
      show ?thesis
        using disp rest(2-4) head Some unfolding d(2)
        by (intro exI [of _ ret] exI [of _ sys'] exI [of _ w'])
          (auto simp: e served_def FindService_def OnIOReady_frame)
    qed
  qed
qed

subsection \<open>Descriptors of the service\<close>

text \<open>
  The descriptor table as a ghost: \<open>opened fds w\<close> says that exactly \<open>fds\<close> are open.
  \<open>epoll_create1\<close> and \<open>pipe\<close> open new descriptors when they succeed, \<open>close\<close> of an open
  descriptor closes it, the other calls leave the table alone.
\<close>

definition epoll_create_law :: "'w os \<Rightarrow> ('w \<Rightarrow> int set) \<Rightarrow> bool" where
  "epoll_create_law os fds \<longleftrightarrow>
     (\<forall>w r e w'. os_epoll_create os w = ((r, e), w') \<longrightarrow>
        (if r = -1 then fds w' = fds w else 0 \<le> r \<and> r \<notin> fds w \<and> fds w' = insert r (fds w)))"

definition pipe_law :: "'w os \<Rightarrow> ('w \<Rightarrow> int set) \<Rightarrow> bool" where
  "pipe_law os fds \<longleftrightarrow>
     (\<forall>w r a b w'. os_pipe os w = ((r, a, b), w') \<longrightarrow>
        (if r = -1 then fds w' = fds w
         else 0 \<le> a \<and> 0 \<le> b \<and> a \<noteq> b \<and> a \<notin> fds w \<and> b \<notin> fds w \<and> fds w' = {a, b} \<union> fds w))"

definition close_law :: "'w os \<Rightarrow> ('w \<Rightarrow> int set) \<Rightarrow> bool" where
  "close_law os fds \<longleftrightarrow> (\<forall>fd w. fds (os_close os fd w) = fds w - {fd})"

definition epoll_add_law :: "'w os \<Rightarrow> ('w \<Rightarrow> int set) \<Rightarrow> bool" where
  "epoll_add_law os fds \<longleftrightarrow>
     (\<forall>efd fd dat ev w r e w'. os_epoll_add os efd fd dat ev w = ((r, e), w') \<longrightarrow> fds w' = fds w)"

definition fd_laws :: "'w os \<Rightarrow> ('w \<Rightarrow> int set) \<Rightarrow> bool" where
  "fd_laws os fds \<longleftrightarrow>
     epoll_create_law os fds \<and> pipe_law os fds \<and> close_law os fds \<and> epoll_add_law os fds"

text \<open>
  C27 (safety).  The I/O service leaks no descriptor.  When \<open>Initialize\<close> fails, whichever of its
  three system calls failed, exactly the descriptors open before it are open after it; when it
  succeeds, destroying the service closes exactly the descriptors it opened.
\<close>

theorem io_service_leaks_no_descriptor:
  assumes "fd_laws os fds" "IOService_Initialize os IOService_init w = (s, io, w')"
  shows "(\<not> status_IsOK s \<longrightarrow> fds w' = fds w) \<and>
         (status_IsOK s \<longrightarrow> fds (IOService_destroy os io w') = fds w)"
proof -
  obtain efd e w1 where c: "os_epoll_create os w = ((efd, e), w1)" by (metis prod.exhaust)
  obtain r a b w2 where p: "os_pipe os w1 = ((r, a, b), w2)" by (metis prod.exhaust)
  obtain r' e' w3 where d: "os_epoll_add os efd a (-1) EPOLLIN w2 = ((r', e'), w3)" by (metis prod.exhaust)
  have laws: "epoll_create_law os fds" "pipe_law os fds" "close_law os fds" "epoll_add_law os fds"
    using assms(1) by (simp_all add: fd_laws_def)
  note close = laws(3) [unfolded close_law_def, rule_format]
    and fc = laws(1) [unfolded epoll_create_law_def, rule_format, OF c]
    and fp = laws(2) [unfolded pipe_law_def, rule_format, OF p]
    and fd = laws(4) [unfolded epoll_add_law_def, rule_format, OF d]
  note defs = IOService_Initialize_def IOService_destroy_def IOService_init_def Let_def
  show ?thesis
  proof (cases "efd = -1 \<or> r = -1")
    case True
    then show ?thesis
      using assms(2) c p fc fp by (cases "efd = -1") (auto simp: defs close)
  next
    case False
    then have w3: "fds w3 = {efd, a, b} \<union> fds w" and new: "efd \<notin> fds w" "a \<notin> fds w" "b \<notin> fds w"
      using fc fp fd by auto
    have nonneg: "0 \<le> efd" "a \<noteq> -1" using False fc fp by auto
    show ?thesis
    proof (cases "r' = -1")
      case True
      then have "s \<noteq> Status_OK" "w' = os_close os b (os_close os a (os_close os efd w3))"
        using assms(2) c p d False by (auto simp: defs)
      then show ?thesis using w3 new by (auto simp: close status_IsOK_def Status_OK_def)
    next
      case no: False
      then have "io = \<lparr>epoll_fd = efd, exit_pipe_read = a, exit_pipe_write = b\<rparr>" "w' = w3" "s = Status_OK"
        using assms(2) c p d False by (auto simp: defs)
      then show ?thesis using w3 new nonneg by (auto simp: close defs)
    qed
  qed
qed

text \<open>
  The third error path closes both ends of the pipe and leaves their numbers in \<open>exit_pipefd_\<close>:
  the destructor closes them a second time.
\<close>

lemma failed_initialize_closes_pipe_twice:
  assumes "IOService_Initialize os IOService_init w = (Status_of kFailed ''epoll_ctl add pipe failed'', io, w')"
    and "os_epoll_create os w = ((efd, e), w1)" "efd \<noteq> -1" "os_pipe os w1 = ((r, a, b), w2)" "r \<noteq> -1" "a \<noteq> -1"
  shows "\<exists>w3. w' = os_close os b (os_close os a (os_close os efd w3)) \<and>
    IOService_destroy os io w' = os_close os b (os_close os a w')"
  using assms
  by (auto simp: IOService_Initialize_def IOService_destroy_def IOService_init_def Let_def Status_of_def
      Status_OK_def split: prod.splits if_splits)

text \<open>
  A kernel for the witnesses: descriptors are handed out upwards from the number of descriptors
  ever opened; the world is that number and the set of open descriptors.
\<close>

definition table_os :: "(nat \<times> int set) os" where
  "table_os = quiet_os
     \<lparr>os_socket := (\<lambda>(n, F). ((int n, Errno 0), (Suc n, insert (int n) F))),
      os_close := (\<lambda>fd (n, F). (n, F - {fd})),
      os_epoll_create := (\<lambda>(n, F). ((int n, Errno 0), (Suc n, insert (int n) F))),
      os_pipe := (\<lambda>(n, F). ((0, int n, int n + 1), (n + 2, {int n, int n + 1} \<union> F))),
      os_epoll_add := (\<lambda>efd fd dat ev w. ((-1, Errno 28), w))\<rparr>"

lemma table_os_laws: "fd_laws table_os (\<lambda>(n, F). {x \<in> F. x < int n})"
  by (auto simp: fd_laws_def epoll_create_law_def pipe_law_def close_law_def epoll_add_law_def table_os_def quiet_os_def)

theorem io_service_leaks_no_descriptor_witness:
  "let (s, io, w') = IOService_Initialize table_os IOService_init (3, {0, 1, 2}) in
   s = Status_of kFailed ''epoll_ctl add pipe failed'' \<and> {x \<in> snd w'. x < int (fst w')} = {0, 1, 2}"
proof -
  obtain s io w' where init: "IOService_Initialize table_os IOService_init (3, {0, 1, 2}) = (s, io, w')"
    by (metis prod.exhaust)
  then have "s = Status_of kFailed ''epoll_ctl add pipe failed''"
    by (simp add: IOService_Initialize_def table_os_def quiet_os_def)
  moreover have "{x \<in> {0, 1, 2}. x < int 3} = {0, 1, 2}" by auto
  moreover have "{x \<in> snd w'. x < int (fst w')} = {x \<in> {0, 1, 2}. x < int 3}"
    using io_service_leaks_no_descriptor [OF table_os_laws init] \<open>s = _\<close>
    by (simp add: case_prod_beta)
  ultimately show ?thesis unfolding init by (simp only: Let_def case_prod_conv)
qed


text \<open>A user thread that has registered descriptor 5 and waits for input.\<close>

definition waiting_io17 :: "nat system" where
  "waiting_io17 = the (run_actions
     [CallWaitIO 0 5, CallWait 0 (kIO_Operation OR kServiceStop OR kInterrupt),
      GetReady 0, Switch 0, ResumePrevious 0] in_user17)"


subsection \<open>What waiting leaves alone\<close>

text \<open>
  The steps of \<open>WaitIO\<close> respect a relation between worlds: used for quantities that waiting does
  not change, or does not increase.
\<close>

definition svc_respects :: "'w svc \<Rightarrow> ('w \<Rightarrow> 'w \<Rightarrow> bool) \<Rightarrow> bool" where
  "svc_respects sv R \<longleftrightarrow> reflp R \<and> transp R \<and>
     (\<forall>w n. R w (svc_set_io_events sv n w)) \<and> (\<forall>w fd. R w (svc_set_fd sv fd w)) \<and>
     (\<forall>w efd fd dat ev. R w (snd (os_epoll_add (svc_os sv) efd fd dat ev w))) \<and>
     (\<forall>w efd fd. R w (snd (os_epoll_del (svc_os sv) efd fd w))) \<and>
     (\<forall>w es. R w (snd (svc_wait sv es w)))"

lemma WaitIO_respects:
  assumes "svc_respects sv R"
  shows "R w (snd (WaitIO sv fd ev w))"
proof -
  have R: "\<And>w n. R w (svc_set_io_events sv n w)" "\<And>w fd. R w (svc_set_fd sv fd w)"
    "\<And>w efd fd dat ev. R w (snd (os_epoll_add (svc_os sv) efd fd dat ev w))"
    "\<And>w efd fd. R w (snd (os_epoll_del (svc_os sv) efd fd w))"
    "\<And>w es. R w (snd (svc_wait sv es w))"
    and trans: "\<And>a b c. R a b \<Longrightarrow> R b c \<Longrightarrow> R a c"
    using assms unfolding svc_respects_def transp_def by blast+
  define w1 where "w1 = svc_set_fd sv fd (svc_set_io_events sv 0 w)"
  define w2 where "w2 = snd (os_epoll_add (svc_os sv) (epoll_fd (svc_io sv)) fd (word_of_int (svc_index sv)) ev w1)"
  define w3 where "w3 = snd (svc_wait sv (kIO_Operation OR kServiceStop OR kInterrupt) w2)"
  define w4 where "w4 = snd (os_epoll_del (svc_os sv) (epoll_fd (svc_io sv)) fd w3)"
  have "R w w1" unfolding w1_def by (rule trans [OF R(1) R(2)])
  then have R2: "R w w2" unfolding w2_def by (rule trans [OF _ R(3)])
  then have R3: "R w w3" unfolding w3_def by (rule trans [OF _ R(5)])
  then have R4: "R w w4" unfolding w4_def by (rule trans [OF _ R(4)])
  have "snd (WaitIO sv fd ev w) \<in> {w2, w3, w4}"
    by (auto simp: WaitIO_def IOService_Add_def IOService_Remove_def Let_def case_prod_beta
        w1_def w2_def w3_def w4_def)
  then show ?thesis using R2 R3 R4 by auto
qed

end
