(* ===== verification/Tcp.thy ===== *)
theory Tcp
  imports IO_Service Util
begin

text \<open>
  TCP connections (\<open>src/src/TcpConnectionBase.h\<close>, \<open>TcpConnectionBase.cpp\<close>,
  \<open>TcpConnection.h\<close>, \<open>TcpConnection.cpp\<close>), connecting (\<open>TcpConnector.cpp\<close>) and accepting
  (\<open>Acceptor.h\<close>, \<open>Acceptor.cpp\<close>).

  A connection's \<open>Read\<close> fills a buffer of \<open>n\<close> bytes, its \<open>Write\<close> sends a whole buffer.  The
  plain connection asks again at once when the system call would block or was interrupted, the
  one of a service blocks the service in \<open>WaitInput\<close> or \<open>WaitOutput\<close>.  The buffer a \<open>Read\<close>
  fills is the string of bytes stored so far; the counters \<open>read_left\<close> and \<open>write_left\<close> are
  natural numbers, since the calls never transfer more than they are asked to (\<open>recv_law\<close>,
  \<open>send_law\<close>).  The loops may run for ever, so they are partial functions: \<open>None\<close> is a loop
  that does not end.
\<close>

subsection \<open>Connections\<close>

record tcp_connection =
  sockfd :: int
  local_addr :: sockaddr_in
  peer_addr :: sockaddr_in

definition TcpConnectionBase :: "int \<Rightarrow> tcp_connection" where
  "TcpConnectionBase fd = \<lparr>sockfd = fd, local_addr = InetAddress, peer_addr = InetAddress\<rparr>"

definition TcpConnectionBase_destroy :: "'w os \<Rightarrow> tcp_connection \<Rightarrow> 'w \<Rightarrow> 'w" where
  "TcpConnectionBase_destroy os conn w = (if sockfd conn \<noteq> -1 then os_close os (sockfd conn) w else w)"

definition TcpConnection_SetNonBlocking :: "'w os \<Rightarrow> tcp_connection \<Rightarrow> 'w \<Rightarrow> status \<times> 'w" where
  "TcpConnection_SetNonBlocking os conn w =
     (let (res, w) = SetNonBlocking os (sockfd conn) w
      in if \<not> res then (Status_of kFailed ''SetNonBlocking failed'', w) else (Status_OK, w))"

definition SetTcpNoDelay :: "'w os \<Rightarrow> tcp_connection \<Rightarrow> bool \<Rightarrow> 'w \<Rightarrow> status \<times> 'w" where
  "SetTcpNoDelay os conn bl w =
     (let (res, w) = SetNoDelay os (sockfd conn) bl w
      in if \<not> res then (Status_of kFailed ''SetTcpNoDelay failed'', w) else (Status_OK, w))"

subsection \<open>The connection of a thread\<close>

partial_function (option) Base_Read_loop ::
  "'w os \<Rightarrow> int \<Rightarrow> nat \<Rightarrow> string \<Rightarrow> 'w \<Rightarrow> (status \<times> string \<times> 'w) option" where
  "Base_Read_loop os fd read_left buf w =
     (if read_left > 0
      then let (r, bytes, w) = Recv os fd read_left w
           in if Result_bool r then Base_Read_loop os fd (read_left - Result_get r) (buf @ bytes) w
              else if status_Is kAgain (res_state r) then Base_Read_loop os fd read_left buf w
              else if status_Is State_kInterrupt (res_state r) then Base_Read_loop os fd read_left buf w
              else Some (res_state r, buf, w)
      else Some (Status_OK, buf, w))"

definition Base_Read :: "'w os \<Rightarrow> int \<Rightarrow> nat \<Rightarrow> 'w \<Rightarrow> (status \<times> string \<times> 'w) option" where
  "Base_Read os fd n w = Base_Read_loop os fd n [] w"

definition Base_ReadSome :: "'w os \<Rightarrow> int \<Rightarrow> nat \<Rightarrow> 'w \<Rightarrow> nat result \<times> string \<times> 'w" where
  "Base_ReadSome os fd buffer_size w =
     (if buffer_size = 0 then (Result_value 0, [], w) else Recv os fd buffer_size w)"

partial_function (option) Base_Write_loop ::
  "'w os \<Rightarrow> int \<Rightarrow> string \<Rightarrow> nat \<Rightarrow> 'w \<Rightarrow> (status \<times> 'w) option" where
  "Base_Write_loop os fd buf write_left w =
     (if write_left > 0
      then let (r, w) = Send os fd (take write_left (drop (length buf - write_left) buf)) w
           in if Result_bool r then Base_Write_loop os fd buf (write_left - Result_get r) w
              else if status_Is kAgain (res_state r) then Base_Write_loop os fd buf write_left w
              else if status_Is State_kInterrupt (res_state r) then Base_Write_loop os fd buf write_left w
              else Some (res_state r, w)
      else Some (Status_OK, w))"

definition Base_Write :: "'w os \<Rightarrow> int \<Rightarrow> string \<Rightarrow> 'w \<Rightarrow> (status \<times> 'w) option" where
  "Base_Write os fd buf w = Base_Write_loop os fd buf (length buf) w"

subsection \<open>The connection of a service\<close>

partial_function (option) Read_loop ::
  "'w svc \<Rightarrow> int \<Rightarrow> nat \<Rightarrow> string \<Rightarrow> 'w \<Rightarrow> (status \<times> string \<times> 'w) option" where
  "Read_loop sv fd read_left buf w =
     (if read_left > 0
      then let (r, bytes, w) = Recv (svc_os sv) fd read_left w
           in if Result_bool r then Read_loop sv fd (read_left - Result_get r) (buf @ bytes) w
              else if status_Is kAgain (res_state r)
              then let (s, w) = WaitInput sv fd w
                   in if \<not> status_IsOK s then Some (s, buf, w) else Read_loop sv fd read_left buf w
              else if status_Is State_kInterrupt (res_state r) then Read_loop sv fd read_left buf w
              else Some (res_state r, buf, w)
      else Some (Status_OK, buf, w))"

definition Read :: "'w svc \<Rightarrow> int \<Rightarrow> nat \<Rightarrow> 'w \<Rightarrow> (status \<times> string \<times> 'w) option" where
  "Read sv fd n w = Read_loop sv fd n [] w"

partial_function (option) ReadSome_loop ::
  "'w svc \<Rightarrow> int \<Rightarrow> nat \<Rightarrow> 'w \<Rightarrow> (nat result \<times> string \<times> 'w) option" where
  "ReadSome_loop sv fd buffer_size w =
     (let (r, bytes, w) = Recv (svc_os sv) fd buffer_size w
      in if Result_bool r then Some (r, bytes, w)
         else if status_Is kAgain (res_state r)
         then let (s, w) = WaitInput sv fd w
              in if \<not> status_IsOK s then Some (Result_status 0 s, [], w)
                 else ReadSome_loop sv fd buffer_size w
         else if status_Is State_kInterrupt (res_state r) then ReadSome_loop sv fd buffer_size w
         else Some (r, [], w))"

definition ReadSome :: "'w svc \<Rightarrow> int \<Rightarrow> nat \<Rightarrow> 'w \<Rightarrow> (nat result \<times> string \<times> 'w) option" where
  "ReadSome sv fd buffer_size w =
     (if buffer_size = 0 then Some (Result_value 0, [], w) else ReadSome_loop sv fd buffer_size w)"

partial_function (option) Write_loop ::
  "'w svc \<Rightarrow> int \<Rightarrow> string \<Rightarrow> nat \<Rightarrow> 'w \<Rightarrow> (status \<times> 'w) option" where
  "Write_loop sv fd buf write_left w =
     (if write_left > 0
      then let (r, w) = Send (svc_os sv) fd (take write_left (drop (length buf - write_left) buf)) w
           in if Result_bool r then Write_loop sv fd buf (write_left - Result_get r) w
              else if status_Is kAgain (res_state r)
              then let (s, w) = WaitOutput sv fd w
                   in if \<not> status_IsOK s then Some (s, w) else Write_loop sv fd buf write_left w
              else if status_Is State_kInterrupt (res_state r) then Write_loop sv fd buf write_left w
              else Some (res_state r, w)
      else Some (Status_OK, w))"

definition Write :: "'w svc \<Rightarrow> int \<Rightarrow> string \<Rightarrow> 'w \<Rightarrow> (status \<times> 'w) option" where
  "Write sv fd buf w = Write_loop sv fd buf (length buf) w"

subsection \<open>A thread's connection is a service's connection that never blocks\<close>

text \<open>
  A service whose waits return at once, with the event it waits for: the operating system's
  \<open>epoll\<close> calls succeed and change nothing, \<open>Wait_Locked\<close> returns \<open>kIO_Operation\<close> and the
  context shows every event as ready.
\<close>

definition spinning :: "'w os \<Rightarrow> 'w svc" where
  "spinning os =
     \<lparr>svc_os = os\<lparr>os_epoll_add := (\<lambda>efd fd dat ev w. ((0, Errno 0), w)),
                  os_epoll_del := (\<lambda>efd fd w. ((0, Errno 0), w))\<rparr>,
      svc_io = IOService_init, svc_index = 17, svc_set_fd = (\<lambda>fd w. w),
      svc_set_io_events = (\<lambda>n w. w), svc_get_io_events = (\<lambda>w. -1),
      svc_stopping = (\<lambda>w. False), svc_wait = (\<lambda>es w. (kIO_Operation, w))\<rparr>"

lemma spinning_waits [simp]:
  "WaitInput (spinning os) fd w = (Status_OK, w)" "WaitOutput (spinning os) fd w = (Status_OK, w)"
  by (simp_all add: WaitInput_def WaitOutput_def WaitIO_def IOService_Add_def spinning_def event_defs
      EPOLLIN_def EPOLLOUT_def EPOLLET_def)

lemma spinning_calls [simp]:
  "Recv (svc_os (spinning os)) = Recv os" "Send (svc_os (spinning os)) = Send os"
proof -
  have etxt: "ERRNO_TEXT (svc_os (spinning os)) = ERRNO_TEXT os"
    by (intro ext) (simp add: ERRNO_TEXT_def spinning_def)
  have calls: "os_recv (svc_os (spinning os)) = os_recv os" "os_send (svc_os (spinning os)) = os_send os"
    by (simp_all add: spinning_def)
  show "Recv (svc_os (spinning os)) = Recv os" "Send (svc_os (spinning os)) = Send os"
    by (intro ext; simp only: Recv_def Send_def etxt calls)+
qed

lemma Base_Read_loop_imp:
  assumes "Base_Read_loop os fd n buf w = Some y"
  shows "Read_loop (spinning os) fd n buf w = Some y"
  using assms
proof (rule Base_Read_loop.raw_induct
    [where P = "\<lambda>os fd n buf w y. Read_loop (spinning os) fd n buf w = Some y", rotated])
  fix f :: "'w os \<Rightarrow> int \<Rightarrow> nat \<Rightarrow> string \<Rightarrow> 'w \<Rightarrow> (status \<times> string \<times> 'w) option"
    and os fd n buf w y
  assume IH: "\<And>os fd n buf w y. f os fd n buf w = Some y \<Longrightarrow> Read_loop (spinning os) fd n buf w = Some y"
    and eq: "(if 0 < n
      then let (r, bytes, w) = Recv os fd n w
           in if Result_bool r then f os fd (n - Result_get r) (buf @ bytes) w
              else if status_Is kAgain (res_state r) then f os fd n buf w
              else if status_Is State_kInterrupt (res_state r) then f os fd n buf w
              else Some (res_state r, buf, w)
      else Some (Status_OK, buf, w)) = Some y"
  obtain r bytes v where "Recv os fd n w = (r, bytes, v)" by (rule prod_cases3)
  with eq show "Read_loop (spinning os) fd n buf w = Some y"
    by (subst Read_loop.simps) (auto simp: IH split: if_splits)
qed

lemma Read_loop_imp:
  fixes os :: "'w os"
  assumes "Read_loop sv fd n buf w = Some y"
  shows "sv = spinning os \<longrightarrow> Base_Read_loop os fd n buf w = Some y"
  using assms
proof (rule Read_loop.raw_induct
    [where P = "\<lambda>sv fd n buf w y. sv = spinning os \<longrightarrow> Base_Read_loop os fd n buf w = Some y", rotated])
  fix f :: "'w svc \<Rightarrow> int \<Rightarrow> nat \<Rightarrow> string \<Rightarrow> 'w \<Rightarrow> (status \<times> string \<times> 'w) option"
    and sv fd n buf w y
  assume IH: "\<And>sv fd n buf w y. f sv fd n buf w = Some y \<Longrightarrow>
      sv = spinning os \<longrightarrow> Base_Read_loop os fd n buf w = Some y"
    and eq: "(if 0 < n
      then let (r, bytes, w) = Recv (svc_os sv) fd n w
           in if Result_bool r then f sv fd (n - Result_get r) (buf @ bytes) w
              else if status_Is kAgain (res_state r)
              then let (s, w) = WaitInput sv fd w
                   in if \<not> status_IsOK s then Some (s, buf, w) else f sv fd n buf w
              else if status_Is State_kInterrupt (res_state r) then f sv fd n buf w
              else Some (res_state r, buf, w)
      else Some (Status_OK, buf, w)) = Some y"
  obtain r bytes v where "Recv os fd n w = (r, bytes, v)" by (rule prod_cases3)
  with eq show "sv = spinning os \<longrightarrow> Base_Read_loop os fd n buf w = Some y"
    by (subst Base_Read_loop.simps) (auto simp: IH split: if_splits)
qed

lemma Base_Write_loop_imp:
  assumes "Base_Write_loop os fd buf n w = Some y"
  shows "Write_loop (spinning os) fd buf n w = Some y"
  using assms
proof (rule Base_Write_loop.raw_induct
    [where P = "\<lambda>os fd buf n w y. Write_loop (spinning os) fd buf n w = Some y", rotated])
  fix f :: "'w os \<Rightarrow> int \<Rightarrow> string \<Rightarrow> nat \<Rightarrow> 'w \<Rightarrow> (status \<times> 'w) option"
    and os fd buf n w y
  assume IH: "\<And>os fd buf n w y. f os fd buf n w = Some y \<Longrightarrow> Write_loop (spinning os) fd buf n w = Some y"
    and eq: "(if 0 < n
      then let (r, w) = Send os fd (take n (drop (length buf - n) buf)) w
           in if Result_bool r then f os fd buf (n - Result_get r) w
              else if status_Is kAgain (res_state r) then f os fd buf n w
              else if status_Is State_kInterrupt (res_state r) then f os fd buf n w
              else Some (res_state r, w)
      else Some (Status_OK, w)) = Some y"
  obtain r v where "Send os fd (take n (drop (length buf - n) buf)) w = (r, v)" by (rule prod.exhaust)
  with eq show "Write_loop (spinning os) fd buf n w = Some y"
    by (subst Write_loop.simps) (auto simp: IH split: if_splits)
qed

lemma Write_loop_imp:
  fixes os :: "'w os"
  assumes "Write_loop sv fd buf n w = Some y"
  shows "sv = spinning os \<longrightarrow> Base_Write_loop os fd buf n w = Some y"
  using assms
proof (rule Write_loop.raw_induct
    [where P = "\<lambda>sv fd buf n w y. sv = spinning os \<longrightarrow> Base_Write_loop os fd buf n w = Some y", rotated])
  fix f :: "'w svc \<Rightarrow> int \<Rightarrow> string \<Rightarrow> nat \<Rightarrow> 'w \<Rightarrow> (status \<times> 'w) option"
    and sv fd buf n w y
  assume IH: "\<And>sv fd buf n w y. f sv fd buf n w = Some y \<Longrightarrow>
      sv = spinning os \<longrightarrow> Base_Write_loop os fd buf n w = Some y"
    and eq: "(if 0 < n
      then let (r, w) = Send (svc_os sv) fd (take n (drop (length buf - n) buf)) w
           in if Result_bool r then f sv fd buf (n - Result_get r) w
              else if status_Is kAgain (res_state r)
              then let (s, w) = WaitOutput sv fd w
                   in if \<not> status_IsOK s then Some (s, w) else f sv fd buf n w
              else if status_Is State_kInterrupt (res_state r) then f sv fd buf n w
              else Some (res_state r, w)
      else Some (Status_OK, w)) = Some y"
  obtain r v where "Send os fd (take n (drop (length buf - n) buf)) w = (r, v)" by (rule prod.exhaust)
  with eq show "sv = spinning os \<longrightarrow> Base_Write_loop os fd buf n w = Some y"
    by (subst Base_Write_loop.simps) (auto simp: IH split: if_splits)
qed

lemma option_eqI: "(\<And>y. a = Some y \<Longrightarrow> b = Some y) \<Longrightarrow> (\<And>y. b = Some y \<Longrightarrow> a = Some y) \<Longrightarrow> a = b"
  by (cases a; cases b) auto

lemma Base_eq: "Base_Read os fd n w = Read (spinning os) fd n w"
  "Base_Write os fd buf w = Write (spinning os) fd buf w"
  unfolding Base_Read_def Read_def Base_Write_def Write_def
  by (rule option_eqI; auto dest: Base_Read_loop_imp Read_loop_imp Base_Write_loop_imp Write_loop_imp)+

text \<open>
  C29 (equivalence).  \<open>TcpConnectionBase\<close> and \<open>TcpConnection\<close> implement the same \<open>Read\<close> and
  \<open>Write\<close>: for every kernel, every number of bytes and every buffer, the connection of a plain
  thread behaves exactly (results, errors, non-termination) as the connection of a service whose
  waits return at once.
\<close>

theorem thread_connection_is_spinning_service_connection:
  "Base_Read os fd n w = Read (spinning os) fd n w \<and> Base_Write os fd buf w = Write (spinning os) fd buf w"
  by (simp add: Base_eq)

subsection \<open>The interface of a connection\<close>

text \<open>
  What users of a connection rely on, whichever class implements it: \<open>Read\<close> delivers the next
  bytes of the incoming stream, exactly as many as asked for when it succeeds and fewer when it
  fails; \<open>Write\<close> appends a prefix of its buffer to the outgoing stream, all of it exactly when
  it succeeds.  \<open>e\<close> is the environment of the connection (kernel, service, descriptor).
\<close>

locale stream_connection =
  fixes rd :: "'e \<Rightarrow> nat \<Rightarrow> 'w \<Rightarrow> (status \<times> string \<times> 'w) option"
    and wr :: "'e \<Rightarrow> string \<Rightarrow> 'w \<Rightarrow> (status \<times> 'w) option"
    and rd_ok :: "'e \<Rightarrow> ('w \<Rightarrow> string) \<Rightarrow> bool"
    and wr_ok :: "'e \<Rightarrow> ('w \<Rightarrow> string) \<Rightarrow> bool"
  assumes rd_stream: "rd_ok e inb \<Longrightarrow> rd e n w = Some (st, buf, w') \<Longrightarrow>
      inb w = buf @ inb w' \<and> length buf \<le> n \<and> (st = Status_OK \<longleftrightarrow> length buf = n)"
    and wr_stream: "wr_ok e outb \<Longrightarrow> wr e buf w = Some (st, w') \<Longrightarrow>
      \<exists>k \<le> length buf. outb w' = outb w @ take k buf \<and> (st = Status_OK \<longleftrightarrow> k = length buf)"
begin

lemma rd_take:
  assumes "rd_ok e inb" "rd e n w = Some (Status_OK, buf, w')"
  shows "buf = take n (inb w)" "inb w' = drop n (inb w)" "n \<le> length (inb w)"
  using rd_stream [OF assms] by auto

lemma rd_expected:
  assumes "rd_ok e inb" "rd e (length x) w = Some (Status_OK, buf, w')" "inb w = x @ rest"
  shows "buf = x" "inb w' = rest"
  using rd_take [OF assms(1,2)] assms(3) by simp_all

lemma wr_all:
  assumes "wr_ok e outb" "wr e buf w = Some (Status_OK, w')"
  shows "outb w' = outb w @ buf"
  using wr_stream [OF assms] by auto

end

lemma Read_loop_stream:
  assumes laws: "recv_law (svc_os sv) inbox" "svc_respects sv (\<lambda>w w'. inbox fd w' = inbox fd w)"
    and ret: "Read_loop sv fd n acc w = Some res"
  shows "\<exists>st bytes w'. res = (st, acc @ bytes, w') \<and> inbox fd w = bytes @ inbox fd w' \<and>
    length bytes \<le> n \<and> (st = Status_OK \<longleftrightarrow> length bytes = n)"
proof -
  let ?P = "\<lambda>fd n acc w res. \<exists>st bytes w'. res = (st, acc @ bytes, w') \<and>
    inbox fd w = bytes @ inbox fd w' \<and> length bytes \<le> n \<and> (st = Status_OK \<longleftrightarrow> length bytes = n)"
  have "sv' = sv \<longrightarrow> fd' = fd \<longrightarrow> ?P fd' n acc w res" if "Read_loop sv' fd' n acc w = Some res" for sv' fd'
    using that
  proof (rule Read_loop.raw_induct
      [where P = "\<lambda>sv' fd' n acc w res. sv' = sv \<longrightarrow> fd' = fd \<longrightarrow> ?P fd' n acc w res", rotated])
    fix f sv' fd' n acc w res
    assume IH: "\<And>sv' fd' n acc w res. f sv' fd' n acc w = Some res \<Longrightarrow>
        sv' = sv \<longrightarrow> fd' = fd \<longrightarrow> ?P fd' n acc w res"
      and eq: "(if 0 < n
        then let (r, bytes, w) = Recv (svc_os sv') fd' n w
             in if Result_bool r then f sv' fd' (n - Result_get r) (acc @ bytes) w
                else if status_Is kAgain (res_state r)
                then let (s, w) = WaitInput sv' fd' w
                     in if \<not> status_IsOK s then Some (s, acc, w) else f sv' fd' n acc w
                else if status_Is State_kInterrupt (res_state r) then f sv' fd' n acc w
                else Some (res_state r, acc, w)
        else Some (Status_OK, acc, w)) = Some res"
    obtain r bytes v where r: "Recv (svc_os sv) fd n w = (r, bytes, v)" by (rule prod_cases3)
    obtain s u where s: "WaitInput sv fd v = (s, u)" by (rule prod.exhaust)
    have wait: "inbox fd u = inbox fd v"
      using WaitIO_respects [OF laws(2), where w = v and fd = fd and ev = "EPOLLIN OR EPOLLET"] s by (simp add: WaitInput_def)
    show "sv' = sv \<longrightarrow> fd' = fd \<longrightarrow> ?P fd' n acc w res"
    proof (cases "n = 0")
      case True
      with eq show ?thesis by auto
    next
      case n: False
      show ?thesis
        using r laws(1)
      proof (cases rule: Recv_cases)
        case bytes
        then have "f sv' fd' (n - Result_get r) (acc @ bytes) v = Some res \<or> sv' \<noteq> sv \<or> fd' \<noteq> fd"
          using eq n r by auto
        then show ?thesis
          using IH [of sv' fd' "n - Result_get r" "acc @ bytes" v res] bytes by fastforce
      next
        case failed
        then have "res_state r \<noteq> Status_OK" by (auto simp: Result_bool_def)
        then show ?thesis
          using IH [of sv fd n acc v res] IH [of sv fd n acc u res] eq n r s wait failed
          by (auto simp: status_IsOK_def Status_OK_def split: if_splits)
      qed
    qed
  qed
  from this [OF ret] show ?thesis by simp
qed

lemma Write_loop_stream:
  assumes laws: "send_law (svc_os sv) outbox" "svc_respects sv (\<lambda>w w'. outbox fd w' = outbox fd w)"
    and ret: "Write_loop sv fd buf n w = Some res" and n: "n \<le> length buf"
  shows "\<exists>st k w'. res = (st, w') \<and> k \<le> n \<and>
    outbox fd w' = outbox fd w @ take k (drop (length buf - n) buf) \<and> (st = Status_OK \<longleftrightarrow> k = n)"
proof -
  let ?P = "\<lambda>fd buf n w res. \<exists>st k w'. res = (st, w') \<and> k \<le> n \<and>
    outbox fd w' = outbox fd w @ take k (drop (length buf - n) buf) \<and> (st = Status_OK \<longleftrightarrow> k = n)"
  have "sv' = sv \<longrightarrow> fd' = fd \<longrightarrow> n \<le> length buf \<longrightarrow> ?P fd' buf n w res"
    if "Write_loop sv' fd' buf n w = Some res" for sv' fd'
    using that
  proof (rule Write_loop.raw_induct
      [where P = "\<lambda>sv' fd' buf n w res. sv' = sv \<longrightarrow> fd' = fd \<longrightarrow> n \<le> length buf \<longrightarrow> ?P fd' buf n w res", rotated])
    fix f sv' fd' n w res and buf :: string
    assume IH: "\<And>sv' fd' buf n w res. f sv' fd' buf n w = Some res \<Longrightarrow>
        sv' = sv \<longrightarrow> fd' = fd \<longrightarrow> n \<le> length buf \<longrightarrow> ?P fd' buf n w res"
      and eq: "(if 0 < n
        then let (r, w) = Send (svc_os sv') fd' (take n (drop (length buf - n) buf)) w
             in if Result_bool r then f sv' fd' buf (n - Result_get r) w
                else if status_Is kAgain (res_state r)
                then let (s, w) = WaitOutput sv' fd' w
                     in if \<not> status_IsOK s then Some (s, w) else f sv' fd' buf n w
                else if status_Is State_kInterrupt (res_state r) then f sv' fd' buf n w
                else Some (res_state r, w)
        else Some (Status_OK, w)) = Some res"
    obtain r v where r: "Send (svc_os sv) fd (take n (drop (length buf - n) buf)) w = (r, v)"
      by (rule prod.exhaust)
    obtain s u where s: "WaitOutput sv fd v = (s, u)" by (rule prod.exhaust)
    have wait: "outbox fd u = outbox fd v"
      using WaitIO_respects [OF laws(2), where w = v and fd = fd and ev = "EPOLLOUT OR EPOLLET"] s
      by (simp add: WaitOutput_def)
    show "sv' = sv \<longrightarrow> fd' = fd \<longrightarrow> n \<le> length buf \<longrightarrow> ?P fd' buf n w res"
    proof (intro impI)
      assume eqs: "sv' = sv" "fd' = fd" and n: "n \<le> length buf"
      show "?P fd' buf n w res"
      proof (cases "n = 0")
        case True
        with eq show ?thesis by auto
      next
        case False
        show ?thesis
          using r laws(1)
        proof (cases rule: Send_cases)
          case bytes
          let ?j = "Result_get r"
          have j: "?j \<le> n" using bytes(2) by simp
          have "f sv' fd' buf (n - ?j) v = Some res" using eq False r eqs bytes(1) by simp
          then obtain st k w' where rest: "res = (st, w')" "k \<le> n - ?j"
            "outbox fd w' = outbox fd v @ take k (drop (length buf - (n - ?j)) buf)"
            "st = Status_OK \<longleftrightarrow> k = n - ?j"
            using IH [of sv' fd' buf "n - ?j" v res] eqs n by auto
          have "length buf - (n - ?j) = length buf - n + ?j" using j n by simp
          moreover have "take (?j + k) (drop (length buf - n) buf) =
              take ?j (drop (length buf - n) buf) @ take k (drop (length buf - n + ?j) buf)"
            by (simp only: take_add drop_drop add.commute [of "length buf - n" ?j])
          ultimately have "outbox fd w' = outbox fd w @ take (?j + k) (drop (length buf - n) buf)"
            using rest(3) bytes(3) j by (simp del: append_assoc add: append_assoc [symmetric] min_absorb2)
          then show ?thesis
            using rest j eqs by (intro exI [of _ st] exI [of _ "?j + k"] exI [of _ w']) auto
        next
          case failed
          then have "res_state r \<noteq> Status_OK" by (auto simp: Result_bool_def)
          moreover have "(if status_Is kAgain (res_state r)
              then if \<not> status_IsOK s then Some (s, u) else f sv fd buf n u
              else if status_Is State_kInterrupt (res_state r) then f sv fd buf n v
              else Some (res_state r, v)) = Some res"
            using eq False failed(1) unfolding eqs r Let_def case_prod_conv s by simp
          ultimately consider st v' where "res = (st, v')" "st \<noteq> Status_OK" "outbox fd v' = outbox fd w"
            | "f sv fd buf n v = Some res" | "f sv fd buf n u = Some res"
            using wait failed(2) by (auto simp: status_IsOK_def Status_OK_def split: if_splits)
          then show ?thesis
          proof cases
            case 1
            then show ?thesis using False eqs by auto
          next
            case 2
            then show ?thesis using IH [of sv fd buf n v res] failed eqs n by auto
          next
            case 3
            then show ?thesis using IH [of sv fd buf n u res] failed wait eqs n by auto
          qed
        qed
      qed
    qed
  qed
  from this [OF ret] n show ?thesis by simp
qed

text \<open>
  When the connection of a service, or of a thread, transports the streams \<open>inb\<close> and \<open>outb\<close>.
\<close>

definition svc_reads :: "'w svc \<times> int \<Rightarrow> ('w \<Rightarrow> string) \<Rightarrow> bool" where
  "svc_reads e inb \<longleftrightarrow> (\<exists>inbox. recv_law (svc_os (fst e)) inbox \<and>
     svc_respects (fst e) (\<lambda>w w'. inbox (snd e) w' = inbox (snd e) w) \<and> inb = inbox (snd e))"

definition svc_writes :: "'w svc \<times> int \<Rightarrow> ('w \<Rightarrow> string) \<Rightarrow> bool" where
  "svc_writes e outb \<longleftrightarrow> (\<exists>outbox. send_law (svc_os (fst e)) outbox \<and>
     svc_respects (fst e) (\<lambda>w w'. outbox (snd e) w' = outbox (snd e) w) \<and> outb = outbox (snd e))"

definition os_reads :: "'w os \<times> int \<Rightarrow> ('w \<Rightarrow> string) \<Rightarrow> bool" where
  "os_reads e inb \<longleftrightarrow> (\<exists>inbox. recv_law (fst e) inbox \<and> inb = inbox (snd e))"

definition os_writes :: "'w os \<times> int \<Rightarrow> ('w \<Rightarrow> string) \<Rightarrow> bool" where
  "os_writes e outb \<longleftrightarrow> (\<exists>outbox. send_law (fst e) outbox \<and> outb = outbox (snd e))"

interpretation svc_conn: stream_connection "\<lambda>(sv, fd). Read sv fd" "\<lambda>(sv, fd). Write sv fd" svc_reads svc_writes
proof (unfold_locales, goal_cases)
  case (1 e inb n w st buf w')
  then show ?case
    by (cases e) (fastforce simp: svc_reads_def Read_def dest: Read_loop_stream)
next
  case (2 e outb buf w st w')
  then show ?case
    by (cases e) (fastforce simp: svc_writes_def Write_def dest: Write_loop_stream)
qed

lemma spinning_respects: "reflp R \<Longrightarrow> transp R \<Longrightarrow> svc_respects (spinning os) R"
  by (simp add: svc_respects_def spinning_def reflpD)

lemma spinning_streams:
  "os_reads (os, fd) inb \<Longrightarrow> svc_reads (spinning os, fd) inb"
  "os_writes (os, fd) outb \<Longrightarrow> svc_writes (spinning os, fd) outb"
proof -
  have calls: "os_recv (svc_os (spinning os)) = os_recv os" "os_send (svc_os (spinning os)) = os_send os"
    by (simp_all add: spinning_def)
  have R: "svc_respects (spinning os) (\<lambda>w w'. f w' = f w)" for f :: "'a \<Rightarrow> string"
    by (intro spinning_respects) (auto simp: reflp_def transp_def)
  show "os_reads (os, fd) inb \<Longrightarrow> svc_reads (spinning os, fd) inb"
    using R by (auto simp: os_reads_def svc_reads_def recv_law_def calls)
  show "os_writes (os, fd) outb \<Longrightarrow> svc_writes (spinning os, fd) outb"
    using R by (auto simp: os_writes_def svc_writes_def send_law_def calls)
qed

interpretation os_conn: stream_connection "\<lambda>(os, fd). Base_Read os fd" "\<lambda>(os, fd). Base_Write os fd" os_reads os_writes
proof (unfold_locales, goal_cases)
  case (1 e inb n w st buf w')
  then show ?case
    using svc_conn.rd_stream [of "(spinning (fst e), snd e)" inb n w st buf w']
      spinning_streams(1) [of "fst e" "snd e" inb]
    by (cases e) (simp add: Base_eq)
next
  case (2 e outb buf w st w')
  then show ?case
    using svc_conn.wr_stream [of "(spinning (fst e), snd e)" outb buf w st w']
      spinning_streams(2) [of "fst e" "snd e" outb]
    by (cases e) (simp add: Base_eq)
qed

subsection \<open>The loops end\<close>

lemma Read_loop_terminates:
  assumes laws: "recv_law (svc_os sv) inbox" "recv_patient (svc_os sv) patience"
      "svc_respects sv (\<lambda>w w'. patience w' \<le> patience w)"
  shows "\<exists>res. Read_loop sv fd n acc w = Some res"
proof (induction n arbitrary: acc w rule: less_induct)
  case outer: (less n)
  show ?case
  proof (induction "patience w" arbitrary: w rule: less_induct)
    case inner: (less w)
    obtain r bytes v where r: "Recv (svc_os sv) fd n w = (r, bytes, v)" by (rule prod_cases3)
    obtain s u where s: "WaitInput sv fd v = (s, u)" by (rule prod.exhaust)
    have wait: "patience u \<le> patience v"
      using WaitIO_respects [OF laws(3), where w = v and fd = fd and ev = "EPOLLIN OR EPOLLET"] s
      by (simp add: WaitInput_def)
    have less: "patience v < patience w"
      if "status_Is kAgain (res_state r) \<or> status_Is State_kInterrupt (res_state r)"
      using Recv_patient [OF r laws(2) that] .
    from r laws(1) show ?case
    proof (cases rule: Recv_cases)
      case bytes
      then show ?thesis
        using outer.IH [of "n - Result_get r" "acc @ bytes" v] r by (subst Read_loop.simps) auto
    next
      case failed
      then show ?thesis
        using inner.hyps [of v] inner.hyps [of u] wait less r s
        by (subst Read_loop.simps) (auto simp: split: if_splits)
    qed
  qed
qed

lemma Write_loop_terminates:
  assumes laws: "send_law (svc_os sv) outbox" "send_patient (svc_os sv) patience"
      "svc_respects sv (\<lambda>w w'. patience w' \<le> patience w)"
    and "n \<le> length buf"
  shows "\<exists>res. Write_loop sv fd buf n w = Some res"
  using assms(4)
proof (induction n arbitrary: w rule: less_induct)
  case outer: (less n)
  note n = outer.prems
  show ?case
  proof (induction "patience w" arbitrary: w rule: less_induct)
    case inner: (less w)
    obtain r v where r: "Send (svc_os sv) fd (take n (drop (length buf - n) buf)) w = (r, v)"
      by (rule prod.exhaust)
    obtain s u where s: "WaitOutput sv fd v = (s, u)" by (rule prod.exhaust)
    have wait: "patience u \<le> patience v"
      using WaitIO_respects [OF laws(3), where w = v and fd = fd and ev = "EPOLLOUT OR EPOLLET"] s
      by (simp add: WaitOutput_def)
    have less: "patience v < patience w"
      if "Result_bool r \<and> Result_get r = 0 \<or> status_Is kAgain (res_state r) \<or>
        status_Is State_kInterrupt (res_state r)" "n \<noteq> 0"
      using Send_patient [OF r laws(2) that(1)] that(2) n by auto
    from r laws(1) show ?case
    proof (cases rule: Send_cases)
      case bytes
      show ?thesis
      proof (cases "Result_get r = 0 \<or> n = 0")
        case True
        then show ?thesis using inner.hyps [of v] less bytes(1) r by (subst Write_loop.simps) auto
      next
        case False
        then show ?thesis
          using outer.IH [of "n - Result_get r" v] n bytes(1) r by (subst Write_loop.simps) auto
      qed
    next
      case failed
      then show ?thesis
        using inner.hyps [of v] inner.hyps [of u] wait less r s
        by (subst Write_loop.simps) (auto simp: split: if_splits)
    qed
  qed
qed

text \<open>
  A kernel for the witnesses.  Its world is what the peer does next (a chunk of bytes, or \<open>None\<close>
  for a moment in which nothing is there) and what was sent; a \<open>send\<close> takes at most three bytes.
\<close>

type_synonym script = "string option list \<times> string"

definition script_os :: "script os" where
  "script_os = quiet_os
     \<lparr>os_recv := (\<lambda>fd n (s, out). case s of
          [] \<Rightarrow> ((0, Errno 0, []), (s, out))
        | None # s' \<Rightarrow> ((-1, EAGAIN, []), (s', out))
        | Some c # s' \<Rightarrow>
            if c = [] then ((-1, EINTR, []), (s', out))
            else ((int (length (take n c)), Errno 0, take n c), (Some (drop n c) # s', out))),
      os_send := (\<lambda>fd buf (s, out). ((int (min 3 (length buf)), Errno 0), (s, out @ take 3 buf)))\<rparr>"

definition script_in :: "int \<Rightarrow> script \<Rightarrow> string" where
  "script_in fd w = concat (map (\<lambda>c. case c of None \<Rightarrow> [] | Some c \<Rightarrow> c) (fst w))"

definition script_out :: "int \<Rightarrow> script \<Rightarrow> string" where
  "script_out fd w = snd w"

lemma script_laws:
  "recv_law script_os script_in" "send_law script_os script_out"
  "recv_patient script_os (\<lambda>w. length (fst w))" "send_patient script_os (\<lambda>w. length (fst w))"
  by (auto simp: recv_law_def send_law_def recv_patient_def send_patient_def script_os_def
      script_in_def script_out_def min_def split: list.splits option.splits if_splits)

lemma spinning_script_laws:
  "recv_law (svc_os (spinning script_os)) script_in" "send_law (svc_os (spinning script_os)) script_out"
  "recv_patient (svc_os (spinning script_os)) (\<lambda>w. length (fst w))"
  "send_patient (svc_os (spinning script_os)) (\<lambda>w. length (fst w))"
  using script_laws
  by (simp_all add: recv_law_def send_law_def recv_patient_def send_patient_def spinning_def)





end
