(* ===== verification/Tcp_Server.thy ===== *)
theory Tcp_Server
  imports Tcp
begin

text \<open>
  Connecting (\<open>src/src/TcpConnector.cpp\<close>) and accepting (\<open>src/src/Acceptor.h\<close>,
  \<open>src/src/Acceptor.cpp\<close>).

  The objects that own a descriptor (the connection held by a shared pointer, the \<open>FDGuard\<close> of
  the acceptor) close it when they go out of scope; each early return of the sources is written
  with that call.
\<close>

subsection \<open>Connecting\<close>

text \<open>
  \<open>Connect\<close> for the service \<open>srv\<close>, \<open>None\<close> being a null pointer; its loop returns in the first
  round on every path.  The result's datum is the connection, \<open>None\<close> for a null pointer.
\<close>

definition TcpConnector_Connect_srv ::
  "'w svc \<Rightarrow> string \<Rightarrow> u16 \<Rightarrow> int \<Rightarrow> 'w \<Rightarrow> tcp_connection option result \<times> 'w" where
  "TcpConnector_Connect_srv sv addr port fd w =
     (let os = svc_os sv;
          conn = TcpConnectionBase fd;
          (s, w) = TcpConnection_SetNonBlocking os conn w
      in if \<not> status_IsOK s then (Result_status None s, TcpConnectionBase_destroy os conn w)
         else
           let (ok, peer) = SetInetAddress os addr port InetAddress
           in if \<not> ok
              then (Result_status None (Status_of kInvailArgument ''invail ip address''),
                    TcpConnectionBase_destroy os conn w)
              else
                let (s, w) = Connect os fd peer w
                in if status_IsOK s
                   then let (s', loc, w) = GetLocalAddress os fd InetAddress w;
                            conn = (if status_IsOK s' then conn\<lparr>local_addr := loc\<rparr> else conn)
                        in (Result_value (Some (conn\<lparr>peer_addr := peer\<rparr>)), w)
                   else if status_Is kAgain s
                   then let (s, w) = WaitIO sv fd EPOLLOUT w
                        in if status_IsOK s then (Result_value (Some conn), w)
                           else (Result_status None s, TcpConnectionBase_destroy os conn w)
                   else (Result_status None s, TcpConnectionBase_destroy os conn w))"

definition TcpConnector_Connect_thread ::
  "'w os \<Rightarrow> string \<Rightarrow> u16 \<Rightarrow> int \<Rightarrow> 'w \<Rightarrow> tcp_connection option result \<times> 'w" where
  "TcpConnector_Connect_thread os addr port fd w =
     (let conn = TcpConnectionBase fd;
          (ok, peer) = SetInetAddress os addr port InetAddress
      in if \<not> ok
         then (Result_status None (Status_of kInvailArgument ''invail ip address''),
               TcpConnectionBase_destroy os conn w)
         else
           let (s, w) = Connect_cstr os fd (Some addr) port w
           in if status_IsOK s
              then let (s', loc, w) = GetLocalAddress os fd InetAddress w;
                       conn = (if status_IsOK s' then conn\<lparr>local_addr := loc\<rparr> else conn)
                   in (Result_value (Some conn), w)
              else (Result_status None s, TcpConnectionBase_destroy os conn w))"

definition TcpConnector_Connect ::
  "'w os \<Rightarrow> 'w svc option \<Rightarrow> string \<Rightarrow> u16 \<Rightarrow> 'w \<Rightarrow> tcp_connection option result \<times> 'w" where
  "TcpConnector_Connect os srv addr port w =
     (let (rsock, w) = Socket os w
      in if \<not> Result_bool rsock then (Result_status None (res_state rsock), w)
         else case srv of
                Some sv \<Rightarrow> TcpConnector_Connect_srv sv addr port (Result_get rsock) w
              | None \<Rightarrow> TcpConnector_Connect_thread os addr port (Result_get rsock) w)"

subsection \<open>Accepting\<close>

text \<open>The destructor of \<open>FDGuard\<close> on the acceptor's descriptor, unless it was released.\<close>

definition FDGuard_destroy :: "'w os \<Rightarrow> bool \<Rightarrow> int \<Rightarrow> 'w \<Rightarrow> int \<times> 'w" where
  "FDGuard_destroy os need_close fd w = (if need_close then (-1, os_close os fd w) else (fd, w))"

text \<open>\<open>Initialize\<close>: the result, the acceptor's \<open>sockfd_\<close> and the world.\<close>

definition Acceptor_Initialize :: "'w os \<Rightarrow> string \<Rightarrow> int \<Rightarrow> 'w \<Rightarrow> bool \<times> int \<times> 'w" where
  "Acceptor_Initialize os host_port_str fd w =
     (case ParseIPAddress host_port_str of
        None \<Rightarrow> (False, fd, w)
      | Some (host, port) \<Rightarrow>
          let (r, w) = Socket os w
          in if \<not> Result_bool r then (False, fd, w)
             else
               let fd = Result_get r;
                   (ok, w) = SetReuseAddr os fd w
               in if \<not> ok then (False, FDGuard_destroy os True fd w)
                  else
                    let (_, w) = SetNoDelay os fd True w;
                        (ok, w) = SetNonBlocking os fd w
                    in if \<not> ok then (False, FDGuard_destroy os True fd w)
                       else
                         let host_cstr = (if host = [] \<or> host = ''*'' then None else Some host);
                             (ok, addr) = SetInetAddress_cstr os host_cstr port InetAddress
                         in if \<not> ok then (False, FDGuard_destroy os True fd w)
                            else
                              let (s, w) = Bind os fd addr w
                              in if \<not> status_IsOK s then (False, FDGuard_destroy os True fd w)
                                 else
                                   let (s, w) = Listen os fd w
                                   in if \<not> status_IsOK s then (False, FDGuard_destroy os True fd w)
                                      else (True, FDGuard_destroy os False fd w))"

definition Acceptor_Initialize_port :: "'w os \<Rightarrow> u16 \<Rightarrow> int \<Rightarrow> 'w \<Rightarrow> bool \<times> int \<times> 'w" where
  "Acceptor_Initialize_port os port fd w =
     (let host_port_str = ''*:'' @ to_string (unat port) in Acceptor_Initialize os host_port_str fd w)"

definition Acceptor_destroy :: "'w os \<Rightarrow> int \<Rightarrow> 'w \<Rightarrow> 'w" where
  "Acceptor_destroy os fd w = (if fd \<noteq> -1 then os_close os fd w else w)"

text \<open>
  \<open>StartAccept\<close>; \<open>on_new_conn\<close> is the callback.  The second test for \<open>kAgain\<close> of the source
  can never succeed.
\<close>

partial_function (option) StartAccept_loop ::
  "'w svc \<Rightarrow> (int \<Rightarrow> sockaddr_in \<Rightarrow> 'w \<Rightarrow> 'w) \<Rightarrow> int \<Rightarrow> sockaddr_in \<Rightarrow> 'w \<Rightarrow> 'w option" where
  "StartAccept_loop sv on_new_conn fd inet_addr w =
     (if svc_stopping sv w then Some w
      else let (s, connfd, inet_addr, w) = Accept2 (svc_os sv) fd (-1) inet_addr w
           in if status_IsOK s
              then StartAccept_loop sv on_new_conn fd inet_addr (on_new_conn connfd inet_addr w)
              else if status_Is kAgain s
              then let (s, w) = WaitInput sv fd w
                   in if \<not> status_IsOK s then Some w
                      else StartAccept_loop sv on_new_conn fd inet_addr w
              else if status_Is kAgain s then StartAccept_loop sv on_new_conn fd inet_addr w
              else Some w)"

definition StartAccept :: "'w svc \<Rightarrow> (int \<Rightarrow> sockaddr_in \<Rightarrow> 'w \<Rightarrow> 'w) \<Rightarrow> int \<Rightarrow> 'w \<Rightarrow> 'w option" where
  "StartAccept sv on_new_conn fd w =
     (if fd = -1 then Some w else StartAccept_loop sv on_new_conn fd InetAddress w)"

subsection \<open>Descriptors\<close>

text \<open>
  \<open>fds w\<close> are the open descriptors.  \<open>socket\<close> opens a new one unless it fails with \<open>-1\<close>,
  \<open>close\<close> closes one, the calls on an open socket leave the table alone.
\<close>

definition socket_law :: "'w os \<Rightarrow> ('w \<Rightarrow> int set) \<Rightarrow> bool" where
  "socket_law os fds \<longleftrightarrow>
     (\<forall>w r e w'. os_socket os w = ((r, e), w') \<longrightarrow>
        (if r = -1 then fds w' = fds w else r \<notin> fds w \<and> fds w' = insert r (fds w)))"

definition options_law :: "'w os \<Rightarrow> ('w \<Rightarrow> int set) \<Rightarrow> bool" where
  "options_law os fds \<longleftrightarrow>
     (\<forall>fd w. fds (snd (os_getfl os fd w)) = fds w) \<and> (\<forall>fd n w. fds (snd (os_setfl os fd n w)) = fds w) \<and>
     (\<forall>fd n w. fds (snd (os_set_reuseaddr os fd n w)) = fds w) \<and>
     (\<forall>fd n w. fds (snd (os_set_nodelay os fd n w)) = fds w) \<and>
     (\<forall>fd a w. fds (snd (os_bind os fd a w)) = fds w) \<and> (\<forall>fd n w. fds (snd (os_listen os fd n w)) = fds w) \<and>
     (\<forall>fd a w. fds (snd (os_connect os fd a w)) = fds w) \<and>
     (\<forall>fd w. fds (snd (os_getsockname os fd w)) = fds w)"

lemma options_keep:
  assumes "options_law os fds"
  shows "fds (snd (SetNonBlocking os fd w)) = fds w" "fds (snd (SetReuseAddr os fd w)) = fds w"
    "fds (snd (SetNoDelay os fd b w)) = fds w" "fds (snd (Bind os fd a w)) = fds w"
    "fds (snd (Listen os fd w)) = fds w" "fds (snd (Connect os fd a w)) = fds w"
    "fds (snd (Connect_cstr os fd ip port w)) = fds w"
    "fds (snd (snd (GetLocalAddress os fd a w))) = fds w"
    "fds (snd (TcpConnection_SetNonBlocking os conn w)) = fds w"
proof -
  note laws = assms [unfolded options_law_def]
  show nb: "fds (snd (SetNonBlocking os fd w)) = fds w" for fd w
    using laws by (simp add: SetNonBlocking_def case_prod_beta)
  show "fds (snd (SetReuseAddr os fd w)) = fds w"
    using laws by (simp add: SetReuseAddr_def case_prod_beta)
  show "fds (snd (SetNoDelay os fd b w)) = fds w"
    using laws by (simp add: SetNoDelay_def case_prod_beta)
  show "fds (snd (Bind os fd a w)) = fds w" using laws by (simp add: Bind_def case_prod_beta)
  show "fds (snd (Listen os fd w)) = fds w" using laws by (simp add: Listen_def case_prod_beta)
  show con: "fds (snd (Connect os fd a w)) = fds w" for a
    using laws by (simp add: Connect_def case_prod_beta)
  show "fds (snd (Connect_cstr os fd ip port w)) = fds w"
    by (simp add: Connect_cstr_def case_prod_beta con)
  show "fds (snd (snd (GetLocalAddress os fd a w))) = fds w"
    using laws by (simp add: GetLocalAddress_def case_prod_beta)
  show "fds (snd (TcpConnection_SetNonBlocking os conn w)) = fds w"
    by (simp add: TcpConnection_SetNonBlocking_def case_prod_beta nb)
qed

text \<open>What the caller of a connecting function that owns descriptor \<open>fd\<close> gets.\<close>

definition owns_result ::
  "('w \<Rightarrow> int set) \<Rightarrow> int \<Rightarrow> int set \<Rightarrow> tcp_connection option result \<times> 'w \<Rightarrow> bool" where
  "owns_result fds fd F res \<longleftrightarrow>
     (if Result_bool (fst res)
      then (\<exists>conn. Result_get (fst res) = Some conn \<and> sockfd conn = fd) \<and> fds (snd res) = insert fd F
      else Result_get (fst res) = None \<and> fds (snd res) = F)"

lemma owns_destroyed:
  "close_law os fds \<Longrightarrow> fds w = insert fd F \<Longrightarrow> fd \<notin> F \<Longrightarrow> fd \<noteq> -1 \<Longrightarrow> \<not> status_IsOK s \<Longrightarrow>
   owns_result fds fd F (Result_status None s, TcpConnectionBase_destroy os (TcpConnectionBase fd) w)"
  by (simp add: owns_result_def TcpConnectionBase_destroy_def TcpConnectionBase_def close_law_def
      Result_status_def Result_get_def Result_bool_def)

lemma owns_connected:
  "fds w = insert fd F \<Longrightarrow> sockfd conn = fd \<Longrightarrow> owns_result fds fd F (Result_value (Some conn), w)"
  by (simp add: owns_result_def)

lemma connect_srv_owns:
  assumes laws: "close_law (svc_os sv) fds" "options_law (svc_os sv) fds"
      "svc_respects sv (\<lambda>w w'. fds w' = fds w)"
    and fd: "fds w = insert fd F" "fd \<notin> F" "fd \<noteq> -1"
  shows "owns_result fds fd F (TcpConnector_Connect_srv sv addr port fd w)"
proof -
  have wait: "fds (snd (WaitIO sv fd ev w)) = fds w" for ev w
    using WaitIO_respects [OF laws(3)] .
  let ?os = "svc_os sv" and ?conn = "TcpConnectionBase fd"
  obtain s1 w1 where 1: "TcpConnection_SetNonBlocking ?os ?conn w = (s1, w1)" by (rule prod.exhaust)
  obtain ok peer where addr: "SetInetAddress ?os addr port InetAddress = (ok, peer)" by (rule prod.exhaust)
  obtain s2 w2 where 2: "Connect ?os fd peer w1 = (s2, w2)" by (rule prod.exhaust)
  obtain s3 loc w3 where 3: "GetLocalAddress ?os fd InetAddress w2 = (s3, loc, w3)" by (rule prod_cases3)
  obtain s4 w4 where 4: "WaitIO sv fd EPOLLOUT w2 = (s4, w4)" by (rule prod.exhaust)
  have "fds w1 = insert fd F" using options_keep(9) [OF laws(2), of ?conn w] 1 fd by simp
  moreover from this have "fds w2 = insert fd F" using options_keep(6) [OF laws(2), of fd peer w1] 2 by simp
  moreover from this have "fds w3 = insert fd F" "fds w4 = insert fd F"
    using options_keep(8) [OF laws(2), of fd InetAddress w2] wait [of EPOLLOUT w2] 3 4 by simp_all
  ultimately show ?thesis
    unfolding TcpConnector_Connect_srv_def Let_def 1 case_prod_conv addr 2 3 4
    using fd(2,3) laws(1)
    by (simp split: if_split)
      (intro conjI impI owns_destroyed owns_connected; simp add: TcpConnectionBase_def)
qed

lemma connect_thread_owns:
  assumes laws: "close_law os fds" "options_law os fds"
    and fd: "fds w = insert fd F" "fd \<notin> F" "fd \<noteq> -1"
  shows "owns_result fds fd F (TcpConnector_Connect_thread os addr port fd w)"
proof -
  obtain ok peer where addr: "SetInetAddress os addr port InetAddress = (ok, peer)" by (rule prod.exhaust)
  obtain s2 w2 where 2: "Connect_cstr os fd (Some addr) port w = (s2, w2)" by (rule prod.exhaust)
  obtain s3 loc w3 where 3: "GetLocalAddress os fd InetAddress w2 = (s3, loc, w3)" by (rule prod_cases3)
  have "fds w2 = insert fd F" using options_keep(7) [OF laws(2), of fd "Some addr" port w] 2 fd by simp
  moreover from this have "fds w3 = insert fd F"
    using options_keep(8) [OF laws(2), of fd InetAddress w2] 3 by simp
  ultimately show ?thesis
    unfolding TcpConnector_Connect_thread_def Let_def case_prod_conv addr 2 3
    using fd laws(1)
    by (simp split: if_split)
      (intro conjI impI owns_destroyed owns_connected; simp add: TcpConnectionBase_def)
qed

lemma Socket_cases:
  assumes "Socket os w = (r, w')" "socket_law os fds"
  obtains (opened) "Result_bool r" "Result_get r \<noteq> -1" "Result_get r \<notin> fds w"
      "fds w' = insert (Result_get r) (fds w)"
  | (failed) "\<not> Result_bool r" "fds w' = fds w"
proof -
  obtain x e where call: "os_socket os w = ((x, e), w')"
    using assms(1) by (auto simp: Socket_def split: prod.splits)
  have law: "if x = -1 then fds w' = fds w else x \<notin> fds w \<and> fds w' = insert x (fds w)"
    using assms(2) call unfolding socket_law_def by blast
  show thesis
  proof (cases "x = -1")
    case True
    then show thesis using failed law assms(1) call by (auto simp: Socket_def)
  next
    case False
    then show thesis using opened law assms(1) call by (auto simp: Socket_def)
  qed
qed

lemma acceptor_initialize_owns:
  assumes laws: "close_law os fds" "options_law os fds" "socket_law os fds"
  shows "let (ok, fd', w') = Acceptor_Initialize os str fd w in
    (if ok then fd' \<notin> fds w \<and> fd' \<noteq> -1 \<and> fds w' = insert fd' (fds w)
     else (fd' = fd \<or> fd' = -1) \<and> fds w' = fds w)"
proof (cases "ParseIPAddress str")
  case None
  then show ?thesis by (simp add: Acceptor_Initialize_def)
next
  case (Some hp)
  obtain host port where hp: "hp = (host, port)" by (rule prod.exhaust)
  obtain r w1 where 1: "Socket os w = (r, w1)" by (rule prod.exhaust)
  show ?thesis
    using 1 laws(3)
  proof (cases rule: Socket_cases)
    case failed
    then show ?thesis using Some hp 1 by (simp add: Acceptor_Initialize_def)
  next
    case opened
    let ?fd = "Result_get r" and ?ip = "if host = [] \<or> host = ''*'' then None else Some host"
    obtain b2 w2 where 2: "SetReuseAddr os ?fd w1 = (b2, w2)" by (rule prod.exhaust)
    obtain b3 w3 where 3: "SetNoDelay os ?fd True w2 = (b3, w3)" by (rule prod.exhaust)
    obtain b4 w4 where 4: "SetNonBlocking os ?fd w3 = (b4, w4)" by (rule prod.exhaust)
    obtain b5 addr where 5: "SetInetAddress_cstr os ?ip port InetAddress = (b5, addr)" by (rule prod.exhaust)
    obtain b6 w6 where 6: "Bind os ?fd addr w4 = (b6, w6)" by (rule prod.exhaust)
    obtain b7 w7 where 7: "Listen os ?fd w6 = (b7, w7)" by (rule prod.exhaust)
    note keep = options_keep [OF laws(2)]
    have eqs: "fds w2 = fds w1" "fds w3 = fds w2" "fds w4 = fds w3" "fds w6 = fds w4" "fds w7 = fds w6"
      using keep(2) [of ?fd w1] keep(3) [of ?fd True w2] keep(1) [of ?fd w3] keep(4) [of ?fd addr w4]
        keep(5) [of ?fd w6] 2 3 4 6 7 by simp_all
    have close: "fds (os_close os ?fd v) = fds v - {?fd}" for v
      using laws(1) by (simp add: close_law_def)
    show ?thesis
      using opened eqs
      unfolding Acceptor_Initialize_def Some hp option.case case_prod_conv 1 Let_def 2 3 4 5 6 7
      by (simp add: FDGuard_destroy_def close)
  qed
qed

text \<open>
  C32 (safety).  Connecting and listening leak no descriptor on any path.  \<open>TcpConnector::Connect\<close>,
  for a service or a plain thread, either returns a connection that owns the one new descriptor,
  or a failed result with a null connection and the descriptor table as it was, whichever of
  socket creation, mode change, address parsing, connecting or waiting failed.
  \<open>Acceptor::Initialize\<close> either succeeds and holds the one new descriptor, or fails with the
  table as it was and no stale descriptor in the acceptor.
\<close>

theorem connect_and_listen_leak_nothing:
  assumes "close_law (svc_os sv) fds" "options_law (svc_os sv) fds" "socket_law (svc_os sv) fds"
    and "svc_respects sv (\<lambda>w w'. fds w' = fds w)" "srv = Some sv \<or> srv = None"
  shows "(case TcpConnector_Connect (svc_os sv) srv addr port w of (r, w') \<Rightarrow>
      if Result_bool r
      then \<exists>conn. Result_get r = Some conn \<and> sockfd conn \<notin> fds w \<and> fds w' = insert (sockfd conn) (fds w)
      else Result_get r = None \<and> fds w' = fds w) \<and>
    (case Acceptor_Initialize (svc_os sv) str (-1) w of (ok, fd', w') \<Rightarrow>
      if ok then fd' \<notin> fds w \<and> fds w' = insert fd' (fds w) else fd' = -1 \<and> fds w' = fds w)"
proof
  obtain r w1 where 1: "Socket (svc_os sv) w = (r, w1)" by (rule prod.exhaust)
  obtain res w2 where 2: "TcpConnector_Connect (svc_os sv) srv addr port w = (res, w2)" by (rule prod.exhaust)
  show "case TcpConnector_Connect (svc_os sv) srv addr port w of (r, w') \<Rightarrow>
      if Result_bool r
      then \<exists>conn. Result_get r = Some conn \<and> sockfd conn \<notin> fds w \<and> fds w' = insert (sockfd conn) (fds w)
      else Result_get r = None \<and> fds w' = fds w"
    using 1 assms(3)
  proof (cases rule: Socket_cases)
    case failed
    then show ?thesis
      using 1 by (auto simp: TcpConnector_Connect_def Result_status_def Result_get_def Result_bool_def)
  next
    case opened
    have "owns_result fds (Result_get r) (fds w) (res, w2)"
      using assms(5) connect_srv_owns [OF assms(1,2,4) opened(4,3,2), of addr port]
        connect_thread_owns [OF assms(1,2) opened(4,3,2), of addr port] 1 2 opened(1)
      by (auto simp: TcpConnector_Connect_def)
    then show ?thesis using opened 2 by (auto simp: owns_result_def split: if_splits)
  qed
  show "case Acceptor_Initialize (svc_os sv) str (-1) w of (ok, fd', w') \<Rightarrow>
      if ok then fd' \<notin> fds w \<and> fds w' = insert fd' (fds w) else fd' = -1 \<and> fds w' = fds w"
    using acceptor_initialize_owns [OF assms(1-3), of str "-1" w]
    by (auto split: prod.splits if_splits)
qed

theorem connect_and_listen_leak_nothing_witness:
  "let (r, n, F) = TcpConnector_Connect (svc_os (spinning table_os)) (Some (spinning table_os)) ''nowhere'' 80 (3, {0, 1, 2})
   in \<not> Result_bool r \<and> {x \<in> F. x < int n} = {x \<in> {0, 1, 2}. x < int 3}"
proof -
  let ?fds = "\<lambda>(n, F). {x \<in> F. x < int n}" and ?sv = "spinning table_os"
  have laws: "close_law (svc_os ?sv) ?fds" "options_law (svc_os ?sv) ?fds" "socket_law (svc_os ?sv) ?fds"
    by (auto simp: close_law_def options_law_def socket_law_def spinning_def table_os_def quiet_os_def)
  have resp: "svc_respects ?sv (\<lambda>w w'. ?fds w' = ?fds w)"
    by (intro spinning_respects) (auto simp: reflp_def transp_def)
  obtain r n F where call: "TcpConnector_Connect (svc_os ?sv) (Some ?sv) ''nowhere'' 80 (3, {0, 1, 2}) = (r, n, F)"
    by (rule prod_cases3)
  have "\<not> Result_bool r"
    using call by (auto simp: TcpConnector_Connect_def TcpConnector_Connect_srv_def Socket_def
        TcpConnection_SetNonBlocking_def SetNonBlocking_def SetInetAddress_def SetInetAddress_cstr_def
        TcpConnectionBase_def spinning_def table_os_def quiet_os_def)
  then show ?thesis
    using connect_and_listen_leak_nothing [OF laws resp, where srv = "Some ?sv" and
        addr = "''nowhere''" and port = 80 and w = "(3, {0, 1, 2})" and str = "[]"] call
    by simp
qed

subsection \<open>The accept loop\<close>

text \<open>
  \<open>taken w\<close> are the connections the kernel has handed out on the listening socket, \<open>handed w\<close>
  those the callback was called with, \<open>rounds w\<close> bounds the calls of \<open>accept\<close> until the service
  is asked to stop.
\<close>

definition accept_law ::
  "'w svc \<Rightarrow> ('w \<Rightarrow> (int \<times> sockaddr_in) list) \<Rightarrow> ('w \<Rightarrow> (int \<times> sockaddr_in) list) \<Rightarrow> ('w \<Rightarrow> nat) \<Rightarrow> bool" where
  "accept_law sv taken handed rounds \<longleftrightarrow>
     (\<forall>fd w r e a w'. os_accept (svc_os sv) fd w = ((r, e, a), w') \<longrightarrow>
        taken w' = (if 0 \<le> r then taken w @ [(r, a)] else taken w) \<and>
        handed w' = handed w \<and> (\<not> svc_stopping sv w \<longrightarrow> rounds w' < rounds w))"

definition callback_law ::
  "(int \<Rightarrow> sockaddr_in \<Rightarrow> 'w \<Rightarrow> 'w) \<Rightarrow> ('w \<Rightarrow> (int \<times> sockaddr_in) list) \<Rightarrow>
    ('w \<Rightarrow> (int \<times> sockaddr_in) list) \<Rightarrow> ('w \<Rightarrow> nat) \<Rightarrow> bool" where
  "callback_law cb taken handed rounds \<longleftrightarrow>
     (\<forall>fd a w. taken (cb fd a w) = taken w \<and> handed (cb fd a w) = handed w @ [(fd, a)] \<and>
        rounds (cb fd a w) \<le> rounds w)"

lemma StartAccept_loop_hands_over:
  assumes laws: "accept_law sv taken handed rounds" "callback_law cb taken handed rounds"
    "svc_respects sv (\<lambda>w w'. taken w' = taken w \<and> handed w' = handed w \<and> rounds w' \<le> rounds w)"
  shows "\<exists>w' new. StartAccept_loop sv cb fd addr w = Some w' \<and>
    taken w' = taken w @ new \<and> handed w' = handed w @ new"
proof (induction "rounds w" arbitrary: w addr rule: less_induct)
  case less
  show ?case
  proof (cases "svc_stopping sv w")
    case True
    then show ?thesis by (subst StartAccept_loop.simps) simp
  next
    case False
    obtain r e a v where call: "os_accept (svc_os sv) fd w = ((r, e, a), v)" by (metis prod.exhaust)
    have acc: "taken v = (if 0 \<le> r then taken w @ [(r, a)] else taken w)" "handed v = handed w"
      "rounds v < rounds w"
      using laws(1) call False unfolding accept_law_def by blast+
    show ?thesis
    proof (cases "0 \<le> r")
      case True
      have cb: "taken (cb r a v) = taken v" "handed (cb r a v) = handed v @ [(r, a)]"
        "rounds (cb r a v) \<le> rounds v"
        using laws(2) unfolding callback_law_def by blast+
      with acc have "rounds (cb r a v) < rounds w" by simp
      from less.hyps [OF this, of a] show ?thesis
        using True False call acc cb by (subst StartAccept_loop.simps) (auto simp: Accept2_def)
    next
      case neg: False
      obtain s u where s: "WaitInput sv fd v = (s, u)" by (rule prod.exhaust)
      have wait: "taken u = taken v \<and> handed u = handed v \<and> rounds u \<le> rounds v"
        using WaitIO_respects [OF laws(3), where w = v and fd = fd and ev = "EPOLLIN OR EPOLLET"] s
        by (simp add: WaitInput_def)
      then have "rounds u < rounds w" using acc by simp
      from less.hyps [OF this, of addr] show ?thesis
        using neg False call acc wait s
        by (subst StartAccept_loop.simps) (auto simp: Accept2_def split: errno.splits)
    qed
  qed
qed


text \<open>
  Two clients connect, with a moment in which nobody does, then the service is asked to stop: the
  world is the script of the kernel's answers, the connections taken and the connections given.
\<close>

type_synonym clients = "int list \<times> (int \<times> sockaddr_in) list \<times> (int \<times> sockaddr_in) list"

definition client_svc :: "clients svc" where
  "client_svc = (spinning (quiet_os
     \<lparr>os_accept := (\<lambda>fd (s, t, g). case s of
          [] \<Rightarrow> ((-1, Errno 9, InetAddress), (s, t, g))
        | r # s' \<Rightarrow> ((r, EAGAIN, InetAddress),
                     (s', if 0 \<le> r then t @ [(r, InetAddress)] else t, g)))\<rparr>))
     \<lparr>svc_stopping := (\<lambda>(s, t, g). s = [])\<rparr>"

definition record_client :: "int \<Rightarrow> sockaddr_in \<Rightarrow> clients \<Rightarrow> clients" where
  "record_client fd a = (\<lambda>(s, t, g). (s, t, g @ [(fd, a)]))"


end
