(* ===== verification/Rpc_Codec.thy ===== *)
theory Rpc_Codec
  imports Tcp
begin

text \<open>
  The framing of remote procedure calls (\<open>src/src/RpcCodec.h\<close>, \<open>src/src/RpcCodec.cpp\<close>): a
  packet is one byte of message type, two bytes of length and the serialised message.

  Serialisation is the work of the protocol-buffer library, a parameter: \<open>AppendToString\<close> and
  \<open>ParseFromArray\<close> of a message class are the two fields of \<open>pb\<close>.  The connection is a
  parameter as well, by its virtual \<open>Read\<close> and \<open>Write\<close>, so that the codec works over the
  connection of a thread and of a service alike.
\<close>

subsection \<open>Messages\<close>

record 'a pb =
  pb_append :: "'a \<Rightarrow> string option"
  pb_parse :: "string \<Rightarrow> 'a option"

text \<open>What serialises can be parsed back.\<close>

definition pb_law :: "'a pb \<Rightarrow> bool" where
  "pb_law pb \<longleftrightarrow> (\<forall>m bytes. pb_append pb m = Some bytes \<longrightarrow> pb_parse pb bytes = Some m)"

record RpcRequest =
  req_service :: string
  req_method :: string
  argument_bytes :: string

record RpcResponse =
  response_message :: string

datatype MessageType = Codec_kInvaild | Codec_kRequest | Codec_KResponse

fun MessageType_code :: "MessageType \<Rightarrow> nat" where
  "MessageType_code Codec_kInvaild = 0"
| "MessageType_code Codec_kRequest = 1"
| "MessageType_code Codec_KResponse = 2"

subsection \<open>Reading and writing packets\<close>

type_synonym 'w reader = "nat \<Rightarrow> 'w \<Rightarrow> (status \<times> string \<times> 'w) option"
type_synonym 'w writer = "string \<Rightarrow> 'w \<Rightarrow> (status \<times> 'w) option"

text \<open>The three bytes read into a 32-bit word that was zero, on a little-endian machine.\<close>

definition packet_head :: "string \<Rightarrow> u32" where
  "packet_head buf = of_nat (of_char (buf ! 0)) OR push_bit 8 (of_nat (of_char (buf ! 1)))
     OR push_bit 16 (of_nat (of_char (buf ! 2)))"

text \<open>The common body of \<open>ReadRequestMessage\<close> and \<open>ReadResponeMessage\<close>.\<close>

definition ReadMessage ::
  "'w reader \<Rightarrow> 'a pb \<Rightarrow> MessageType \<Rightarrow> 'w \<Rightarrow> (status \<times> 'a option \<times> 'w) option" where
  "ReadMessage rd pb ty w = do {
     (s, buf, w) \<leftarrow> rd 3 w;
     if \<not> status_IsOK s then Some (s, None, w)
     else do {
       let head = packet_head buf;
       let msg_type = head AND 0xFF;
       if msg_type \<noteq> of_nat (MessageType_code ty)
       then Some (Status_of kInvailArgument ''Message type error'', None, w)
       else do {
         let pack_len = drop_bit 8 head AND 0xFFFF;
         if pack_len = 0 then Some (Status_of kInvailArgument '' Message length error'', None, w)
         else do {
           (s, buffer, w) \<leftarrow> rd (unat pack_len) w;
           if \<not> status_IsOK s then Some (s, None, w)
           else (case pb_parse pb buffer of
                   Some m \<Rightarrow> Some (Status_OK, Some m, w)
                 | None \<Rightarrow> Some (Status_of kFailed ''ParseFromArray failed'', None, w))
         }
       }
     }
   }"

definition ReadRequestMessage ::
  "'w reader \<Rightarrow> RpcRequest pb \<Rightarrow> 'w \<Rightarrow> (status \<times> RpcRequest option \<times> 'w) option" where
  "ReadRequestMessage rd pb w = ReadMessage rd pb Codec_kRequest w"

definition ReadResponeMessage ::
  "'w reader \<Rightarrow> RpcResponse pb \<Rightarrow> 'w \<Rightarrow> (status \<times> RpcResponse option \<times> 'w) option" where
  "ReadResponeMessage rd pb w = ReadMessage rd pb Codec_KResponse w"

text \<open>\<open>None\<close> is a failed \<open>CHECK_LT\<close>, or a \<open>Write\<close> that does not return.\<close>

definition WriteMessage ::
  "'w writer \<Rightarrow> 'a pb \<Rightarrow> MessageType \<Rightarrow> 'a \<Rightarrow> 'w \<Rightarrow> (status \<times> 'w) option" where
  "WriteMessage wr pb ty msg w =
     (case pb_append pb msg of
        Some bytes \<Rightarrow> do {
          let pack_len = length bytes;
          CHECK (pack_len < 0xFFFF);
          let buffer = char_of (MessageType_code ty) # char_of (pack_len AND 0xFF)
                # char_of (drop_bit 16 pack_len AND 0xFF) # bytes;
          (s, w) \<leftarrow> wr buffer w;
          if status_IsOK s then Some (Status_OK, w) else Some (s, w)
        }
      | None \<Rightarrow> Some (Status_of kFailed ''AppendToString failed'', w))"

definition WriteRequestMessage :: "'w writer \<Rightarrow> RpcRequest pb \<Rightarrow> RpcRequest \<Rightarrow> 'w \<Rightarrow> (status \<times> 'w) option" where
  "WriteRequestMessage wr pb request w = WriteMessage wr pb Codec_kRequest request w"

definition WriteResponeMessage :: "'w writer \<Rightarrow> RpcResponse pb \<Rightarrow> RpcResponse \<Rightarrow> 'w \<Rightarrow> (status \<times> 'w) option" where
  "WriteResponeMessage wr pb response w = WriteMessage wr pb Codec_KResponse response w"

subsection \<open>The header\<close>

definition packet :: "MessageType \<Rightarrow> string \<Rightarrow> string" where
  "packet ty bytes = char_of (MessageType_code ty) # char_of (length bytes AND 0xFF)
     # char_of (drop_bit 16 (length bytes) AND 0xFF) # bytes"

lemma low_byte: "(n AND 0xFF :: nat) = n mod 256"
proof -
  have "(0xFF :: nat) = mask 8" by (simp add: mask_eq_exp_minus_1)
  then show ?thesis using take_bit_eq_mask [of 8 n] take_bit_eq_mod [of 8 n] by simp
qed

lemma packet_short:
  assumes "length bytes < 0xFFFF"
  shows "packet ty bytes = char_of (MessageType_code ty) # char_of (length bytes mod 256) # char_of (0 :: nat) # bytes"
proof -
  have "drop_bit 16 (length bytes) = 0" using assms by (simp add: drop_bit_eq_div)
  then show ?thesis by (simp add: packet_def low_byte)
qed

lemma small_word:
  assumes "a < 256"
  shows "drop_bit 8 (of_nat a :: u32) = 0" "take_bit 8 (of_nat a :: u32) = of_nat a"
    "take_bit 16 (of_nat a :: u32) = of_nat a" "unat (of_nat a :: u32) = a" "take_bit 24 (of_nat a :: u32) = of_nat a"
proof -
  show u: "unat (of_nat a :: u32) = a" using assms by (simp add: unat_of_nat)
  have "unat (drop_bit 8 (of_nat a :: u32)) = 0" using assms by (simp only: unat_shiftr u) simp
  then show "drop_bit 8 (of_nat a :: u32) = 0" by (simp only: unat_eq_0)
  have "take_bit n a = a" if "8 \<le> n" for n
  proof -
    have "(2 :: nat) ^ 8 \<le> 2 ^ n" using that by (intro power_increasing) auto
    with assms show ?thesis by (simp add: take_bit_eq_mod)
  qed
  then have "take_bit n (of_nat a :: u32) = of_nat a" if "8 \<le> n" for n
    using that by (simp flip: of_nat_take_bit)
  then show "take_bit 8 (of_nat a :: u32) = of_nat a" "take_bit 16 (of_nat a :: u32) = of_nat a"
    "take_bit 24 (of_nat a :: u32) = of_nat a" by simp_all
qed

lemma head_fields:
  assumes "a < 256" "b < 256"
  shows "packet_head [char_of a, char_of b, char_of (0 :: nat)] AND 0xFF = of_nat a"
    "drop_bit 8 (packet_head [char_of a, char_of b, char_of (0 :: nat)]) AND 0xFFFF = of_nat b"
proof -
  have ch: "of_char (char_of n) = n" if "n < 256" for n :: nat
    using that by (simp add: of_char_of)
  have head: "packet_head [char_of a, char_of b, char_of (0 :: nat)] = of_nat a OR push_bit 8 (of_nat b)"
    unfolding packet_head_def nth_Cons_0 by (simp add: ch assms)
  have m: "x AND 0xFF = take_bit 8 x" "x AND 0xFFFF = take_bit 16 x" for x :: u32
    unfolding take_bit_eq_mask by (simp_all add: mask_eq_exp_minus_1)
  show "packet_head [char_of a, char_of b, char_of (0 :: nat)] AND 0xFF = of_nat a"
    unfolding head m by (simp add: take_bit_or take_bit_push_bit small_word [OF assms(1)])
  have shift: "drop_bit 8 (push_bit 8 x) = take_bit 24 x" for x :: u32
    by (rule bit_word_eqI) (auto simp: bit_simps)
  show "drop_bit 8 (packet_head [char_of a, char_of b, char_of (0 :: nat)]) AND 0xFFFF = of_nat b"
    unfolding head m
    by (simp add: drop_bit_or small_word [OF assms(1)] small_word [OF assms(2)] shift)
qed

subsection \<open>Packets over a connection\<close>

text \<open>A connection on which a read of bytes that are there succeeds.\<close>

definition reliable :: "'w reader \<Rightarrow> ('w \<Rightarrow> string) \<Rightarrow> bool" where
  "reliable rd inb \<longleftrightarrow> (\<forall>n u. n \<le> length (inb u) \<longrightarrow> (\<exists>b u'. rd n u = Some (Status_OK, b, u')))"

context stream_connection
begin

lemma write_packet:
  assumes "wr_ok e outb" "pb_append pb m = Some bytes"
    and "WriteMessage (wr e) pb ty m w = Some (Status_OK, w')"
  shows "outb w' = outb w @ packet ty bytes" "length bytes < 0xFFFF"
proof -
  have "length bytes < 0xFFFF \<and> wr e (packet ty bytes) w = Some (Status_OK, w')"
    using assms(2,3)
    by (auto simp: WriteMessage_def packet_def Let_def bind_eq_Some_conv status_IsOK_iff
        split: if_splits)
  then show "outb w' = outb w @ packet ty bytes" "length bytes < 0xFFFF"
    using wr_all [OF assms(1)] by auto
qed

text \<open>A packet is read back as its first \<open>length mod 256\<close> bytes.\<close>

lemma read_packet:
  assumes ok: "rd_ok e inb" "reliable (rd e) inb"
    and inb: "inb v = packet ty bytes @ rest" "length bytes < 0xFFFF"
    and l: "l = length bytes mod 256" "l \<noteq> 0"
  obtains v' where "inb v' = drop l bytes @ rest"
    "ReadMessage (rd e) pb ty v = Some (case pb_parse pb (take l bytes) of
       Some m \<Rightarrow> (Status_OK, Some m, v')
     | None \<Rightarrow> (Status_of kFailed ''ParseFromArray failed'', None, v'))"
proof -
  let ?head = "[char_of (MessageType_code ty), char_of l, char_of (0 :: nat)]"
  have pk: "inb v = ?head @ bytes @ rest"
    using inb packet_short [of bytes ty] l(1) by simp
  then have "3 \<le> length (inb v)" by simp
  then obtain b u where r1: "rd e 3 v = Some (Status_OK, b, u)"
    using ok(2) unfolding reliable_def by blast
  have b: "b = ?head" and u: "inb u = bytes @ rest"
    using rd_take [OF ok(1) r1] pk by (simp_all add: numeral_3_eq_3)
  have ll: "l < 256" "l \<le> length bytes" using l(1) by (auto simp: mod_less_eq_dividend)
  have ty: "MessageType_code ty < 256" by (cases ty) simp_all
  have "l \<le> length (inb u)" using u ll by simp
  then obtain b' u' where r2: "rd e l u = Some (Status_OK, b', u')"
    using ok(2) unfolding reliable_def by blast
  have b': "b' = take l bytes" and u': "inb u' = drop l bytes @ rest"
    using rd_take [OF ok(1) r2] u ll by simp_all
  have len: "drop_bit 8 (packet_head ?head) AND 0xFFFF = of_nat l" and "unat (of_nat l :: u32) = l"
    and tyf: "packet_head ?head AND 0xFF = of_nat (MessageType_code ty)"
    using head_fields [OF ty ll(1)] small_word(4) [OF ll(1)] by simp_all
  then have "of_nat l \<noteq> (0 :: u32)" using l(2) by (metis unat_0)
  then show thesis
    using r1 r2 \<open>unat _ = l\<close> u'
    by (intro that [of u']) (simp_all add: ReadMessage_def b b' len tyf split: option.split)
qed

end

subsection \<open>An example connection\<close>

text \<open>The kernel of scripts is reliable.\<close>

lemma script_reliable_loop:
  "n \<le> length (script_in 7 (s, out)) \<Longrightarrow>
   \<exists>b u'. Read_loop (spinning script_os) 7 n acc (s, out) = Some (Status_OK, b, u')"
proof (induction "n + length s" arbitrary: n s acc rule: less_induct)
  case less
  show ?case
  proof (cases "n = 0")
    case True
    then show ?thesis by (subst Read_loop.simps) simp
  next
    case n: False
    with less.prems obtain c s' where s: "s = c # s'" by (cases s) (auto simp: script_in_def)
    show ?thesis
    proof (cases "c = None \<or> c = Some []")
      case True
      then have "n \<le> length (script_in 7 (s', out))" "n + length s' < n + length s"
        using less.prems by (auto simp: s script_in_def)
      from less.hyps [OF this(2,1), of acc] show ?thesis
        using True n by (subst Read_loop.simps) (auto simp: s Recv_def script_os_def)
    next
      case False
      then obtain d where d: "c = Some d" "d \<noteq> []" by auto
      let ?k = "length (take n d)" and ?s = "Some (drop n d) # s'"
      have k: "0 < ?k" "?k \<le> n" using d n by auto
      have "n - ?k \<le> length (script_in 7 (?s, out))" "n - ?k + length ?s < n + length s"
        using less.prems k by (auto simp: s d script_in_def)
      from less.hyps [OF this(2,1), of "acc @ take n d"] show ?thesis
        using d n k by (subst Read_loop.simps) (auto simp: s Recv_def script_os_def)
    qed
  qed
qed

lemma script_reliable: "reliable (Read (spinning script_os) 7) (script_in 7)"
  using script_reliable_loop unfolding reliable_def Read_def by (metis prod.exhaust)

lemma script_streams:
  "svc_writes (spinning script_os, 7) (script_out 7)" "svc_reads (spinning script_os, 7) (script_in 7)"
proof -
  have "svc_respects (spinning script_os) (\<lambda>w w'. f w' = f w)" for f :: "script \<Rightarrow> string"
    by (intro spinning_respects) (auto simp: reflp_def transp_def)
  then show "svc_writes (spinning script_os, 7) (script_out 7)" "svc_reads (spinning script_os, 7) (script_in 7)"
    using spinning_script_laws by (auto simp: svc_writes_def svc_reads_def)
qed

lemma script_write_loop:
  "n \<le> length buf \<Longrightarrow> Write_loop (spinning script_os) 7 buf n (s, out) =
     Some (Status_OK, (s, out @ drop (length buf - n) buf))"
proof (induction n arbitrary: out rule: less_induct)
  case (less n)
  show ?case
  proof (cases "n = 0")
    case True
    then show ?thesis by (subst Write_loop.simps) simp
  next
    case False
    let ?k = "min 3 n" and ?d = "drop (length buf - n) buf"
    have k: "n - ?k < n" "n - ?k \<le> length buf" "length buf - (n - ?k) = ?k + (length buf - n)"
      using False less.prems by auto
    have 1: "drop (length buf - (n - ?k)) buf = drop ?k ?d" unfolding k(3) by (simp only: drop_drop)
    have 2: "take 3 ?d = take ?k ?d" by (cases "3 \<le> n") (auto simp: less.prems)
    have "out @ take 3 ?d @ drop (length buf - (n - ?k)) buf = out @ ?d"
      unfolding 1 2 append_take_drop_id ..
    then show ?thesis
      using False less.prems less.IH [OF k(1,2), of "out @ take 3 ?d"]
      by (subst Write_loop.simps) (simp add: Send_def script_os_def)
  qed
qed

lemma script_write:
  "Write (spinning script_os) 7 buf (s, out) = Some (Status_OK, (s, out @ buf))"
  using script_write_loop [of "length buf" buf s out] by (simp add: Write_def)

text \<open>Messages that are their own serialisation.\<close>

definition raw_pb :: "string pb" where
  "raw_pb = \<lparr>pb_append = Some, pb_parse = Some\<rparr>"

lemma raw_pb_facts: "pb_law raw_pb" "pb_append raw_pb m = Some m"
  by (simp_all add: pb_law_def raw_pb_def)

lemma script_write_message:
  "length m < 0xFFFF \<Longrightarrow>
   WriteMessage (Write (spinning script_os) 7) raw_pb ty m (s, out) = Some (Status_OK, (s, out @ packet ty m))"
  by (simp add: WriteMessage_def raw_pb_def packet_def script_write Let_def)

subsection \<open>Properties\<close>

text \<open>
  C34 (roundtrip).  A message whose serialisation has between 1 and 255 bytes survives the trip:
  if one side's \<open>WriteRequestMessage\<close> or \<open>WriteResponeMessage\<close> reports success and the bytes it
  sent arrive on a reliable connection, the other side's read returns exactly that message and
  leaves the stream at the first byte after the packet, so that the next message can follow.
\<close>

theorem rpc_packet_roundtrip:
  assumes "pb_law pb" "pb_append pb m = Some bytes" "0 < length bytes" "length bytes < 256"
    and "svc_writes (wsv, wfd) outb" "WriteMessage (Write wsv wfd) pb ty m w = Some (Status_OK, w')"
    and "svc_reads (rsv, rfd) inb" "reliable (Read rsv rfd) inb"
    and "inb v = drop (length (outb w)) (outb w') @ rest"
  shows "\<exists>v'. ReadMessage (Read rsv rfd) pb ty v = Some (Status_OK, Some m, v') \<and> inb v' = rest"
proof -
  have out: "outb w' = outb w @ packet ty bytes"
    using svc_conn.write_packet(1) [OF assms(5,2)] assms(6) by simp
  then have v: "inb v = packet ty bytes @ rest" using assms(9) by simp
  have len: "length bytes < 0xFFFF" "length bytes = length bytes mod 256" "length bytes \<noteq> 0"
    using assms(3,4) by simp_all
  obtain v' where "inb v' = drop (length bytes) bytes @ rest"
    "ReadMessage (Read rsv rfd) pb ty v = Some (case pb_parse pb (take (length bytes) bytes) of
       Some m \<Rightarrow> (Status_OK, Some m, v')
     | None \<Rightarrow> (Status_of kFailed ''ParseFromArray failed'', None, v'))"
    using svc_conn.read_packet [OF assms(7) _ v len(1,2,3), of pb] assms(8) by auto
  moreover have "pb_parse pb bytes = Some m" using assms(1,2) by (simp add: pb_law_def)
  ultimately show ?thesis by auto
qed

theorem rpc_packet_roundtrip_witness:
  "\<exists>v'. ReadMessage (Read (spinning script_os) 7) raw_pb Codec_kRequest ([None, Some (packet Codec_kRequest ''hi'' @ ''xy'')], [])
     = Some (Status_OK, Some ''hi'', v') \<and> script_in 7 v' = ''xy''"
proof -
  have wr: "WriteMessage (Write (spinning script_os) 7) raw_pb Codec_kRequest ''hi'' ([], [])
      = Some (Status_OK, ([], [] @ packet Codec_kRequest ''hi''))"
    by (rule script_write_message) simp
  show ?thesis
    by (rule rpc_packet_roundtrip [OF raw_pb_facts(1,2) _ _ script_streams(1) wr script_streams(2) script_reliable])
      (simp_all add: script_in_def script_out_def)
qed

text \<open>
  C35 (error).  A longer message is misframed.  The writer puts bits 16 to 23 of the length into
  the third header byte instead of bits 8 to 15, so for 256 to 65534 bytes of payload (not a
  multiple of 256) the packet is written with success, the reader parses only the first
  \<open>length mod 256\<close> bytes, and the rest of the payload stays in the stream in front of the next
  packet.
\<close>

theorem long_rpc_packet_misframed:
  assumes "pb_append pb m = Some bytes" "256 \<le> length bytes" "length bytes mod 256 \<noteq> 0"
    and "svc_writes (wsv, wfd) outb" "WriteMessage (Write wsv wfd) pb ty m w = Some (Status_OK, w')"
    and "svc_reads (rsv, rfd) inb" "reliable (Read rsv rfd) inb"
    and "inb v = drop (length (outb w)) (outb w') @ rest"
  shows "\<exists>v' left. inb v' = left @ rest \<and> left \<noteq> [] \<and> left = drop (length bytes mod 256) bytes \<and>
    ReadMessage (Read rsv rfd) pb ty v = Some (case pb_parse pb (take (length bytes mod 256) bytes) of
       Some m' \<Rightarrow> (Status_OK, Some m', v')
     | None \<Rightarrow> (Status_of kFailed ''ParseFromArray failed'', None, v'))"
proof -
  have out: "outb w' = outb w @ packet ty bytes" and len: "length bytes < 0xFFFF"
    using svc_conn.write_packet [OF assms(4,1)] assms(5) by simp_all
  then have v: "inb v = packet ty bytes @ rest" using assms(8) by simp
  obtain v' where "inb v' = drop (length bytes mod 256) bytes @ rest"
    "ReadMessage (Read rsv rfd) pb ty v = Some (case pb_parse pb (take (length bytes mod 256) bytes) of
       Some m \<Rightarrow> (Status_OK, Some m, v')
     | None \<Rightarrow> (Status_of kFailed ''ParseFromArray failed'', None, v'))"
    using svc_conn.read_packet [OF assms(6) _ v len refl assms(3), of pb] assms(7) by auto
  moreover have "length bytes mod 256 < length bytes"
    using assms(2) mod_less_divisor [of 256 "length bytes"] by simp
  ultimately show ?thesis by auto
qed

theorem long_rpc_packet_misframed_witness:
  "\<exists>v' left. script_in 7 v' = left @ ''xy'' \<and> left \<noteq> [] \<and>
     ReadMessage (Read (spinning script_os) 7) raw_pb Codec_kRequest
       ([Some (packet Codec_kRequest (replicate 258 (CHR ''a'')) @ ''xy'')], [])
     = Some (Status_OK, Some ''aa'', v')"
proof -
  let ?m = "replicate 258 (CHR ''a'')"
  have "length ?m mod 256 = 2" by simp
  then have two: "take (length ?m mod 256) ?m = ''aa''" by (simp add: numeral_2_eq_2)
  have wr: "WriteMessage (Write (spinning script_os) 7) raw_pb Codec_kRequest ?m ([], [])
      = Some (Status_OK, ([], [] @ packet Codec_kRequest ?m))"
    by (rule script_write_message) simp
  have "pb_append raw_pb ?m = Some ?m" "256 \<le> length ?m" "length ?m mod 256 \<noteq> 0"
    by (simp_all add: raw_pb_facts)
  from long_rpc_packet_misframed [OF this script_streams(1) wr script_streams(2) script_reliable,
      of "([Some (packet Codec_kRequest ?m @ ''xy'')], [])" "''xy''"]
  show ?thesis unfolding two by (auto simp: script_in_def script_out_def raw_pb_def)
qed

end
