(* ===== verification/Object_Cache.thy ===== *)
theory Object_Cache
  imports Util
begin

text \<open>
  The object cache (\<open>src/src/util/ObjectCache.h\<close>): memory for objects of one size, carved from
  buffers, kept in per-thread caches and in a shared list of full caches.

  An object's memory is named by its buffer and its index there.  A cache is the stack of the
  pointers in it, the one stored last first; the shared list of caches likewise.  The only shared
  accesses of \<open>get\<close> and \<open>put\<close> are single critical sections, so each call is one step, except
  that the test \<open>IsCacheListEmpty_Unsyn\<close>, made without the mutex, may give a stale answer: it is
  an argument of \<open>get\<close>.
\<close>

subsection \<open>The cache\<close>

type_synonym mem = "nat \<times> nat"

record mem_cache =
  cache_list :: "mem list list"
  buffer_list :: "nat list"
  tl_cache :: "nat \<Rightarrow> mem list option"          \<comment> \<open>\<open>this_thread_data_.cache\<close> of each thread\<close>
  tl_buffer :: "nat \<Rightarrow> (nat \<times> nat) option"     \<comment> \<open>\<open>this_thread_data_.buffer\<close>: buffer and its \<open>size\<close>\<close>
  next_buffer :: nat

definition MemCache :: mem_cache where
  "MemCache = \<lparr>cache_list = [], buffer_list = [], tl_cache = (\<lambda>_. None), tl_buffer = (\<lambda>_. None),
     next_buffer = 0\<rparr>"

definition AllocCache :: "nat \<Rightarrow> mem_cache \<Rightarrow> mem_cache" where
  "AllocCache t m = m\<lparr>tl_cache := (tl_cache m)(t := Some [])\<rparr>"

definition AllocBuffer :: "nat \<Rightarrow> mem_cache \<Rightarrow> mem_cache" where
  "AllocBuffer t m =
     m\<lparr>tl_buffer := (tl_buffer m)(t := Some (next_buffer m, 0)), next_buffer := Suc (next_buffer m)\<rparr>"

text \<open>\<open>buffer->get(buffer->size++)\<close> on the thread's buffer.\<close>

definition Buffer_take :: "nat \<Rightarrow> mem_cache \<Rightarrow> mem \<times> mem_cache" where
  "Buffer_take t m =
     (case tl_buffer m t of
        Some (b, n) \<Rightarrow> ((b, n), m\<lparr>tl_buffer := (tl_buffer m)(t := Some (b, Suc n))\<rparr>)
      | None \<Rightarrow> ((0, 0), m))"

text \<open>
  \<open>get\<close> on thread \<open>t\<close>, with \<open>nb\<close> objects to a buffer.  \<open>None\<close> is the read of
  \<open>objects[--size]\<close> from an empty cache.
\<close>

definition MemCache_get :: "nat \<Rightarrow> bool \<Rightarrow> nat \<Rightarrow> mem_cache \<Rightarrow> (mem \<times> mem_cache) option" where
  "MemCache_get nb seems_empty t m =
     (let m = (if tl_cache m t = None then AllocCache t m else m)
      in case tl_cache m t of
           Some (ptr # c) \<Rightarrow> Some (ptr, m\<lparr>tl_cache := (tl_cache m)(t := Some c)\<rparr>)
         | _ \<Rightarrow>
             (case (if seems_empty then [] else cache_list m) of
                c # cs \<Rightarrow>
                  (case c of
                     ptr # c' \<Rightarrow> Some (ptr, m\<lparr>cache_list := cs, tl_cache := (tl_cache m)(t := Some c')\<rparr>)
                   | [] \<Rightarrow> None)
              | [] \<Rightarrow>
                  let m = (if tl_buffer m t = None then AllocBuffer t m else m);
                      (b, n) = the (tl_buffer m t)
                  in if n < nb then Some (Buffer_take t m)
                     else Some (Buffer_take t (AllocBuffer t (m\<lparr>buffer_list := buffer_list m @ [b]\<rparr>)))))"

text \<open>\<open>put\<close> on thread \<open>t\<close>, with \<open>nc\<close> pointers to a cache.\<close>

definition MemCache_put :: "nat \<Rightarrow> nat \<Rightarrow> mem \<Rightarrow> mem_cache \<Rightarrow> mem_cache" where
  "MemCache_put nc t ptr m =
     (let m = (if tl_cache m t = None then AllocCache t m else m);
          c = the (tl_cache m t)
      in if length c < nc then m\<lparr>tl_cache := (tl_cache m)(t := Some (ptr # c))\<rparr>
         else let m = AllocCache t (m\<lparr>cache_list := c # cache_list m\<rparr>)
              in m\<lparr>tl_cache := (tl_cache m)(t := Some [ptr])\<rparr>)"

text \<open>
  \<open>OnThreadExit\<close>: the second reference is to the cache again, so the buffer is not touched.
\<close>

definition OnThreadExit :: "nat \<Rightarrow> mem_cache \<Rightarrow> mem_cache" where
  "OnThreadExit t m = m\<lparr>tl_cache := (tl_cache m)(t := None)\<rparr>"

text \<open>
  The destructor, run at exit, frees the buffers of the shared list (the result, in order) and
  empties both lists; caches and buffers that threads still hold are not touched.
\<close>

definition MemCache_destroy :: "mem_cache \<Rightarrow> nat list \<times> mem_cache" where
  "MemCache_destroy m = (buffer_list m, m\<lparr>cache_list := [], buffer_list := []\<rparr>)"

subsection \<open>The one instance\<close>

text \<open>
  \<open>singleton\<close>: a first load without the mutex (its answer is the argument \<open>seen\<close>, stale or not),
  then the test and the construction under the mutex.  \<open>instances\<close> counts the objects made, and
  \<open>at_exit\<close> the registrations of \<open>destory\<close>.
\<close>

record singleton_state =
  singleton_ptr :: "nat option"
  instances :: nat
  at_exit :: nat

definition singleton :: "nat option \<Rightarrow> singleton_state \<Rightarrow> nat \<times> singleton_state" where
  "singleton seen st =
     (case seen of
        Some ptr \<Rightarrow> (ptr, st)
      | None \<Rightarrow>
          (case singleton_ptr st of
             Some ptr \<Rightarrow> (ptr, st)
           | None \<Rightarrow>
               let ptr = instances st
               in (ptr, \<lparr>singleton_ptr = Some ptr, instances = Suc ptr, at_exit = Suc (at_exit st)\<rparr>)))"

text \<open>
  Every sequence of calls gives all callers the same instance, made and registered once, as long
  as a first load yields null or the pointer that has been stored.
\<close>

fun singletons :: "bool list \<Rightarrow> singleton_state \<Rightarrow> nat list \<times> singleton_state" where
  "singletons [] st = ([], st)"
| "singletons (stale # calls) st =
     (let (p, st) = singleton (if stale then None else singleton_ptr st) st;
          (ps, st) = singletons calls st
      in (p # ps, st))"

lemma singletons_existing:
  "singleton_ptr st = Some p \<Longrightarrow> singletons calls st = (replicate (length calls) p, st)"
  by (induction calls) (simp_all add: singleton_def)

lemma singleton_once:
  "singletons (c # calls) \<lparr>singleton_ptr = None, instances = 0, at_exit = 0\<rparr> =
     (replicate (Suc (length calls)) 0, \<lparr>singleton_ptr = Some 0, instances = 1, at_exit = 1\<rparr>)"
  by (simp add: singleton_def singletons_existing Let_def)

subsection \<open>Objects in the cache's memory\<close>

text \<open>\<open>ObjectCache::get\<close> constructs an object in the memory, \<open>put\<close> destroys it there.\<close>

definition ObjectCache_get ::
  "nat \<Rightarrow> bool \<Rightarrow> nat \<Rightarrow> 'v \<Rightarrow> mem_cache \<times> (mem \<rightharpoonup> 'v) \<Rightarrow> (mem \<times> mem_cache \<times> (mem \<rightharpoonup> 'v)) option" where
  "ObjectCache_get nb seems_empty t v = (\<lambda>(m, objs). do {
     (ptr, m) \<leftarrow> MemCache_get nb seems_empty t m;
     Some (ptr, m, objs(ptr \<mapsto> v))
   })"

definition ObjectCache_put :: "nat \<Rightarrow> nat \<Rightarrow> mem \<Rightarrow> mem_cache \<times> (mem \<rightharpoonup> 'v) \<Rightarrow> mem_cache \<times> (mem \<rightharpoonup> 'v)" where
  "ObjectCache_put nc t ptr = (\<lambda>(m, objs). (MemCache_put nc t ptr m, objs(ptr := None)))"

text \<open>
  The states threads reach by getting objects, putting back objects that exist, and exiting.
\<close>

inductive cache_reachable :: "nat \<Rightarrow> nat \<Rightarrow> mem_cache \<times> (mem \<rightharpoonup> 'v) \<Rightarrow> bool" for nb nc where
  init: "cache_reachable nb nc (MemCache, Map.empty)"
| get: "cache_reachable nb nc st \<Longrightarrow> ObjectCache_get nb e t v st = Some (ptr, st') \<Longrightarrow> cache_reachable nb nc st'"
| put: "cache_reachable nb nc (m, objs) \<Longrightarrow> ptr \<in> dom objs \<Longrightarrow>
    cache_reachable nb nc (ObjectCache_put nc t ptr (m, objs))"
| exit: "cache_reachable nb nc (m, objs) \<Longrightarrow> cache_reachable nb nc (OnThreadExit t m, objs)"

subsection \<open>The invariant\<close>

definition tlc :: "mem_cache \<Rightarrow> nat \<Rightarrow> mem list" where
  "tlc m t = (case tl_cache m t of None \<Rightarrow> [] | Some c \<Rightarrow> c)"

definition free_mem :: "mem_cache \<Rightarrow> mem set" where
  "free_mem m = (\<Union>t. set (tlc m t)) \<union> set (concat (cache_list m))"

text \<open>Memory that has been carved from a buffer.\<close>

definition carved :: "nat \<Rightarrow> mem_cache \<Rightarrow> mem \<Rightarrow> bool" where
  "carved nb m p \<longleftrightarrow> snd p < nb \<and> fst p < next_buffer m \<and>
     (\<forall>t n. tl_buffer m t = Some (fst p, n) \<longrightarrow> snd p < n)"

definition lists_inv :: "nat \<Rightarrow> mem_cache \<Rightarrow> bool" where
  "lists_inv nc m \<longleftrightarrow>
     (\<forall>t. distinct (tlc m t) \<and> length (tlc m t) \<le> nc \<and> set (tlc m t) \<inter> set (concat (cache_list m)) = {}) \<and>
     (\<forall>t t'. t \<noteq> t' \<longrightarrow> set (tlc m t) \<inter> set (tlc m t') = {}) \<and>
     distinct (concat (cache_list m)) \<and> (\<forall>c \<in> set (cache_list m). length c = nc)"

definition buffers_inv :: "nat \<Rightarrow> mem_cache \<Rightarrow> bool" where
  "buffers_inv nb m \<longleftrightarrow>
     (\<forall>t b n. tl_buffer m t = Some (b, n) \<longrightarrow> b < next_buffer m \<and> n \<le> nb) \<and>
     (\<forall>t t' b n n'. tl_buffer m t = Some (b, n) \<longrightarrow> tl_buffer m t' = Some (b, n') \<longrightarrow> t = t')"

definition cache_inv :: "nat \<Rightarrow> nat \<Rightarrow> mem_cache \<Rightarrow> mem set \<Rightarrow> bool" where
  "cache_inv nb nc m live \<longleftrightarrow> lists_inv nc m \<and> buffers_inv nb m \<and> live \<inter> free_mem m = {} \<and>
     (\<forall>p \<in> live \<union> free_mem m. carved nb m p)"

lemma UN_extend:
  assumes "\<And>x. A x \<subseteq> B x \<union> C" "\<And>x. B x \<subseteq> A x" "C \<subseteq> A t"
  shows "(\<Union>x. A x) = (\<Union>x. B x) \<union> C"
proof
  show "(\<Union>x. A x) \<subseteq> (\<Union>x. B x) \<union> C"
    using assms(1) by fast
  show "(\<Union>x. B x) \<union> C \<subseteq> (\<Union>x. A x)"
  proof (rule Un_least)
    show "(\<Union>x. B x) \<subseteq> (\<Union>x. A x)" by (rule UN_mono) (auto dest: assms(2) [THEN subsetD])
    show "C \<subseteq> (\<Union>x. A x)" using assms(3) by (rule subset_trans) (rule UN_upper, simp)
  qed
qed

lemma tlc_upd: "tlc (m\<lparr>tl_cache := (tl_cache m)(t := Some c)\<rparr>) t' = (if t' = t then c else tlc m t')"
  by (simp add: tlc_def)

lemma tlc_other [simp]:
  "tlc (m\<lparr>cache_list := cs\<rparr>) = tlc m" "tlc (m\<lparr>tl_buffer := f\<rparr>) = tlc m"
  "tlc (m\<lparr>next_buffer := n\<rparr>) = tlc m" "tlc (m\<lparr>buffer_list := bs\<rparr>) = tlc m"
  by (simp_all add: tlc_def fun_eq_iff split: option.split)

text \<open>The invariant looks at a thread's missing cache as at an empty one.\<close>

lemma cache_inv_cong:
  assumes "tlc m' = tlc m" "cache_list m' = cache_list m" "tl_buffer m' = tl_buffer m"
    "next_buffer m' = next_buffer m"
  shows "cache_inv nb nc m' live = cache_inv nb nc m live"
  by (simp add: cache_inv_def lists_inv_def buffers_inv_def free_mem_def carved_def assms)

lemma AllocCache_inv:
  "tl_cache m t = None \<Longrightarrow> cache_inv nb nc (AllocCache t m) live = cache_inv nb nc m live"
  by (rule cache_inv_cong) (auto simp: AllocCache_def tlc_def fun_eq_iff)

text \<open>Moving one free object to the live ones, or back, keeps the invariant.\<close>

lemma take_free_inv:
  assumes inv: "cache_inv nb nc m live" and lists: "lists_inv nc m'"
    and same: "tl_buffer m' = tl_buffer m" "next_buffer m' = next_buffer m"
    and free: "free_mem m = insert p (free_mem m')" "p \<notin> free_mem m'"
  shows "p \<notin> live \<and> cache_inv nb nc m' (insert p live)"
proof -
  have "carved nb m' = carved nb m" "buffers_inv nb m' = buffers_inv nb m"
    by (simp_all add: carved_def buffers_inv_def same fun_eq_iff)
  then show ?thesis using inv lists free unfolding cache_inv_def by auto
qed

lemma give_back_inv:
  assumes inv: "cache_inv nb nc m live" and lists: "lists_inv nc m'" and p: "p \<in> live"
    and same: "tl_buffer m' = tl_buffer m" "next_buffer m' = next_buffer m"
    and free: "free_mem m' = insert p (free_mem m)"
  shows "cache_inv nb nc m' (live - {p})"
proof -
  have "carved nb m' = carved nb m" "buffers_inv nb m' = buffers_inv nb m"
    by (simp_all add: carved_def buffers_inv_def same fun_eq_iff)
  then show ?thesis using inv lists free p unfolding cache_inv_def by auto
qed

lemma lists_inv_local:
  assumes "lists_inv nc m" "tl_cache m t = Some (p # c)"
  shows "lists_inv nc (m\<lparr>tl_cache := (tl_cache m)(t := Some c)\<rparr>)"
    "free_mem m = insert p (free_mem (m\<lparr>tl_cache := (tl_cache m)(t := Some c)\<rparr>))"
    "p \<notin> free_mem (m\<lparr>tl_cache := (tl_cache m)(t := Some c)\<rparr>)"
proof -
  let ?m = "m\<lparr>tl_cache := (tl_cache m)(t := Some c)\<rparr>"
  have t: "tlc m t = p # c" using assms(2) by (simp add: tlc_def)
  have tl: "tlc ?m x = (if x = t then c else tlc m x)" for x by (rule tlc_upd)
  have d: "distinct (tlc m x) \<and> length (tlc m x) \<le> nc \<and> set (tlc m x) \<inter> set (concat (cache_list m)) = {}"
    and disj: "x \<noteq> y \<Longrightarrow> set (tlc m x) \<inter> set (tlc m y) = {}" for x y
    using assms(1) by (simp_all add: lists_inv_def)
  have sub: "set (tlc ?m x) \<subseteq> set (tlc m x)" for x using t by (auto simp: tl)
  have "distinct (tlc ?m x) \<and> length (tlc ?m x) \<le> nc" for x
    using d [of x] t by (auto simp: tl split: if_splits)
  moreover have "set (tlc ?m x) \<inter> set (concat (cache_list ?m)) = {}" for x
    using d [of x] sub [of x] by auto
  moreover have "set (tlc ?m x) \<inter> set (tlc ?m y) = {}" if "x \<noteq> y" for x y
    using disj [OF that] sub [of x] sub [of y] by blast
  ultimately show "lists_inv nc ?m"
    using assms(1) by (simp add: lists_inv_def)
  have "p \<notin> set (tlc ?m x)" for x
    using d [of t] disj [of t x] t by (auto simp: tl)
  then show "p \<notin> free_mem ?m" using d [of t] t by (auto simp: free_mem_def)
  show "free_mem m = insert p (free_mem ?m)"
  proof -
    have "set (tlc m x) \<subseteq> insert p (set (tlc ?m x))" for x using t by (auto simp: tl)
    moreover have "p \<in> set (tlc m t)" using t by simp
    ultimately have "(\<Union>x. set (tlc m x)) = insert p (\<Union>x. set (tlc ?m x))" using sub by blast
    then show ?thesis by (simp add: free_mem_def)
  qed
qed

text \<open>
  Operations on the lists: pushing a fresh object on a thread's cache, making a shared cache a
  thread's own and the other way round, dropping a thread's cache.
\<close>

lemma lists_inv_push:
  assumes inv: "lists_inv nc m" and p: "p \<notin> free_mem m" and len: "length (tlc m t) < nc"
  shows "lists_inv nc (m\<lparr>tl_cache := (tl_cache m)(t := Some (p # tlc m t))\<rparr>)"
    "free_mem (m\<lparr>tl_cache := (tl_cache m)(t := Some (p # tlc m t))\<rparr>) = insert p (free_mem m)"
proof -
  let ?m = "m\<lparr>tl_cache := (tl_cache m)(t := Some (p # tlc m t))\<rparr>"
  have tl: "tlc ?m x = (if x = t then p # tlc m t else tlc m x)" for x by (rule tlc_upd)
  have d: "distinct (tlc m x) \<and> length (tlc m x) \<le> nc \<and> set (tlc m x) \<inter> set (concat (cache_list m)) = {}"
    and disj: "x \<noteq> y \<Longrightarrow> set (tlc m x) \<inter> set (tlc m y) = {}" for x y
    using inv by (simp_all add: lists_inv_def)
  have new: "p \<notin> set (tlc m x)" "p \<notin> set (concat (cache_list m))" for x
    using p by (auto simp: free_mem_def)
  have "distinct (tlc ?m x) \<and> length (tlc ?m x) \<le> nc \<and> set (tlc ?m x) \<inter> set (concat (cache_list ?m)) = {}" for x
    using d [of x] new len by (auto simp: tl)
  moreover have "set (tlc ?m x) \<inter> set (tlc ?m y) = {}" if "x \<noteq> y" for x y
    using disj [OF that] new that by (auto simp: tl)
  ultimately show "lists_inv nc ?m" using inv by (simp add: lists_inv_def)
  have "set (tlc ?m x) \<subseteq> insert p (set (tlc m x))" "set (tlc m x) \<subseteq> set (tlc ?m x)" for x
    by (auto simp: tl)
  moreover have "p \<in> set (tlc ?m t)" by (simp add: tl)
  ultimately have "(\<Union>x. set (tlc ?m x)) = insert p (\<Union>x. set (tlc m x))" by blast
  then show "free_mem ?m = insert p (free_mem m)" by (simp add: free_mem_def)
qed

lemma lists_inv_adopt:
  assumes inv: "lists_inv nc m" and t: "tlc m t = []" and cs: "cache_list m = c # cs"
  shows "lists_inv nc (m\<lparr>cache_list := cs, tl_cache := (tl_cache m)(t := Some c)\<rparr>)"
    "free_mem (m\<lparr>cache_list := cs, tl_cache := (tl_cache m)(t := Some c)\<rparr>) = free_mem m"
proof -
  let ?m = "m\<lparr>cache_list := cs, tl_cache := (tl_cache m)(t := Some c)\<rparr>"
  have tl: "tlc ?m x = (if x = t then c else tlc m x)" for x by (simp add: tlc_def)
  have d: "distinct (tlc m x) \<and> length (tlc m x) \<le> nc \<and> set (tlc m x) \<inter> set (concat (cache_list m)) = {}"
    and disj: "x \<noteq> y \<Longrightarrow> set (tlc m x) \<inter> set (tlc m y) = {}" for x y
    using inv by (simp_all add: lists_inv_def)
  have l: "distinct (c @ concat cs)" "length c = nc" using inv cs by (simp_all add: lists_inv_def)
  have "distinct (tlc ?m x) \<and> length (tlc ?m x) \<le> nc \<and> set (tlc ?m x) \<inter> set (concat (cache_list ?m)) = {}" for x
    using d [of x] l cs by (auto simp: tl)
  moreover have "set (tlc ?m x) \<inter> set (tlc ?m y) = {}" if "x \<noteq> y" for x y
    using disj [OF that] d [of x] d [of y] cs that by (auto simp: tl)
  ultimately show "lists_inv nc ?m" using inv cs by (simp add: lists_inv_def)
  have "(\<Union>x. set (tlc ?m x)) = (\<Union>x. set (tlc m x)) \<union> set c"
    by (rule UN_extend [where t = t]) (auto simp: tl t split: if_splits)
  then show "free_mem ?m = free_mem m" by (auto simp: free_mem_def cs)
qed

lemma lists_inv_share:
  assumes inv: "lists_inv nc m" and len: "length (tlc m t) = nc"
  shows "lists_inv nc (m\<lparr>cache_list := tlc m t # cache_list m, tl_cache := (tl_cache m)(t := Some [])\<rparr>)"
    "free_mem (m\<lparr>cache_list := tlc m t # cache_list m, tl_cache := (tl_cache m)(t := Some [])\<rparr>) = free_mem m"
proof -
  let ?m = "m\<lparr>cache_list := tlc m t # cache_list m, tl_cache := (tl_cache m)(t := Some [])\<rparr>"
  have tl: "tlc ?m x = (if x = t then [] else tlc m x)" for x by (simp add: tlc_def)
  have d: "distinct (tlc m x) \<and> length (tlc m x) \<le> nc \<and> set (tlc m x) \<inter> set (concat (cache_list m)) = {}"
    and disj: "x \<noteq> y \<Longrightarrow> set (tlc m x) \<inter> set (tlc m y) = {}" for x y
    using inv by (simp_all add: lists_inv_def)
  have "distinct (tlc ?m x) \<and> length (tlc ?m x) \<le> nc \<and> set (tlc ?m x) \<inter> set (concat (cache_list ?m)) = {}" for x
    using d [of x] disj [of x t] by (auto simp: tl)
  moreover have "set (tlc ?m x) \<inter> set (tlc ?m y) = {}" if "x \<noteq> y" for x y
    using disj [OF that] by (auto simp: tl)
  moreover have "distinct (concat (cache_list ?m)) \<and> (\<forall>c \<in> set (cache_list ?m). length c = nc)"
    using inv len d [of t] by (auto simp: lists_inv_def)
  ultimately show "lists_inv nc ?m" by (simp add: lists_inv_def)
  have "set (tlc m x) \<subseteq> set (tlc ?m x) \<union> set (tlc m t)" "set (tlc ?m x) \<subseteq> set (tlc m x)" for x
    by (auto simp: tl)
  then have "(\<Union>x. set (tlc ?m x)) \<union> set (tlc m t) = (\<Union>x. set (tlc m x))" by blast
  then show "free_mem ?m = free_mem m" by (auto simp: free_mem_def)
qed

subsection \<open>Getting and putting\<close>

text \<open>Carving the next object out of the thread's buffer.\<close>

lemma Buffer_take_inv:
  assumes inv: "cache_inv nb nc m live" and b: "tl_buffer m t = Some (b, n)" "n < nb"
  shows "\<exists>m'. Buffer_take t m = ((b, n), m') \<and> (b, n) \<notin> live \<and> cache_inv nb nc m' (insert (b, n) live)"
proof -
  let ?m = "m\<lparr>tl_buffer := (tl_buffer m)(t := Some (b, Suc n))\<rparr>"
  have own: "b < next_buffer m" "\<And>t' n'. tl_buffer m t' = Some (b, n') \<Longrightarrow> t' = t"
    using inv b by (fastforce simp: cache_inv_def buffers_inv_def)+
  have "\<not> carved nb m (b, n)" using b by (auto simp: carved_def)
  then have new: "(b, n) \<notin> live \<union> free_mem m" using inv by (auto simp: cache_inv_def)
  have lists: "lists_inv nc ?m" "free_mem ?m = free_mem m"
    using inv by (simp_all add: cache_inv_def lists_inv_def free_mem_def)
  have bufs: "buffers_inv nb ?m"
    using inv b own by (auto simp: cache_inv_def buffers_inv_def split: if_splits)
  have keep: "carved nb ?m p" if "carved nb m p" for p
  proof -
    have "snd p < Suc n" if "fst p = b" using \<open>carved nb m p\<close> b that by (auto simp: carved_def less_Suc_eq)
    then show ?thesis using that by (auto simp: carved_def)
  qed
  have "n < n'" if "tl_buffer ?m t' = Some (b, n')" for t' n'
    using that own(2) [of t' n'] by (cases "t' = t") auto
  then have "carved nb ?m (b, n)" unfolding carved_def using b own(1) by simp
  then have "cache_inv nb nc ?m (insert (b, n) live)"
    using inv lists bufs new keep by (auto simp: cache_inv_def)
  then show ?thesis using b new by (auto simp: Buffer_take_def)
qed

lemma AllocBuffer_inv:
  assumes "cache_inv nb nc m live"
  shows "cache_inv nb nc (AllocBuffer t m) live" "tl_buffer (AllocBuffer t m) t = Some (next_buffer m, 0)"
proof -
  let ?m = "AllocBuffer t m"
  have lists: "lists_inv nc ?m" "free_mem ?m = free_mem m"
    using assms by (simp_all add: cache_inv_def lists_inv_def free_mem_def AllocBuffer_def)
  have "b < next_buffer m" if "tl_buffer m t' = Some (b, n)" for t' b n
    using assms that by (auto simp: cache_inv_def buffers_inv_def)
  then have "buffers_inv nb ?m"
    using assms by (fastforce simp: cache_inv_def buffers_inv_def AllocBuffer_def split: if_splits)
  moreover have "carved nb ?m p" if "carved nb m p" for p
    using that by (auto simp: carved_def AllocBuffer_def)
  ultimately show "cache_inv nb nc ?m live" using assms lists by (auto simp: cache_inv_def)
  show "tl_buffer ?m t = Some (next_buffer m, 0)" by (simp add: AllocBuffer_def)
qed

lemma MemCache_get_carve:
  assumes inv: "cache_inv nb nc m live" and nb: "0 < nb"
  shows "\<exists>ptr m'. (let m = (if tl_buffer m t = None then AllocBuffer t m else m); (b, n) = the (tl_buffer m t)
      in if n < nb then Some (Buffer_take t m)
         else Some (Buffer_take t (AllocBuffer t (m\<lparr>buffer_list := buffer_list m @ [b]\<rparr>)))) = Some (ptr, m') \<and>
    ptr \<notin> live \<and> cache_inv nb nc m' (insert ptr live)"
proof -
  define m1 where "m1 = (if tl_buffer m t = None then AllocBuffer t m else m)"
  have inv1: "cache_inv nb nc m1 live" using inv AllocBuffer_inv(1) by (simp add: m1_def)
  obtain b n where b: "tl_buffer m1 t = Some (b, n)"
    using AllocBuffer_inv(2) [OF inv, of t] by (cases "tl_buffer m t") (auto simp: m1_def)
  show ?thesis
  proof (cases "n < nb")
    case True
    then show ?thesis
      unfolding m1_def [symmetric] Let_def using Buffer_take_inv [OF inv1 b True] b by auto
  next
    case False
    let ?m = "m1\<lparr>buffer_list := buffer_list m1 @ [b]\<rparr>"
    have "cache_inv nb nc ?m live" using inv1 by (subst cache_inv_cong [of _ m1]) simp_all
    note alloc = AllocBuffer_inv [OF this, of t]
    show ?thesis
      unfolding m1_def [symmetric] Let_def using Buffer_take_inv [OF alloc nb] b False by auto
  qed
qed

lemma MemCache_get_inv:
  assumes inv: "cache_inv nb nc m live" and n: "0 < nb" "0 < nc"
  shows "\<exists>ptr m'. MemCache_get nb e t m = Some (ptr, m') \<and> ptr \<notin> live \<and> cache_inv nb nc m' (insert ptr live)"
proof -
  define m1 where "m1 = (if tl_cache m t = None then AllocCache t m else m)"
  have inv1: "cache_inv nb nc m1 live" using inv by (simp add: m1_def AllocCache_inv)
  then have lists: "lists_inv nc m1" by (simp add: cache_inv_def)
  obtain c where c: "tl_cache m1 t = Some c"
    by (cases "tl_cache m t") (auto simp: m1_def AllocCache_def)
  have eq: "MemCache_get nb e t m = (case tl_cache m1 t of
      Some (ptr # c) \<Rightarrow> Some (ptr, m1\<lparr>tl_cache := (tl_cache m1)(t := Some c)\<rparr>)
    | _ \<Rightarrow> (case (if e then [] else cache_list m1) of
         c # cs \<Rightarrow> (case c of
             ptr # c' \<Rightarrow> Some (ptr, m1\<lparr>cache_list := cs, tl_cache := (tl_cache m1)(t := Some c')\<rparr>)
           | [] \<Rightarrow> None)
       | [] \<Rightarrow> let m = (if tl_buffer m1 t = None then AllocBuffer t m1 else m1); (b, n) = the (tl_buffer m t)
           in if n < nb then Some (Buffer_take t m)
              else Some (Buffer_take t (AllocBuffer t (m\<lparr>buffer_list := buffer_list m @ [b]\<rparr>)))))"
    unfolding MemCache_get_def m1_def [symmetric] Let_def ..
  show ?thesis
  proof (cases c)
    case (Cons ptr c')
    then have t: "tl_cache m1 t = Some (ptr # c')" using c by simp
    from take_free_inv [OF inv1 lists_inv_local(1) [OF lists t] _ _ lists_inv_local(2,3) [OF lists t]]
    show ?thesis by (simp add: eq t)
  next
    case Nil
    then have t: "tl_cache m1 t = Some []" "tlc m1 t = []" using c by (simp_all add: tlc_def)
    show ?thesis
    proof (cases "if e then [] else cache_list m1")
      case Nil
      then show ?thesis using MemCache_get_carve [OF inv1 n(1), of t] by (simp only: eq t option.case list.case)
    next
      case (Cons d cs)
      then have cs: "\<not> e" "cache_list m1 = d # cs" by (auto split: if_splits)
      then have "length d = nc" using lists by (simp add: lists_inv_def)
      then obtain ptr d' where d: "d = ptr # d'" using n(2) by (cases d) auto
      let ?m = "m1\<lparr>cache_list := cs, tl_cache := (tl_cache m1)(t := Some d)\<rparr>"
      have "cache_inv nb nc ?m live"
        using inv1 lists_inv_adopt [OF lists t(2) cs(2)]
        by (simp add: cache_inv_def buffers_inv_def carved_def)
      moreover from this have l: "lists_inv nc ?m" by (simp add: cache_inv_def)
      moreover have t': "tl_cache ?m t = Some (ptr # d')" by (simp add: d)
      ultimately have "ptr \<notin> live \<and> cache_inv nb nc (?m\<lparr>tl_cache := (tl_cache ?m)(t := Some d')\<rparr>) (insert ptr live)"
        by (intro take_free_inv [OF _ lists_inv_local(1) [OF l t'] _ _ lists_inv_local(2,3) [OF l t']]) simp_all
      moreover have "MemCache_get nb e t m = Some (ptr, ?m\<lparr>tl_cache := (tl_cache ?m)(t := Some d')\<rparr>)"
        unfolding eq using cs by (simp add: t d)
      ultimately show ?thesis by blast
    qed
  qed
qed

lemma MemCache_put_inv:
  assumes inv: "cache_inv nb nc m live" and p: "p \<in> live" and nc: "0 < nc"
  shows "cache_inv nb nc (MemCache_put nc t p m) (live - {p})"
proof -
  define m1 where "m1 = (if tl_cache m t = None then AllocCache t m else m)"
  have inv1: "cache_inv nb nc m1 live" using inv by (simp add: m1_def AllocCache_inv)
  then have lists: "lists_inv nc m1" and new: "p \<notin> free_mem m1" using p by (auto simp: cache_inv_def)
  obtain c where c: "tl_cache m1 t = Some c"
    by (cases "tl_cache m t") (auto simp: m1_def AllocCache_def)
  then have tc: "tlc m1 t = c" by (simp add: tlc_def)
  show ?thesis
  proof (cases "length c < nc")
    case True
    have "cache_inv nb nc (m1\<lparr>tl_cache := (tl_cache m1)(t := Some (p # c))\<rparr>) (live - {p})"
      using lists_inv_push [OF lists new, of t] True tc
      by (intro give_back_inv [OF inv1 _ p]) simp_all
    then show ?thesis
      unfolding MemCache_put_def m1_def [symmetric] Let_def using c True by simp
  next
    case False
    moreover have "length (tlc m1 t) \<le> nc" using lists by (simp add: lists_inv_def)
    ultimately have len: "length (tlc m1 t) = nc" using tc by simp
    let ?m = "m1\<lparr>cache_list := tlc m1 t # cache_list m1, tl_cache := (tl_cache m1)(t := Some [])\<rparr>"
    have inv2: "cache_inv nb nc ?m live"
      using inv1 lists_inv_share [OF lists len] by (simp add: cache_inv_def buffers_inv_def carved_def)
    then have lists2: "lists_inv nc ?m" and new2: "p \<notin> free_mem ?m" using p by (auto simp: cache_inv_def)
    have empty: "tlc ?m t = []" by (simp add: tlc_def)
    have "cache_inv nb nc (?m\<lparr>tl_cache := (tl_cache ?m)(t := Some [p])\<rparr>) (live - {p})"
      using lists_inv_push [OF lists2 new2, of t] nc
      by (intro give_back_inv [OF inv2 _ p]) (simp_all add: empty)
    then show ?thesis
      unfolding MemCache_put_def m1_def [symmetric] Let_def using c False tc by (simp add: AllocCache_def)
  qed
qed

lemma OnThreadExit_inv:
  assumes "cache_inv nb nc m live"
  shows "cache_inv nb nc (OnThreadExit t m) live"
proof -
  let ?m = "OnThreadExit t m"
  have tl: "tlc ?m x = (if x = t then [] else tlc m x)" for x by (simp add: tlc_def OnThreadExit_def)
  have same: "cache_list ?m = cache_list m" "tl_buffer ?m = tl_buffer m" "next_buffer ?m = next_buffer m"
    by (simp_all add: OnThreadExit_def)
  have "free_mem ?m \<subseteq> free_mem m" by (auto simp: free_mem_def tl same split: if_splits)
  moreover have "lists_inv nc ?m" using assms by (auto simp: cache_inv_def lists_inv_def tl same)
  moreover have "carved nb ?m = carved nb m" "buffers_inv nb ?m = buffers_inv nb m"
    by (simp_all add: carved_def buffers_inv_def same fun_eq_iff)
  ultimately show ?thesis using assms by (auto simp: cache_inv_def)
qed

lemma cache_reachable_inv:
  assumes "0 < nb" "0 < nc"
  shows "cache_reachable nb nc st \<Longrightarrow> cache_inv nb nc (fst st) (dom (snd st))"
proof (induction rule: cache_reachable.induct)
  case init
  then show ?case by (simp add: MemCache_def cache_inv_def lists_inv_def buffers_inv_def free_mem_def tlc_def)
next
  case (get st e t v ptr st')
  obtain m objs where st: "st = (m, objs)" by (rule prod.exhaust)
  then have "cache_inv nb nc m (dom objs)" using get.IH by simp
  from MemCache_get_inv [OF this assms, of e t] obtain p m'
    where p: "MemCache_get nb e t m = Some (p, m')" "cache_inv nb nc m' (insert p (dom objs))" by blast
  then have "st' = (m', objs(p \<mapsto> v))" using get.hyps(2) by (auto simp: st ObjectCache_get_def)
  then show ?case using p(2) by (simp only: fst_conv snd_conv dom_fun_upd option.distinct if_False)
next
  case (put m objs ptr t)
  then have "cache_inv nb nc (MemCache_put nc t ptr m) (dom objs - {ptr})"
    using MemCache_put_inv [of nb nc m "dom objs" ptr t] assms by simp
  then show ?case by (simp only: ObjectCache_put_def case_prod_conv fst_conv snd_conv dom_fun_upd simp_thms if_True)
next
  case (exit m objs t)
  then show ?case using OnThreadExit_inv [of nb nc m "dom objs" t] by simp
qed

subsection \<open>Property\<close>

text \<open>The first byte of an object's memory in its buffer.\<close>

definition Buffer_get :: "nat \<Rightarrow> nat \<Rightarrow> nat" where
  "Buffer_get aligned_size i = i * aligned_size"

text \<open>
  C36 (invariant).  The object cache hands out no memory twice.  In every state that any threads
  reach by getting objects, putting existing ones back and exiting, whatever the stale answers of
  the unsynchronised test, \<open>get\<close> succeeds (it never reads from an empty cache), the memory it
  returns holds no living object, so all living objects keep their values; it lies inside its
  buffer and does not overlap the memory of any other living object.
\<close>

theorem object_cache_hands_out_free_memory:
  assumes "cache_reachable nb nc (m, objs)" "0 < nb" "0 < nc" "nb * sz \<le> bytes"
  shows "\<exists>b i m'. ObjectCache_get nb e t v (m, objs) = Some ((b, i), m', objs((b, i) \<mapsto> v)) \<and>
    objs (b, i) = None \<and> Buffer_get sz i + sz \<le> bytes \<and>
    (\<forall>j. (b, j) \<in> dom objs \<longrightarrow>
       Buffer_get sz i + sz \<le> Buffer_get sz j \<or> Buffer_get sz j + sz \<le> Buffer_get sz i)"
proof -
  have "cache_inv nb nc m (dom objs)" using cache_reachable_inv [OF assms(2,3,1)] by simp
  then obtain ptr m' where get: "MemCache_get nb e t m = Some (ptr, m')" "ptr \<notin> dom objs"
    "cache_inv nb nc m' (insert ptr (dom objs))"
    using MemCache_get_inv [of nb nc m "dom objs" e t] assms(2,3) by blast
  obtain b i where p: "ptr = (b, i)" by (rule prod.exhaust)
  have "i < nb" using get(3) by (auto simp: cache_inv_def carved_def p)
  then have "Suc i * sz \<le> nb * sz" by (intro mult_le_mono1) simp
  then have "Buffer_get sz i + sz \<le> bytes" using assms(4) by (simp add: Buffer_get_def)
  moreover have "Buffer_get sz i + sz \<le> Buffer_get sz j \<or> Buffer_get sz j + sz \<le> Buffer_get sz i"
    if "(b, j) \<in> dom objs" for j
  proof -
    have "Suc i \<le> j \<or> Suc j \<le> i" using that get(2) p by (cases i j rule: linorder_cases) auto
    then have "Suc i * sz \<le> j * sz \<or> Suc j * sz \<le> i * sz" using mult_le_mono1 by blast
    then show ?thesis by (simp add: Buffer_get_def add.commute)
  qed
  ultimately show ?thesis using get by (auto simp: ObjectCache_get_def p domIff)
qed

theorem object_cache_hands_out_free_memory_witness:
  "\<exists>b i m'. ObjectCache_get 16 False 1 ''new'' (MemCache, Map.empty) = Some ((b, i), m', [(b, i) \<mapsto> ''new'']) \<and>
     Buffer_get 8 i + 8 \<le> 4096"
  using object_cache_hands_out_free_memory [OF cache_reachable.init, of 16 512 8 4096 False 1 "''new''"] by auto

end
