(* ===== verification/System_Calls.thy ===== *)
theory System_Calls
  imports Scheduler_Properties Timer_Properties Status
begin

text \<open>
  The calls of \<open>System\<close> that services use, on top of the scheduler: handles
  (\<open>src/src/ServiceHandle.h\<close>), messages (\<open>src/src/Message.h\<close>), the dispatch of method calls
  (\<open>src/src/Service.h\<close>), \<open>CallMethod\<close>, \<open>CallMethodWithClosure\<close>, \<open>AsyncCallMethod\<close>
  (\<open>src/src/System.h\<close>), \<open>SendStringMessage\<close>, \<open>WaitSignal\<close>, \<open>SleepService\<close> and the sleep
  time (\<open>src/src/System.cpp\<close>).

  A call that blocks is two definitions: what it does up to the wait, and what it does with the
  events the wait returned; in between the scheduler runs (\<open>Scheduler\<close>).
\<close>

subsection \<open>Handles\<close>

text \<open>A handle is its index; the index \<open>-1\<close> is the empty handle.  Handles live in variables \<open>hs\<close>.\<close>

type_synonym handle = int

definition Handle_default :: handle where "Handle_default = -1"

definition Handle_bool :: "handle \<Rightarrow> bool" where "Handle_bool h \<longleftrightarrow> h \<noteq> -1"

definition Handle_copy :: "nat \<Rightarrow> nat \<Rightarrow> (nat \<Rightarrow> handle) \<Rightarrow> nat \<Rightarrow> handle" where
  "Handle_copy x y hs = hs(x := hs y)"

text \<open>Moving from a handle of another service type empties the source; assigned in this order.\<close>

definition Handle_move :: "nat \<Rightarrow> nat \<Rightarrow> (nat \<Rightarrow> handle) \<Rightarrow> nat \<Rightarrow> handle" where
  "Handle_move x y hs = (hs(x := hs y))(y := -1)"

definition Handle_eq :: "handle \<Rightarrow> handle \<Rightarrow> bool" where "Handle_eq l r \<longleftrightarrow> l = r"

subsection \<open>Messages\<close>

text \<open>
  A closure wakes the calling service with \<open>kResponse\<close>, sets the flag a calling thread waits
  for, or is code of the user.
\<close>

datatype closure = NoClosure | WakeCaller handle | NotifyThread nat | UserClosure nat

datatype Message_Type = Message_kInvaild | Message_kMessage | Message_KString | Message_kCallMethod

text \<open>
  The message classes: a plain message, a string, and a call of a member function, given by the
  class it belongs to, the function with its arguments, and the closure among the arguments.
\<close>

datatype 'f message_body = PlainBody | StringBody string | MethodBody nat 'f closure

record 'f message =
  msg_source :: handle
  msg_destination :: handle
  msg_closure :: closure
  msg_body :: "'f message_body"

fun Message_type_of :: "'f message_body \<Rightarrow> Message_Type" where
  "Message_type_of PlainBody = Message_kInvaild"
| "Message_type_of (StringBody _) = Message_KString"
| "Message_type_of (MethodBody _ _ _) = Message_kCallMethod"

definition SetClosure :: "closure \<Rightarrow> 'f message \<Rightarrow> 'f message" where
  "SetClosure c m = m\<lparr>msg_closure := c\<rparr>"

definition StringMessage :: "handle \<Rightarrow> handle \<Rightarrow> closure \<Rightarrow> string \<Rightarrow> 'f message" where
  "StringMessage src dest done msg =
     \<lparr>msg_source = src, msg_destination = dest, msg_closure = done, msg_body = StringBody msg\<rparr>"

definition MakeMethodCallMessage ::
  "handle \<Rightarrow> handle \<Rightarrow> nat \<Rightarrow> 'f \<Rightarrow> closure \<Rightarrow> 'f message" where
  "MakeMethodCallMessage src dest cls func arg =
     \<lparr>msg_source = src, msg_destination = dest, msg_closure = NoClosure, msg_body = MethodBody cls func arg\<rparr>"

text \<open>
  The state the calls work on: the scheduler, the timer service, the handle of the built-in wake-up
  service, the flags of calling threads, and a log of the user closures that have run.  The timers
  of the system wake a sleeping service or make the wake-up service update its list: call its
  method, and when the call cannot be sent remove the timer named and stop the service.
\<close>

datatype 'f timer_callback = WakeSleeper handle | UpdateCall handle nat 'f "nat option"

record 'f calls =
  sys_of :: "'f message system"
  timer_srv :: "'f timer_callback timer_service"
  wakeup_srv_handle :: handle
  done_flag :: "nat \<Rightarrow> bool"
  user_log :: "nat list"

definition run_closure :: "nat option \<Rightarrow> closure \<Rightarrow> 'f calls \<Rightarrow> 'f calls option" where
  "run_closure self c st = (case c of
     NoClosure \<Rightarrow> Some st
   | WakeCaller src \<Rightarrow> do { (_, sys) \<leftarrow> WakeUp self src kResponse (sys_of st); Some (st\<lparr>sys_of := sys\<rparr>) }
   | NotifyThread k \<Rightarrow> Some (st\<lparr>done_flag := (done_flag st)(k := True)\<rparr>)
   | UserClosure k \<Rightarrow> Some (st\<lparr>user_log := user_log st @ [k]\<rparr>))"

text \<open>\<open>Done\<close>: a message without closure does nothing; the closures of the system ignore the status.\<close>

definition Message_Done :: "nat option \<Rightarrow> 'f message \<Rightarrow> 'f calls \<Rightarrow> 'f calls option" where
  "Message_Done self m st = run_closure self (msg_closure m) st"

subsection \<open>Dispatching a method call\<close>

text \<open>
  \<open>MethodCallService::HandleMessage\<close> on a service in worker thread \<open>t\<close> whose class and base
  classes are \<open>classes\<close> (what \<open>dynamic_cast\<close> accepts): \<open>invoke\<close> is the effect of the member
  function with the closure it got.  A message of another kind, or for another class, fails a
  \<open>CHECK\<close>.
\<close>

definition CallMethod_on ::
  "nat list \<Rightarrow> nat \<Rightarrow> 'f \<Rightarrow> closure \<Rightarrow> ('f \<Rightarrow> closure \<Rightarrow> 'f calls \<Rightarrow> 'f calls option) \<Rightarrow> 'f calls \<Rightarrow> 'f calls option" where
  "CallMethod_on classes cls func arg invoke st = do { CHECK (cls \<in> set classes); invoke func arg st }"

definition Dispatch ::
  "nat \<Rightarrow> nat list \<Rightarrow> ('f \<Rightarrow> closure \<Rightarrow> 'f calls \<Rightarrow> 'f calls option) \<Rightarrow> 'f message \<Rightarrow> 'f calls \<Rightarrow> 'f calls option" where
  "Dispatch t classes invoke m st =
     (case msg_body m of
        MethodBody cls func arg \<Rightarrow> do {
          st \<leftarrow> CallMethod_on classes cls func arg invoke st;
          Message_Done (Some t) m st
        }
      | _ \<Rightarrow> None)"

definition HandleNotMethodCallMessage :: "'f message \<Rightarrow> 'f calls \<Rightarrow> 'f calls option" where
  "HandleNotMethodCallMessage m st = do { CHECK False; Some st }"

definition HandleMessage ::
  "nat \<Rightarrow> nat list \<Rightarrow> ('f \<Rightarrow> closure \<Rightarrow> 'f calls \<Rightarrow> 'f calls option) \<Rightarrow> 'f message \<Rightarrow> 'f calls \<Rightarrow> 'f calls option" where
  "HandleMessage t classes invoke m st =
     (if Message_type_of (msg_body m) = Message_kCallMethod then Dispatch t classes invoke m st
      else HandleNotMethodCallMessage m st)"

subsection \<open>Calling methods\<close>

text \<open>
  The handle of the service that makes a call: \<open>self\<close> is the worker thread, \<open>None\<close> for a thread
  outside the system.
\<close>

definition caller :: "nat option \<Rightarrow> 'm system \<Rightarrow> handle" where
  "caller self sys = (case self of Some t \<Rightarrow> handle_index (cur sys t) | None \<Rightarrow> Handle_default)"

definition send :: "nat option \<Rightarrow> 'f message \<Rightarrow> 'f calls \<Rightarrow> (status \<times> 'f calls) option" where
  "send self m st = do {
     (ok, sys) \<leftarrow> SendMessage self (msg_destination m) m (sys_of st);
     Some (if ok then Status_OK else Status_of kNotFound [], st\<lparr>sys_of := sys\<rparr>)
   }"

text \<open>
  \<open>CallMethod\<close> up to its wait.  A service waits for \<open>kResponse\<close> in the scheduler; a thread
  outside waits for the flag \<open>k\<close>, its local variable \<open>done\<close>.
\<close>

definition CallMethod ::
  "nat option \<Rightarrow> nat \<Rightarrow> handle \<Rightarrow> nat \<Rightarrow> 'f \<Rightarrow> 'f calls \<Rightarrow> (status \<times> 'f calls) option" where
  "CallMethod self k dest cls func st = do {
     CHECK (Handle_bool dest);
     let src = caller self (sys_of st);
     let msg = MakeMethodCallMessage src dest cls func NoClosure;
     if Handle_bool src then do {
       (s, st) \<leftarrow> send self (SetClosure (WakeCaller src) msg) st;
       if status_IsOK s then do {
         t \<leftarrow> self;
         sys \<leftarrow> Wait t kResponse (sys_of st);
         Some (s, st\<lparr>sys_of := sys\<rparr>)
       } else Some (s, st)
     } else send self (SetClosure (NotifyThread k) msg) (st\<lparr>done_flag := (done_flag st)(k := False)\<rparr>)
   }"

text \<open>When the wait of a service has returned.\<close>

definition CallMethod_return :: "nat \<Rightarrow> 'f calls \<Rightarrow> status option" where
  "CallMethod_return t st = do {
     CHECK (revents (perthread (sys_of st) t) AND kResponse \<noteq> 0);
     Some Status_OK
   }"

text \<open>\<open>CallMethodWithClosure\<close>: the method gets the closure as its last argument instead.\<close>

definition CallMethodWithClosure ::
  "nat option \<Rightarrow> nat \<Rightarrow> handle \<Rightarrow> nat \<Rightarrow> 'f \<Rightarrow> 'f calls \<Rightarrow> (status \<times> 'f calls) option" where
  "CallMethodWithClosure self k dest cls func st = do {
     CHECK (Handle_bool dest);
     let src = caller self (sys_of st);
     if Handle_bool src then do {
       (s, st) \<leftarrow> send self (MakeMethodCallMessage src dest cls func (WakeCaller src)) st;
       if status_IsOK s then do {
         t \<leftarrow> self;
         sys \<leftarrow> Wait t kResponse (sys_of st);
         Some (s, st\<lparr>sys_of := sys\<rparr>)
       } else Some (s, st)
     } else send self (MakeMethodCallMessage src dest cls func (NotifyThread k))
              (st\<lparr>done_flag := (done_flag st)(k := False)\<rparr>)
   }"

text \<open>\<open>AsyncCallMethod\<close> without and with a closure.\<close>

definition AsyncCallMethod ::
  "nat option \<Rightarrow> handle \<Rightarrow> nat \<Rightarrow> 'f \<Rightarrow> 'f calls \<Rightarrow> (status \<times> 'f calls) option" where
  "AsyncCallMethod self dest cls func st = do {
     CHECK (Handle_bool dest);
     send self (MakeMethodCallMessage (caller self (sys_of st)) dest cls func NoClosure) st
   }"

definition AsyncCallMethod_closure ::
  "nat option \<Rightarrow> handle \<Rightarrow> closure \<Rightarrow> nat \<Rightarrow> 'f \<Rightarrow> 'f calls \<Rightarrow> (status \<times> 'f calls) option" where
  "AsyncCallMethod_closure self dest done cls func st = do {
     CHECK (Handle_bool dest);
     let msg = MakeMethodCallMessage (caller self (sys_of st)) dest cls func NoClosure;
     send self (SetClosure done msg) st
   }"

definition SendStringMessage ::
  "nat option \<Rightarrow> handle \<Rightarrow> string \<Rightarrow> closure \<Rightarrow> 'f calls \<Rightarrow> (status \<times> 'f calls) option" where
  "SendStringMessage self dest txt done st = send self (StringMessage (caller self (sys_of st)) dest done txt) st"

subsection \<open>Signals, sleeping and waking sleepers\<close>

text \<open>\<open>WaitSignal\<close> up to its wait, and with the events the wait returned.\<close>

definition WaitSignal :: "nat \<Rightarrow> 'f calls \<Rightarrow> 'f calls option" where
  "WaitSignal t st = do {
     sys \<leftarrow> Wait t (kSignal OR kInterrupt OR kServiceStop) (sys_of st);
     Some (st\<lparr>sys_of := sys\<rparr>)
   }"

definition WaitSignal_return :: "nat \<Rightarrow> 'f calls \<Rightarrow> status" where
  "WaitSignal_return t st =
     (if revents (perthread (sys_of st) t) AND kSignal \<noteq> 0 then Status_OK else Status_of State_kInterrupt [])"

definition RemoveTimer :: "nat option \<Rightarrow> 'f calls \<Rightarrow> 'f calls" where
  "RemoveTimer h st = st\<lparr>timer_srv := snd (DeleteTimer h (timer_srv st))\<rparr>"

text \<open>
  What a thread does that runs the callback of a timer: the timer thread (\<open>self\<close> is \<open>None\<close>) when the
  timer is due.
\<close>

definition run_callback :: "nat option \<Rightarrow> 'f timer_callback \<Rightarrow> 'f calls \<Rightarrow> 'f calls option" where
  "run_callback self cb st = (case cb of
     WakeSleeper h \<Rightarrow> do { (_, sys) \<leftarrow> WakeUp self h kSleep (sys_of st); Some (st\<lparr>sys_of := sys\<rparr>) }
   | UpdateCall selfh cls f tm \<Rightarrow> do {
       (s, st) \<leftarrow> AsyncCallMethod self selfh cls f st;
       if status_IsOK s then Some st
       else do {
         let st = RemoveTimer tm st;
         (_, sys) \<leftarrow> StopService self selfh (sys_of st);
         Some (st\<lparr>sys_of := sys\<rparr>)
       }
     })"

text \<open>
  \<open>AddTimer\<close> of the system, called by worker \<open>self\<close>.  A time that rounds to no period makes the
  timer service call the callback at once, on the calling thread.
\<close>

definition System_AddTimer ::
  "nat option \<Rightarrow> u32 \<Rightarrow> 'f timer_callback \<Rightarrow> 'f calls \<Rightarrow> (nat option \<times> 'f calls) option" where
  "System_AddTimer self ms cb st =
     (let (h, ts) = AddTimer ms cb (timer_srv st);
          st = st\<lparr>timer_srv := ts\<rparr>
      in if h = None then do { st \<leftarrow> run_callback self cb st; Some (None, st) } else Some (h, st))"

text \<open>
  \<open>SleepService\<close> up to its wait.  The mutex of the service's context is held throughout.  A time
  that rounds to no period makes \<open>AddTimer\<close> call the callback at once, on this thread; its
  \<open>WakeUp\<close> locks the mutex of the service it finds, and if that is the sleeping service itself
  the thread locks a mutex it already holds: it never goes on (\<open>None\<close>).
\<close>

definition sleep_mask :: u32 where "sleep_mask = kSleep OR kServiceStop OR kInterrupt"

definition SleepService :: "nat \<Rightarrow> u32 \<Rightarrow> 'f calls \<Rightarrow> (nat option \<times> 'f calls) option" where
  "SleepService t ms st = (
     let srv = cur (sys_of st) t;
         h = handle_index srv;
         (th, ts) = AddTimer ms (WakeSleeper h) (timer_srv st);
         st = st\<lparr>timer_srv := ts\<rparr>
     in do {
       sys \<leftarrow> (if th = None then do {
                 found \<leftarrow> GrabService (Some t) h (sys_of st);
                 (case found of
                    None \<Rightarrow> Some (sys_of st)
                  | Some s \<Rightarrow> if s = srv then None else Some (snd (WakeUp_ptr s kSleep (sys_of st))))
               } else Some (sys_of st));
       (r, sys) \<leftarrow> Wait_Locked t srv sleep_mask (InUserWait sleep_mask) sys;
       Some (th, st\<lparr>sys_of := case r of Some r \<Rightarrow> return_events t r sys | None \<Rightarrow> sys\<rparr>)
     })"

definition SleepService_return :: "nat \<Rightarrow> nat option \<Rightarrow> 'f calls \<Rightarrow> status \<times> 'f calls" where
  "SleepService_return t th st =
     (if revents (perthread (sys_of st) t) AND kSleep \<noteq> 0 then (Status_OK, st)
      else (Status_of State_kInterrupt [], RemoveTimer th st))"

definition ServiceSleepTime :: "service \<Rightarrow> 'f calls \<Rightarrow> u64" where
  "ServiceSleepTime s st =
     (let c = contexts (sys_of st) s
      in if status c = kBlocked then ToMilliseconds (DurationSince (timer_srv st) (blocked_time c)) else 0)"

definition ServiceMessageQueueSize :: "service \<Rightarrow> 'm system \<Rightarrow> nat" where
  "ServiceMessageQueueSize s sys = length (msg_queue (contexts sys s))"

definition ServiceIsStopping :: "service \<Rightarrow> 'm system \<Rightarrow> bool" where
  "ServiceIsStopping s sys = stopping (contexts sys s)"

text \<open>The methods of \<open>Service\<close> forward to the system.\<close>

definition Service_Stop :: "nat option \<Rightarrow> service \<Rightarrow> 'm system \<Rightarrow> 'm system option" where
  "Service_Stop self s sys = map_option snd (StopService self (handle_index s) sys)"

definition Service_IsStopping :: "service \<Rightarrow> 'm system \<Rightarrow> bool" where
  "Service_IsStopping s sys = ServiceIsStopping s sys"

definition Service_Sleep :: "nat \<Rightarrow> u32 \<Rightarrow> 'f calls \<Rightarrow> (nat option \<times> 'f calls) option" where
  "Service_Sleep t ms st = SleepService t ms st"

definition Service_WaitSignal :: "nat \<Rightarrow> 'f calls \<Rightarrow> 'f calls option" where
  "Service_WaitSignal t st = WaitSignal t st"

fun run_callbacks :: "'f timer_callback list \<Rightarrow> 'f calls \<Rightarrow> 'f calls option" where
  "run_callbacks [] st = Some st"
| "run_callbacks (cb # cbs) st = do { st \<leftarrow> run_callback None cb st; run_callbacks cbs st }"

text \<open>One tick of the timer thread together with the callbacks it runs.\<close>

definition timer_tick :: "'f calls \<Rightarrow> 'f calls option" where
  "timer_tick st = do {
     ts \<leftarrow> Tick (timer_srv st);
     run_callbacks (drop (length (called (timer_srv st))) (called ts))
       (st\<lparr>timer_srv := ts, sys_of := (sys_of st)\<lparr>current_time := cur_time ts\<rparr>\<rparr>)
   }"

end
