(* ===== verification/System_Call_Properties.thy ===== *)
theory System_Call_Properties
  imports System_Calls
begin

text \<open>
  What the calls of services promise, on top of the scheduler and the timer service: a sleeping
  service is woken when its time has come, and the caller of a method is woken by the reply.
\<close>

section \<open>Services that have been woken\<close>

text \<open>
  A context is roused with \<open>e\<close> when the event is recorded and the service is no longer left to
  sleep: it is ready or runs, or the thread that is leaving it will queue it again (\<open>OnResume_prev\<close>).
\<close>

definition roused :: "u32 \<Rightarrow> 'm service_context \<Rightarrow> bool" where
  "roused e c \<longleftrightarrow> events c AND e \<noteq> 0 \<and> wakeup_signal c \<and> (is_swaping_out c \<or> status c \<noteq> kBlocked)"

lemma wait_events_woken [simp]: "wait_events (woken e c) = wait_events c"
  by (simp add: woken_def Let_def)

lemma woken_roused: "wait_events c AND e \<noteq> 0 \<Longrightarrow> roused e (woken e c)"
  by (auto simp: roused_def woken_def Let_def bit.conj_disj_distrib2)

lemma roused_woken: "roused e c \<Longrightarrow> roused e (woken e' c)"
  by (auto simp: roused_def woken_def Let_def bit.conj_disj_distrib2 event_simps and.commute)

text \<open>Calls made while a service waits leave it waiting for the same events and do not undo a wake-up.\<close>

definition keeps :: "u32 \<Rightarrow> 'm system \<Rightarrow> 'm system \<Rightarrow> bool" where
  "keeps e sys sys' \<longleftrightarrow> services sys' = services sys \<and>
     (\<forall>s. wait_events (contexts sys' s) = wait_events (contexts sys s) \<and>
          (roused e (contexts sys s) \<longrightarrow> roused e (contexts sys' s)))"

lemma keeps_refl [simp]: "keeps e sys sys"
  by (simp add: keeps_def)

lemma keeps_trans: "keeps e sys sys' \<Longrightarrow> keeps e sys' sys'' \<Longrightarrow> keeps e sys sys''"
  by (simp add: keeps_def)

lemma services_PutReady [simp]: "services (PutReadyService s sys) = services sys"
  by (simp add: PutReadyService_def)

lemma services_Wakeup [simp]: "services (snd (Wakeup_Locked s e sys)) = services sys"
  by (simp add: Wakeup_Locked_def Let_def)

lemma keeps_Wakeup [simp]: "keeps e sys (snd (Wakeup_Locked s e' sys))"
  by (simp add: keeps_def roused_woken)

lemma keeps_set_context:
  assumes "wait_events c = wait_events (contexts sys s)" "events c = events (contexts sys s)"
    "wakeup_signal c = wakeup_signal (contexts sys s)" "status c = status (contexts sys s)"
    "is_swaping_out c = is_swaping_out (contexts sys s)"
  shows "keeps e sys (set_context s c sys)"
  using assms by (simp add: keeps_def roused_def)

lemma keeps_clock [simp]: "keeps e sys (sys\<lparr>current_time := tm\<rparr>)"
  by (simp add: keeps_def)

lemma GrabService_outside: "h \<noteq> idle_service_index \<Longrightarrow> GrabService self h sys = Some (services sys h)"
  by (simp add: GrabService_def FindService_def)

lemma WakeUp_outside:
  assumes "h \<noteq> idle_service_index"
  obtains b sys' where "WakeUp self h e sys = Some (b, sys')" "keeps e' sys sys'"
    "\<And>s. services sys h = Some s \<Longrightarrow> contexts sys' s = woken e (contexts sys s)"
proof (cases "services sys h")
  case None
  then show thesis using that [of False sys] assms by (simp add: WakeUp_def GrabService_outside)
next
  case (Some s)
  then have "WakeUp self h e sys = Some (fst (Wakeup_Locked s e sys), snd (Wakeup_Locked s e sys))"
    using assms by (simp add: WakeUp_def GrabService_outside WakeUp_ptr_def)
  then show thesis using that Some by fastforce
qed

lemma SendMessage_outside:
  assumes "h \<noteq> idle_service_index"
  obtains b sys' where "SendMessage self h msg sys = Some (b, sys')" "keeps e sys sys'"
proof (cases "\<exists>s. services sys h = Some s \<and> \<not> stopping (contexts sys s) \<and> status (contexts sys s) \<noteq> kCreated")
  case False
  then have "SendMessage self h msg sys = Some (False, sys)"
    using assms by (auto simp: SendMessage_def GrabService_outside Let_def split: option.splits)
  then show thesis using that [of False sys] by simp
next
  case True
  then obtain s where s: "services sys h = Some s" "\<not> stopping (contexts sys s)"
    "status (contexts sys s) \<noteq> kCreated" by blast
  let ?sys = "set_context s (enqueued msg (contexts sys s)) sys"
  have k: "keeps e sys ?sys" by (rule keeps_set_context) (simp_all add: enqueued_def)
  have "SendMessage self h msg sys =
      Some (True, if wait_events (contexts sys s) AND kMessage = 0 then ?sys
                  else snd (Wakeup_Locked s kMessage ?sys))"
    using assms s by (simp add: SendMessage_def GrabService_outside Let_def enqueued_def)
  then show thesis using that keeps_trans [OF k keeps_Wakeup] k by presburger
qed

lemma StopService_outside:
  assumes "h \<noteq> idle_service_index"
  obtains b sys' where "StopService self h sys = Some (b, sys')" "keeps e sys sys'"
proof (cases "services sys h")
  case None
  then show thesis using that [of False sys] assms by (simp add: StopService_def GrabService_outside)
next
  case (Some s)
  let ?sys = "set_context s ((contexts sys s)\<lparr>stopping := True\<rparr>) sys"
  have k: "keeps e sys ?sys" by (rule keeps_set_context) simp_all
  have "StopService self h sys = Some (True, StopService_ptr s sys)"
    using assms Some by (simp add: StopService_def GrabService_outside)
  moreover have "keeps e sys (StopService_ptr s sys)"
    using keeps_trans [OF k keeps_Wakeup] by (simp add: StopService_ptr_def Let_def)
  ultimately show thesis using that by blast
qed

section \<open>Timers\<close>

text \<open>A callback the timer thread can run: it names no idle service and no empty handle.\<close>

fun callback_ok :: "'f timer_callback \<Rightarrow> bool" where
  "callback_ok (WakeSleeper h) \<longleftrightarrow> h \<noteq> idle_service_index"
| "callback_ok (UpdateCall h _ _ _) \<longleftrightarrow> h \<noteq> idle_service_index \<and> Handle_bool h"

text \<open>The timer a callback removes, if it removes one.\<close>

fun removes :: "'f timer_callback \<Rightarrow> nat option" where
  "removes (WakeSleeper h) = None"
| "removes (UpdateCall _ _ _ tm) = tm"

lemma send_outside:
  assumes "msg_destination m \<noteq> idle_service_index"
  obtains s sys' where "send self m st = Some (s, st\<lparr>sys_of := sys'\<rparr>)" "keeps e (sys_of st) sys'"
proof -
  from SendMessage_outside [OF assms, where self = self and msg = m and sys = "sys_of st" and e = e]
  obtain b sys' where *: "SendMessage self (msg_destination m) m (sys_of st) = Some (b, sys')"
    "keeps e (sys_of st) sys'" by blast
  then show thesis using that by (simp add: send_def)
qed

lemma run_callback_ok:
  assumes "callback_ok cb"
  obtains sys' ts' where "run_callback self cb st = Some (st\<lparr>sys_of := sys', timer_srv := ts'\<rparr>)"
    "keeps e (sys_of st) sys'" "ts' = timer_srv st \<or> ts' = snd (DeleteTimer (removes cb) (timer_srv st))"
    "\<And>h s. cb = WakeSleeper h \<Longrightarrow> services (sys_of st) h = Some s \<Longrightarrow>
       contexts sys' s = woken kSleep (contexts (sys_of st) s)"
proof (cases cb)
  case (WakeSleeper h)
  then have "h \<noteq> idle_service_index" using assms by simp
  from WakeUp_outside [OF this, where self = self and e = kSleep and sys = "sys_of st" and e' = e]
  obtain b sys' where "WakeUp self h kSleep (sys_of st) = Some (b, sys')" "keeps e (sys_of st) sys'"
    "\<And>s. services (sys_of st) h = Some s \<Longrightarrow> contexts sys' s = woken kSleep (contexts (sys_of st) s)"
    by blast
  then show thesis using that [where sys' = sys' and ts' = "timer_srv st"] WakeSleeper by (simp add: run_callback_def)
next
  case (UpdateCall h cls f tm)
  then have h: "h \<noteq> idle_service_index" "Handle_bool h" using assms by simp_all
  let ?m = "MakeMethodCallMessage (caller self (sys_of st)) h cls f NoClosure"
  have "msg_destination ?m \<noteq> idle_service_index" using h by (simp add: MakeMethodCallMessage_def)
  from send_outside [OF this, where self = self and st = st and e = e]
  obtain s sys1 where s: "send self ?m st = Some (s, st\<lparr>sys_of := sys1\<rparr>)" "keeps e (sys_of st) sys1" by blast
  have call: "AsyncCallMethod self h cls f st = Some (s, st\<lparr>sys_of := sys1\<rparr>)"
    using h s by (simp add: AsyncCallMethod_def)
  show thesis
  proof (cases "status_IsOK s")
    case True
    then show thesis using that [where sys' = sys1 and ts' = "timer_srv st"] s call UpdateCall by (simp add: run_callback_def)
  next
    case False
    from StopService_outside [OF h(1), where self = self and sys = sys1 and e = e]
    obtain b sys2 where "StopService self h sys1 = Some (b, sys2)" "keeps e sys1 sys2" by blast
    then show thesis
      using that [where sys' = sys2 and ts' = "snd (DeleteTimer tm (timer_srv st))"] s call UpdateCall False
        keeps_trans [OF s(2)] by (simp add: run_callback_def RemoveTimer_def)
  qed
qed

text \<open>\<open>AddTimer\<close> of the system always returns, whether it runs the callback itself or not.\<close>

lemma System_AddTimer_total:
  assumes "callback_ok cb"
  shows "\<exists>h st'. System_AddTimer self ms cb st = Some (h, st') \<and> keeps e (sys_of st) (sys_of st')"
proof (cases "(ms + 5) div 10 = 0")
  case True
  obtain sys' ts' where
    "run_callback self cb (st\<lparr>timer_srv := snd (AddTimer ms cb (timer_srv st))\<rparr>) =
       Some (st\<lparr>sys_of := sys', timer_srv := ts'\<rparr>)" "keeps e (sys_of st) sys'"
    using run_callback_ok [OF assms, of self "st\<lparr>timer_srv := snd (AddTimer ms cb (timer_srv st))\<rparr>" e thesis]
    by auto
  then show ?thesis using True by (simp add: System_AddTimer_def AddTimer_cases(1))
next
  case False
  then show ?thesis by (simp add: System_AddTimer_def AddTimer_cases(2))
qed

lemma DeleteTimer_cur_time [simp]: "cur_time (snd (DeleteTimer h st)) = cur_time st"
  by (simp add: DeleteTimer_def split: option.split)

lemma run_callbacks_ok:
  assumes "\<forall>cb\<in>set cbs. callback_ok cb \<and> removes cb \<noteq> Some th" "wheel_inv c (timer_srv st)"
  obtains sys' ts' where "run_callbacks cbs st = Some (st\<lparr>sys_of := sys', timer_srv := ts'\<rparr>)"
    "keeps kSleep (sys_of st) sys'" "wheel_inv c ts'" "cur_time ts' = cur_time (timer_srv st)"
    "pending ts' \<subseteq>\<^sub>m pending (timer_srv st)" "pending ts' th = pending (timer_srv st) th"
    "\<And>h s. WakeSleeper h \<in> set cbs \<Longrightarrow> services (sys_of st) h = Some s \<Longrightarrow>
       wait_events (contexts (sys_of st) s) AND kSleep \<noteq> 0 \<Longrightarrow> roused kSleep (contexts sys' s)"
  using assms
proof (induction cbs arbitrary: st thesis)
  case Nil
  show ?case by (rule Nil.prems(1) [of "timer_srv st" "sys_of st"]) (use Nil.prems(3) in simp_all)
next
  case (Cons cb cbs)
  from Cons.prems(2) have cb: "callback_ok cb" "removes cb \<noteq> Some th" by simp_all
  obtain sys1 ts1 where 1: "run_callback None cb st = Some (st\<lparr>sys_of := sys1, timer_srv := ts1\<rparr>)"
    "keeps kSleep (sys_of st) sys1" "ts1 = timer_srv st \<or> ts1 = snd (DeleteTimer (removes cb) (timer_srv st))"
    "\<And>h s. cb = WakeSleeper h \<Longrightarrow> services (sys_of st) h = Some s \<Longrightarrow>
       contexts sys1 s = woken kSleep (contexts (sys_of st) s)"
    by (rule run_callback_ok [OF cb(1), where st = st and e = kSleep]) (rule that)
  have ts1: "wheel_inv c ts1" "cur_time ts1 = cur_time (timer_srv st)"
    "pending ts1 \<subseteq>\<^sub>m pending (timer_srv st)" "pending ts1 th = pending (timer_srv st) th"
    using 1(3) Cons.prems(3) cb(2) DeleteTimer_pending(1) [OF Cons.prems(3), of "removes cb"]
    by (auto simp: DeleteTimer_inv map_le_def split: option.splits if_splits)
  let ?st1 = "st\<lparr>sys_of := sys1, timer_srv := ts1\<rparr>"
  obtain sys' ts' where 2: "run_callbacks cbs ?st1 = Some (?st1\<lparr>sys_of := sys', timer_srv := ts'\<rparr>)"
    "keeps kSleep sys1 sys'" "wheel_inv c ts'" "cur_time ts' = cur_time ts1" "pending ts' \<subseteq>\<^sub>m pending ts1"
    "pending ts' th = pending ts1 th"
    "\<And>h s. WakeSleeper h \<in> set cbs \<Longrightarrow> services sys1 h = Some s \<Longrightarrow>
       wait_events (contexts sys1 s) AND kSleep \<noteq> 0 \<Longrightarrow> roused kSleep (contexts sys' s)"
    using Cons.IH [of ?st1] Cons.prems(2) ts1(1) by auto
  have woke: "roused kSleep (contexts sys' s)"
    if "WakeSleeper h \<in> set (cb # cbs)" "services (sys_of st) h = Some s"
      "wait_events (contexts (sys_of st) s) AND kSleep \<noteq> 0" for h s
  proof (cases "WakeSleeper h \<in> set cbs")
    case True
    then show ?thesis using 2(7) 1(2) that by (simp add: keeps_def)
  next
    case False
    then have "contexts sys1 s = woken kSleep (contexts (sys_of st) s)" using 1(4) that by auto
    then show ?thesis using woken_roused [OF that(3)] 2(2) by (simp add: keeps_def)
  qed
  show ?case
    by (rule Cons.prems(1) [of ts' sys'])
      (use 1(1) 2 ts1 keeps_trans [OF 1(2) 2(2)] woke in \<open>auto intro: map_le_trans\<close>)
qed

fun timer_ticks :: "nat \<Rightarrow> 'f calls \<Rightarrow> 'f calls option" where
  "timer_ticks 0 st = Some st"
| "timer_ticks (Suc n) st = do { st \<leftarrow> timer_tick st; timer_ticks n st }"

text \<open>The timers other than \<open>th\<close> do not interfere with it, and the timer thread can run them all.\<close>

definition timers_ok :: "nat \<Rightarrow> 'f calls \<Rightarrow> bool" where
  "timers_ok th st \<longleftrightarrow> wheel_inv (cur_time (timer_srv st)) (timer_srv st) \<and>
     (\<forall>timer tm cb. pending (timer_srv st) timer = Some (tm, cb) \<longrightarrow> callback_ok cb \<and> removes cb \<noteq> Some th)"

lemma still_pending_le: "still_pending c p \<subseteq>\<^sub>m p"
  by (auto simp: map_le_def still_pending_def dom_def split: option.splits if_splits)

lemma timers_ok_le:
  assumes "timers_ok th st" "wheel_inv (cur_time (timer_srv st')) (timer_srv st')"
    "pending (timer_srv st') \<subseteq>\<^sub>m pending (timer_srv st)"
  shows "timers_ok th st'"
proof -
  have "pending (timer_srv st) timer = Some x" if "pending (timer_srv st') timer = Some x" for timer x
    using assms(3) that unfolding map_le_def by (metis domI)
  then show ?thesis using assms(1,2) unfolding timers_ok_def by blast
qed

lemma timer_tick_ok:
  assumes "timers_ok th st"
  shows "\<exists>st'. timer_tick st = Some st' \<and> timers_ok th st' \<and> keeps kSleep (sys_of st) (sys_of st') \<and>
    cur_time (timer_srv st') = cur_time (timer_srv st) + 1 \<and>
    pending (timer_srv st') th = still_pending (cur_time (timer_srv st)) (pending (timer_srv st)) th \<and>
    (\<forall>h s. pending (timer_srv st) th = Some (cur_time (timer_srv st), WakeSleeper h) \<longrightarrow>
       services (sys_of st) h = Some s \<longrightarrow> wait_events (contexts (sys_of st) s) AND kSleep \<noteq> 0 \<longrightarrow>
       roused kSleep (contexts (sys_of st') s))"
proof -
  let ?ts = "timer_srv st" let ?c = "cur_time ?ts"
  have inv: "wheel_inv ?c ?ts" using assms by (simp add: timers_ok_def)
  from Tick_correct [OF inv] obtain ts1 L where 1: "Tick ?ts = Some ts1" "wheel_inv (cur_time ts1) ts1"
    "cur_time ts1 = ?c + 1" "pending ts1 = still_pending ?c (pending ?ts)"
    "set L = due_now ?c (pending ?ts)"
    "called ts1 = called ?ts @ map (\<lambda>timer. snd (the (pending ?ts timer))) L" by metis
  let ?cbs = "map (\<lambda>timer. snd (the (pending ?ts timer))) L"
  let ?st1 = "st\<lparr>timer_srv := ts1, sys_of := (sys_of st)\<lparr>current_time := cur_time ts1\<rparr>\<rparr>"
  have due: "\<forall>cb\<in>set ?cbs. callback_ok cb \<and> removes cb \<noteq> Some th"
    using assms 1(5) by (auto simp: timers_ok_def due_now_def)
  have inv1: "wheel_inv (cur_time ts1) (timer_srv ?st1)" using 1(2) by simp
  obtain sys' ts' where 2: "run_callbacks ?cbs ?st1 = Some (?st1\<lparr>sys_of := sys', timer_srv := ts'\<rparr>)"
    "keeps kSleep (sys_of ?st1) sys'" "wheel_inv (cur_time ts1) ts'" "cur_time ts' = cur_time (timer_srv ?st1)"
    "pending ts' \<subseteq>\<^sub>m pending (timer_srv ?st1)" "pending ts' th = pending (timer_srv ?st1) th"
    "\<And>h s. WakeSleeper h \<in> set ?cbs \<Longrightarrow> services (sys_of ?st1) h = Some s \<Longrightarrow>
       wait_events (contexts (sys_of ?st1) s) AND kSleep \<noteq> 0 \<Longrightarrow> roused kSleep (contexts sys' s)"
    by (rule run_callbacks_ok [OF due inv1]) (rule that)
  let ?st' = "?st1\<lparr>sys_of := sys', timer_srv := ts'\<rparr>"
  have run: "timer_tick st = Some ?st'" using 1(1) 2(1) 1(6) by (simp add: timer_tick_def)
  have sub: "pending ts' \<subseteq>\<^sub>m pending ?ts"
    by (rule map_le_trans [OF _ still_pending_le [of ?c]]) (use 2(5) 1(4) in simp)
  have ok: "timers_ok th ?st'"
    using timers_ok_le [OF assms, of ?st'] 2(3,4) sub by simp
  have woke: "roused kSleep (contexts sys' s)"
    if "pending ?ts th = Some (?c, WakeSleeper h)" "services (sys_of st) h = Some s"
      "wait_events (contexts (sys_of st) s) AND kSleep \<noteq> 0" for h s
  proof -
    have "th \<in> set L" using that(1) 1(5) by (simp add: due_now_def)
    then have "WakeSleeper h \<in> set ?cbs" using that(1) by force
    then show ?thesis using 2(7) that by simp
  qed
  show ?thesis
    by (rule exI [of _ ?st'])
      (use run ok 1 2 woke keeps_trans [OF keeps_clock 2(2) [simplified]] in auto)
qed

text \<open>Ticks keep a timer pending until its time has come, and then wake the sleeper.\<close>

lemma timer_ticks_keep:
  "timers_ok th st \<Longrightarrow>
   \<exists>st'. timer_ticks n st = Some st' \<and> timers_ok th st' \<and> keeps kSleep (sys_of st) (sys_of st')"
proof (induction n arbitrary: st)
  case (Suc n)
  from timer_tick_ok [OF Suc.prems] obtain st1 where 1: "timer_tick st = Some st1" "timers_ok th st1"
    "keeps kSleep (sys_of st) (sys_of st1)" by blast
  from Suc.IH [OF 1(2)] show ?case using 1(1) keeps_trans [OF 1(3)] by auto
qed simp

lemma timer_ticks_pending:
  assumes "timers_ok th st" "pending (timer_srv st) th = Some (tm, cb)"
    "n \<le> dist (cur_time (timer_srv st)) tm"
  shows "\<exists>st'. timer_ticks n st = Some st' \<and> timers_ok th st' \<and> keeps kSleep (sys_of st) (sys_of st') \<and>
    pending (timer_srv st') th = Some (tm, cb) \<and>
    dist (cur_time (timer_srv st')) tm = dist (cur_time (timer_srv st)) tm - n"
  using assms
proof (induction n arbitrary: st)
  case (Suc n)
  let ?c = "cur_time (timer_srv st)"
  have d: "dist ?c tm \<noteq> 0" "tm \<noteq> ?c" using Suc.prems(3) dist_zero_iff [of ?c tm] by auto
  from timer_tick_ok [OF Suc.prems(1)] obtain st1 where 1: "timer_tick st = Some st1" "timers_ok th st1"
    "keeps kSleep (sys_of st) (sys_of st1)" "cur_time (timer_srv st1) = ?c + 1"
    "pending (timer_srv st1) th = still_pending ?c (pending (timer_srv st)) th" by blast
  have p: "pending (timer_srv st1) th = Some (tm, cb)"
    unfolding 1(5) using Suc.prems(2) d(2) by (simp add: still_pending_def)
  have d1: "dist (cur_time (timer_srv st1)) tm = dist ?c tm - 1" using dist_Suc [OF d(1)] 1(4) by simp
  then have "n \<le> dist (cur_time (timer_srv st1)) tm" using Suc.prems(3) by simp
  from Suc.IH [OF 1(2) p this] show ?case using 1(1) d1 keeps_trans [OF 1(3)] by auto
qed simp

lemma timer_ticks_add: "timer_ticks (m + n) st = Option.bind (timer_ticks m st) (timer_ticks n)"
  by (induction m arbitrary: st) (auto split: Option.bind_splits)

lemma timer_ticks_wake:
  assumes ok: "timers_ok th st" and p: "pending (timer_srv st) th = Some (tm, WakeSleeper h)"
    and n: "dist (cur_time (timer_srv st)) tm < n"
    and s: "services (sys_of st) h = Some s" "wait_events (contexts (sys_of st) s) AND kSleep \<noteq> 0"
  obtains st' where "timer_ticks n st = Some st'" "roused kSleep (contexts (sys_of st') s)"
proof -
  let ?d = "dist (cur_time (timer_srv st)) tm"
  obtain st1 where 1: "timer_ticks ?d st = Some st1" "timers_ok th st1" "keeps kSleep (sys_of st) (sys_of st1)"
    "pending (timer_srv st1) th = Some (tm, WakeSleeper h)" "dist (cur_time (timer_srv st1)) tm = 0"
    using timer_ticks_pending [OF ok p order_refl] by auto
  have "tm = cur_time (timer_srv st1)" using 1(5) by (simp add: dist_zero_iff)
  then obtain st2 where 2: "timer_tick st1 = Some st2" "timers_ok th st2" "roused kSleep (contexts (sys_of st2) s)"
    using timer_tick_ok [OF 1(2)] 1(3,4) s unfolding keeps_def by metis
  obtain st3 where 3: "timer_ticks (n - Suc ?d) st2 = Some st3" "keeps kSleep (sys_of st2) (sys_of st3)"
    using timer_ticks_keep [OF 2(2)] by blast
  have "timer_ticks (?d + Suc (n - Suc ?d)) st = Some st3" unfolding timer_ticks_add using 1 2 3 by simp
  then have "timer_ticks n st = Some st3" using n by simp
  then show thesis using that 2(3) 3(2) by (simp add: keeps_def)
qed

section \<open>Sleeping\<close>

text \<open>A time that rounds to no period deadlocks the thread: it locks the service's mutex twice.\<close>

lemma short_sleep_deadlocks:
  assumes "services (sys_of st) (handle_index (cur (sys_of st) t)) = Some (cur (sys_of st) t)"
    "(ms + 5) div 10 = 0" "handle_index (cur (sys_of st) t) \<noteq> idle_service_index"
  shows "SleepService t ms st = None"
  using assms by (simp add: SleepService_def AddTimer_cases(1) GrabService_outside)

lemma SleepService_blocks:
  assumes "sys_inv (sys_of st)" "in_user (sys_of st) t" "\<not> is_idle (cur (sys_of st) t)"
    and "wheel_inv (cur_time (timer_srv st)) (timer_srv st)" "(ms + 5) div 10 \<noteq> 0"
    and "\<not> stopping (contexts (sys_of st) (cur (sys_of st) t))"
      "events (contexts (sys_of st) (cur (sys_of st) t)) AND sleep_mask = 0"
  obtains st1 where "SleepService t ms st = Some (Some (next_timer (timer_srv st)), st1)"
    "timer_srv st1 = snd (AddTimer ms (WakeSleeper (handle_index (cur (sys_of st) t))) (timer_srv st))"
    "services (sys_of st1) = services (sys_of st)"
    "status (contexts (sys_of st1) (cur (sys_of st) t)) = kBlocked"
    "wait_events (contexts (sys_of st1) (cur (sys_of st) t)) = sleep_mask"
proof -
  let ?sys = "sys_of st" let ?s = "cur ?sys t" let ?c = "contexts ?sys ?s"
  have "tpc ?sys t = Running" "t < worker_num ?sys" using assms(2) by (simp_all add: in_user_def)
  then have run: "status ?c = kRunning"
    using at_cur [OF assms(1), of t] assms(3) by (auto simp: cur_ctx_def running_ctx_def on_cpu_def)
  let ?c' = "?c\<lparr>status := kBlocked, is_swaping_out := True, wait_events := sleep_mask, ucontext := InUserWait sleep_mask\<rparr>"
  have w: "Wait_Locked t ?s sleep_mask (InUserWait sleep_mask) ?sys =
      Some (None, set_context ?s ?c' (goto t Scheduling ?sys))"
    using run assms(6,7) by (simp add: Wait_Locked_def Let_def and.commute)
  obtain ts where a: "AddTimer ms (WakeSleeper (handle_index ?s)) (timer_srv st) = (Some (next_timer (timer_srv st)), ts)"
    using assms(5) by (simp add: AddTimer_cases(2))
  show thesis
    by (rule that [of "st\<lparr>timer_srv := ts, sys_of := set_context ?s ?c' (goto t Scheduling ?sys)\<rparr>"])
      (use w a in \<open>simp_all add: SleepService_def goto_def Let_def\<close>)
qed

text \<open>For the witness: one worker thread runs the user thread service 17, no timer is set.\<close>

definition calls17 :: "nat calls" where
  "calls17 =
     \<lparr>sys_of = the (run_actions [ResumePrevious 0, ResumeCurrent 0, CallLaunch kMessageDrivenService,
         CallLaunch kUserThreadService, IdleLoop False 0, GetReady 0, Switch 0, ResumePrevious 0,
         ResumeCurrent 0] (System_Start 1)),
      timer_srv = TimerService, wakeup_srv_handle = -1, done_flag = (\<lambda>_. False), user_log = []\<rparr>"

lemma calls17_reachable: "sys_reachable (sys_of calls17)"
  unfolding calls17_def calls.simps by (rule reachable_the_run [OF start]) code_simp

lemma launched_handle:
  assumes "sys_inv sys" "in_user sys t" "cur sys t = LaunchedService h"
  shows "h \<noteq> idle_service_index" "Handle_bool h" "\<not> is_idle (cur sys t)"
proof -
  have "tpc sys t \<noteq> Stopped" "t < worker_num sys" using assms(2) by (simp_all add: in_user_def)
  then have "16 < h" using at_cur [OF assms(1), of t] assms(3) by (simp add: exists_service_def)
  then show "h \<noteq> idle_service_index" "Handle_bool h"
    by (simp_all add: idle_service_index_def Handle_bool_def)
  show "\<not> is_idle (cur sys t)" using assms(3) by simp
qed



section \<open>Calling methods\<close>

lemma SendMessage_cases:
  assumes "h \<noteq> idle_service_index"
  obtains (refused) "SendMessage self h msg sys = Some (False, sys)"
    | (sent) d sys' where "SendMessage self h msg sys = Some (True, sys')" "services sys h = Some d"
      "accepted (contexts sys' d) = accepted (contexts sys d) @ [msg]"
      "perthread sys' = perthread sys" "worker_num sys' = worker_num sys"
proof (cases "\<exists>s. services sys h = Some s \<and> \<not> stopping (contexts sys s) \<and> status (contexts sys s) \<noteq> kCreated")
  case False
  then have "SendMessage self h msg sys = Some (False, sys)"
    using assms by (auto simp: SendMessage_def GrabService_outside Let_def split: option.splits)
  then show thesis by (rule refused)
next
  case True
  then obtain d where d: "services sys h = Some d" "\<not> stopping (contexts sys d)"
    "status (contexts sys d) \<noteq> kCreated" by blast
  let ?sys = "set_context d (enqueued msg (contexts sys d)) sys"
  let ?sys' = "if wait_events (contexts sys d) AND kMessage = 0 then ?sys else snd (Wakeup_Locked d kMessage ?sys)"
  have "SendMessage self h msg sys = Some (True, ?sys')"
    using assms d by (simp add: SendMessage_def GrabService_outside Let_def enqueued_def)
  moreover have "accepted (woken e c) = accepted c" for e and c :: "'a service_context"
    by (simp add: woken_def Let_def)
  then have "accepted (contexts ?sys' d) = accepted (contexts sys d) @ [msg]" by (simp add: enqueued_def)
  moreover have "perthread ?sys' = perthread sys" "worker_num ?sys' = worker_num sys"
    by (simp_all add: Wakeup_Locked_def Let_def PutReadyService_def)
  ultimately show thesis using d(1) sent by blast
qed

text \<open>A running service that waits for \<open>kResponse\<close> only: a stop request does not end the wait.\<close>

lemma Wait_response:
  assumes inv: "sys_inv sys" and t: "t < worker_num sys" "tpc sys t = Running" and idle: "\<not> is_idle (cur sys t)"
  obtains sys' where "Wait t kResponse sys = Some sys'"
    "accepted (contexts sys' d) = accepted (contexts sys d)"
    "tpc sys' t = Scheduling \<and> status (contexts sys' (cur sys t)) = kBlocked \<and>
       wait_events (contexts sys' (cur sys t)) = kResponse \<or>
     tpc sys' t = Running \<and> revents (perthread sys' t) AND kResponse \<noteq> 0"
proof -
  let ?s = "cur sys t" let ?c = "contexts sys ?s"
  have run: "status ?c = kRunning"
    using at_cur [OF inv, of t] t idle by (auto simp: cur_ctx_def running_ctx_def on_cpu_def)
  have stop: "kResponse AND kServiceStop = 0" by (simp add: event_defs)
  show thesis
  proof (cases "events ?c AND kResponse = 0")
    case True
    let ?c' = "?c\<lparr>status := kBlocked, is_swaping_out := True, wait_events := kResponse, ucontext := InUserWait kResponse\<rparr>"
    have "Wait t kResponse sys = Some (set_context ?s ?c' (goto t Scheduling sys))"
      using run stop True by (simp add: Wait_def Wait_Locked_def Let_def and.commute)
    then show thesis using that by (simp add: goto_def)
  next
    case False
    let ?c' = "?c\<lparr>wait_events := 0, events := events ?c AND NOT kResponse\<rparr>"
    have "Wait t kResponse sys = Some (return_events t (events ?c AND kResponse) (set_context ?s ?c' sys))"
      using run stop False by (simp add: Wait_def Wait_Locked_def Let_def and.commute)
    then show thesis using that False by (simp add: return_events_def and.assoc)
  qed
qed

lemma reply_rouses:
  assumes "h \<noteq> idle_service_index" "services (sys_of st) h = Some s"
    "wait_events (contexts (sys_of st) s) AND kResponse \<noteq> 0"
  shows "\<exists>st'. run_closure self (WakeCaller h) st = Some st' \<and> roused kResponse (contexts (sys_of st') s)"
proof -
  from WakeUp_outside [OF assms(1), where self = self and e = kResponse and sys = "sys_of st" and e' = 0]
  obtain b sys' where w: "WakeUp self h kResponse (sys_of st) = Some (b, sys')"
    "\<And>s. services (sys_of st) h = Some s \<Longrightarrow> contexts sys' s = woken kResponse (contexts (sys_of st) s)" by blast
  then show ?thesis using assms(2) woken_roused [OF assms(3)] by (simp add: run_closure_def)
qed

text \<open>The message of a call whose caller has the handle \<open>h\<close>.\<close>

definition call_message :: "handle \<Rightarrow> handle \<Rightarrow> nat \<Rightarrow> 'f \<Rightarrow> 'f message" where
  "call_message h dest cls func = SetClosure (WakeCaller h) (MakeMethodCallMessage h dest cls func NoClosure)"

lemma handled_call_rouses:
  assumes "h \<noteq> idle_service_index" "cls \<in> set classes" "invoke func NoClosure st1 = Some st2"
    "services (sys_of st2) h = Some s" "wait_events (contexts (sys_of st2) s) AND kResponse \<noteq> 0"
  shows "\<exists>st3. HandleMessage t' classes invoke (call_message h dest cls func) st1 = Some st3 \<and>
    roused kResponse (contexts (sys_of st3) s)"
  using reply_rouses [OF assms(1,4,5)] assms(2,3)
  by (simp add: HandleMessage_def Dispatch_def CallMethod_on_def Message_Done_def call_message_def
      SetClosure_def MakeMethodCallMessage_def)



end
