(* ===== verification/Wakeup_Service.thy ===== *)
theory Wakeup_Service
  imports System_Call_Properties "HOL-Library.Sublist"
begin

text \<open>
  The built-in wake-up service (\<open>src/src/WakeupService.h\<close>, \<open>src/src/WakeupService.cpp\<close>), which
  interrupts services that have been blocked for too long, with the parts of \<open>System\<close> that start
  it, talk to it and stop the system (\<open>src/src/System.cpp\<close>).
\<close>

section \<open>State\<close>

text \<open>The methods that messages can name: those of the wake-up service and those of user services.\<close>

datatype 'g srv_method = WakeupService_Start_call | WakeupService_Update_call
  | WakeupService_AddService_call handle u32 | UserMethod 'g

text \<open>The class of the wake-up service, as \<open>CallMethod\<close> names classes.\<close>

definition WakeupService_class :: nat where "WakeupService_class = 0"

record wakeup_item =
  srv_handle :: handle
  max_sleep_time :: u32

record wakeup_service =
  interval_ms :: u32
  conn_srvs :: "wakeup_item list"
  self_handle :: handle
  ws_status :: status
  ws_timer :: "nat option"

definition WakeupService :: wakeup_service where
  "WakeupService = \<lparr>interval_ms = 30000, conn_srvs = [], self_handle = Handle_default,
     ws_status = Status_OK, ws_timer = None\<rparr>"

definition min_interval_ms :: u32 where "min_interval_ms = 100"

section \<open>Operations\<close>

text \<open>A timer handle is a weak pointer; it has expired when there is no such timer any more.\<close>

definition timer_expired :: "nat option \<Rightarrow> 'f calls \<Rightarrow> bool" where
  "timer_expired h st = (case h of None \<Rightarrow> True | Some timer \<Rightarrow> timers (timer_srv st) timer = None)"

text \<open>The methods of the service run on worker thread \<open>t\<close>.\<close>

definition WakeupService_AddTimer ::
  "nat \<Rightarrow> wakeup_service \<Rightarrow> 'g srv_method calls \<Rightarrow> (wakeup_service \<times> 'g srv_method calls) option" where
  "WakeupService_AddTimer t ws st =
     (let selfh = self_handle ws;
          tm = ws_timer ws
      in do {
        (h, st) \<leftarrow> System_AddTimer (Some t) (interval_ms ws)
                    (UpdateCall selfh WakeupService_class WakeupService_Update_call tm) st;
        Some (ws\<lparr>ws_timer := h\<rparr>, st)
      })"

definition WakeupService_AddService ::
  "nat \<Rightarrow> handle \<Rightarrow> u32 \<Rightarrow> wakeup_service \<Rightarrow> 'g srv_method calls \<Rightarrow>
     (wakeup_service \<times> 'g srv_method calls) option" where
  "WakeupService_AddService t srvh max_ms ws st =
     (let max_ms = (if max_ms < min_interval_ms then min_interval_ms else max_ms);
          ws = (if max_ms < interval_ms ws then ws\<lparr>interval_ms := max_ms\<rparr> else ws);
          ws = ws\<lparr>conn_srvs := conn_srvs ws @ [\<lparr>srv_handle = srvh, max_sleep_time = max_ms\<rparr>]\<rparr>
      in if timer_expired (ws_timer ws) st then WakeupService_AddTimer t ws st else Some (ws, st))"

text \<open>\<open>Start\<close>, run on the service with handle \<open>h\<close>.\<close>

definition WakeupService_Start ::
  "nat \<Rightarrow> handle \<Rightarrow> wakeup_service \<Rightarrow> 'g srv_method calls \<Rightarrow> (wakeup_service \<times> 'g srv_method calls) option" where
  "WakeupService_Start t h ws st =
     (let ws = ws\<lparr>self_handle := h\<rparr>
      in if conn_srvs ws \<noteq> [] then WakeupService_AddTimer t ws st else Some (ws, st))"

text \<open>
  The loop of \<open>Update\<close> in worker thread \<open>t\<close>: services that are gone leave the list, services that
  have slept too long are interrupted and leave it.  \<open>WakeUp\<close> returns a truth value, which is then
  tested against an event bit.
\<close>

fun Update_loop ::
  "nat \<Rightarrow> wakeup_item list \<Rightarrow> 'g srv_method calls \<Rightarrow> (wakeup_item list \<times> 'g srv_method calls) option" where
  "Update_loop t [] st = Some ([], st)"
| "Update_loop t (it # items) st = do {
     srv \<leftarrow> GrabService (Some t) (srv_handle it) (sys_of st);
     (case srv of
        None \<Rightarrow> Update_loop t items st
      | Some s \<Rightarrow>
          if ServiceSleepTime s st > ucast (max_sleep_time it) then
            let (revents, sys) = WakeUp_ptr s kInterrupt (sys_of st);
                st = st\<lparr>sys_of := sys\<rparr>
            in if (if revents then 1 else 0) AND kServiceStop \<noteq> 0 then Some (it # items, st)
               else Update_loop t items st
          else do {
            (items, st) \<leftarrow> Update_loop t items st;
            Some (it # items, st)
          })
   }"

definition WakeupService_Update ::
  "nat \<Rightarrow> wakeup_service \<Rightarrow> 'g srv_method calls \<Rightarrow> (wakeup_service \<times> 'g srv_method calls) option" where
  "WakeupService_Update t ws st = do {
     (items, st) \<leftarrow> Update_loop t (conn_srvs ws) st;
     let ws = ws\<lparr>conn_srvs := items\<rparr>;
     if status_IsOK (ws_status ws) \<and> \<not> ServiceIsStopping (cur (sys_of st) t) (sys_of st)
     then WakeupService_AddTimer t ws st else Some (ws, st)
   }"

section \<open>The system and its wake-up service\<close>

definition WakeupIfWaitTimeout_ptr ::
  "nat option \<Rightarrow> service \<Rightarrow> u32 \<Rightarrow> 'g srv_method calls \<Rightarrow> (status \<times> 'g srv_method calls) option" where
  "WakeupIfWaitTimeout_ptr self s ms st =
     AsyncCallMethod self (wakeup_srv_handle st) WakeupService_class
       (WakeupService_AddService_call (handle_index s) ms) st"

definition WakeupIfWaitTimeout ::
  "nat option \<Rightarrow> handle \<Rightarrow> u32 \<Rightarrow> 'g srv_method calls \<Rightarrow> (status \<times> 'g srv_method calls) option" where
  "WakeupIfWaitTimeout self h ms st = do {
     s \<leftarrow> GrabService self h (sys_of st);
     (case s of
        Some s \<Rightarrow> WakeupIfWaitTimeout_ptr self s ms st
      | None \<Rightarrow> Some (Status_of kNotFound [], st))
   }"

text \<open>
  \<open>StartBuitinServices\<close> in the thread that starts the system, up to the wait for the reply.
\<close>

definition StartBuitinServices :: "nat \<Rightarrow> 'g srv_method calls \<Rightarrow> (status \<times> 'g srv_method calls) option" where
  "StartBuitinServices k st =
     (let (h, sys) = LaunchService kMessageDrivenService (sys_of st);
          st = st\<lparr>sys_of := sys, wakeup_srv_handle := (case h of Some i \<Rightarrow> i | None \<Rightarrow> Handle_default)\<rparr>
      in if \<not> Handle_bool (wakeup_srv_handle st)
         then Some (Status_of kFailed ''Launch WakeupService failed'', st)
         else CallMethod None k (wakeup_srv_handle st) WakeupService_class WakeupService_Start_call st)"

text \<open>
  \<open>System::Stop\<close> up to the joining of the threads, on the services of the table in the order in
  which it is walked, and the check after it.  \<open>WaitStop\<close> returns in the states of its predicate.
\<close>

definition System_Stop :: "service list \<Rightarrow> 'm system \<Rightarrow> 'm system" where
  "System_Stop ss sys = (if stopped sys then sys else StopAllService ss (sys\<lparr>stopped := True\<rparr>))"

definition System_Stop_joined :: "'m system \<Rightarrow> unit option" where
  "System_Stop_joined sys = CHECK (tsq_empty (run_queue sys))"

definition WaitStop_returns :: "'m system \<Rightarrow> bool" where
  "WaitStop_returns sys = stopped sys"

section \<open>What the service does\<close>

text \<open>The test of the truth value against the stop event is never true.\<close>

lemma update_never_breaks: "(if b then 1 else 0) AND kServiceStop = (0 :: u32)"
  by (simp add: kServiceStop_def)

lemma GrabService_worker: "GrabService (Some t) h sys \<noteq> None"
  by (simp add: GrabService_def)

text \<open>
  An update always completes.  It keeps a sublist of the items, all of them for services that exist,
  and wakes services at most: their tables and wait masks stay.
\<close>

lemma Update_loop_total:
  "\<exists>items' st'. Update_loop t items st = Some (items', st') \<and> subseq items' items \<and>
     keeps e (sys_of st) (sys_of st') \<and> timer_srv st' = timer_srv st \<and>
     (\<forall>it\<in>set items'. GrabService (Some t) (srv_handle it) (sys_of st) \<noteq> Some None)"
proof (induction items arbitrary: st)
  case (Cons it items)
  obtain srv where srv: "GrabService (Some t) (srv_handle it) (sys_of st) = Some srv"
    using GrabService_worker by blast
  have grab: "GrabService (Some t) h (sys_of st') = GrabService (Some t) h (sys_of st)"
    if "keeps e (sys_of st) (sys_of st')" for h and st' :: "'a srv_method calls"
    using that by (simp add: GrabService_def FindService_def keeps_def)
  show ?case
  proof (cases srv)
    case None
    then show ?thesis using Cons.IH [of st] srv by (auto intro: list_emb.intros)
  next
    case (Some s)
    show ?thesis
    proof (cases "ServiceSleepTime s st > ucast (max_sleep_time it)")
      case True
      let ?st = "st\<lparr>sys_of := snd (Wakeup_Locked s kInterrupt (sys_of st))\<rparr>"
      have k: "keeps e (sys_of st) (sys_of ?st)" by simp
      have "Update_loop t (it # items) st = Update_loop t items ?st"
        using srv Some True by (simp add: WakeUp_ptr_def case_prod_beta update_never_breaks)
      then show ?thesis using Cons.IH [of ?st] keeps_trans [OF k] grab [OF k] by (auto intro: list_emb.intros)
    next
      case False
      then show ?thesis using Cons.IH [of st] srv Some by (auto intro: list_emb.intros)
    qed
  qed
qed simp

text \<open>A service that is found asleep for too long is interrupted.\<close>

lemma Update_loop_interrupts:
  assumes "GrabService (Some t) (srv_handle it) (sys_of st) = Some (Some s)"
    "ServiceSleepTime s st > ucast (max_sleep_time it)"
    "wait_events (contexts (sys_of st) s) AND kInterrupt \<noteq> 0"
  shows "\<exists>items' st'. Update_loop t (it # items) st = Some (items', st') \<and> roused kInterrupt (contexts (sys_of st') s)"
proof -
  let ?st = "st\<lparr>sys_of := snd (Wakeup_Locked s kInterrupt (sys_of st))\<rparr>"
  have "Update_loop t (it # items) st = Update_loop t items ?st"
    using assms by (simp add: WakeUp_ptr_def case_prod_beta update_never_breaks)
  moreover have "roused kInterrupt (contexts (sys_of ?st) s)" using woken_roused [OF assms(3)] by simp
  ultimately show ?thesis using Update_loop_total [of t items ?st kInterrupt] by (auto simp: keeps_def)
qed

text \<open>The interval stays between 0.1 and 30 seconds, so the service's timer never fires at once.\<close>

definition interval_ok :: "wakeup_service \<Rightarrow> bool" where
  "interval_ok ws \<longleftrightarrow> 100 \<le> interval_ms ws \<and> interval_ms ws \<le> 30000"

lemma WakeupService_AddTimer_interval:
  "WakeupService_AddTimer t ws st = Some (ws', st') \<Longrightarrow>
     interval_ms ws' = interval_ms ws \<and> conn_srvs ws' = conn_srvs ws \<and> self_handle ws' = self_handle ws"
  by (auto simp: WakeupService_AddTimer_def Let_def split: Option.bind_splits)

lemma interval_ok_kept:
  "interval_ok WakeupService"
  "interval_ok ws \<Longrightarrow> WakeupService_AddService t h ms ws st = Some (ws', st') \<Longrightarrow> interval_ok ws'"
  "interval_ok ws \<Longrightarrow> WakeupService_Start t h ws st = Some (ws', st') \<Longrightarrow> interval_ok ws'"
  "interval_ok ws \<Longrightarrow> WakeupService_Update t ws st = Some (ws', st') \<Longrightarrow> interval_ok ws'"
  by (auto simp: interval_ok_def WakeupService_def WakeupService_AddService_def WakeupService_Start_def
      WakeupService_Update_def min_interval_ms_def Let_def not_less dest!: WakeupService_AddTimer_interval
      split: Option.bind_splits if_split_asm)

lemma WakeupService_AddTimer_live:
  assumes ok: "interval_ok ws" and wi: "wheel_inv (cur_time (timer_srv st)) (timer_srv st)"
  obtains ts' where "WakeupService_AddTimer t ws st =
      Some (ws\<lparr>ws_timer := Some (next_timer (timer_srv st))\<rparr>, st\<lparr>timer_srv := ts'\<rparr>)"
    "wheel_inv (cur_time ts') ts'" "next_timer ts' = Suc (next_timer (timer_srv st))"
    "pending ts' (next_timer (timer_srv st)) \<noteq> None" "cur_time ts' = cur_time (timer_srv st)"
    "\<And>th. pending (timer_srv st) th \<noteq> None \<Longrightarrow> pending ts' th \<noteq> None"
proof -
  let ?i = "interval_ms ws" and ?ts = "timer_srv st"
  let ?cb = "UpdateCall (self_handle ws) WakeupService_class WakeupService_Update_call (ws_timer ws)"
  have "unat ?i \<le> 30000" "100 \<le> unat ?i" using ok by (simp_all add: interval_ok_def word_le_nat_alt)
  then have "unat (?i + 5) = unat ?i + 5" by (simp add: unat_word_ariths)
  with \<open>100 \<le> unat ?i\<close> have "unat ((?i + 5) div 10) \<noteq> 0" by (simp add: unat_div)
  then have i: "(?i + 5) div 10 \<noteq> 0" by (metis unat_0)
  obtain ts where ts: "AddTimer ?i ?cb ?ts = (Some (next_timer ?ts), ts)" "next_timer ts = Suc (next_timer ?ts)"
    using i by (simp add: AddTimer_cases(2))
  show thesis
    by (intro that [of ts])
      (use AddTimer_inv [OF wi, where cb = ?cb and ms = ?i] AddTimer_pending(1,3) [OF wi i, where cb = ?cb] ts
        in \<open>auto simp: WakeupService_AddTimer_def System_AddTimer_def Let_def\<close>)
qed

text \<open>
  An update completes: it never finds the thread without a service, and its timer is set.
\<close>

lemma WakeupService_Update_total:
  assumes "interval_ok ws" "wheel_inv (cur_time (timer_srv st)) (timer_srv st)"
  shows "\<exists>ws' st'. WakeupService_Update t ws st = Some (ws', st') \<and> subseq (conn_srvs ws') (conn_srvs ws) \<and>
    keeps e (sys_of st) (sys_of st') \<and> wheel_inv (cur_time (timer_srv st')) (timer_srv st')"
proof -
  obtain items st1 where loop: "Update_loop t (conn_srvs ws) st = Some (items, st1)" "subseq items (conn_srvs ws)"
    "keeps e (sys_of st) (sys_of st1)" "timer_srv st1 = timer_srv st"
    using Update_loop_total [of t "conn_srvs ws" st e] by blast
  let ?ws = "ws\<lparr>conn_srvs := items\<rparr>"
  have ok: "interval_ok ?ws" "wheel_inv (cur_time (timer_srv st1)) (timer_srv st1)"
    using assms loop(4) by (simp_all add: interval_ok_def)
  obtain ts' where ts': "WakeupService_AddTimer t ?ws st1 =
      Some (?ws\<lparr>ws_timer := Some (next_timer (timer_srv st1))\<rparr>, st1\<lparr>timer_srv := ts'\<rparr>)"
    "wheel_inv (cur_time ts') ts'"
    by (rule WakeupService_AddTimer_live [OF ok]) (rule that)
  show ?thesis
  proof (cases "status_IsOK (ws_status ws) \<and> \<not> ServiceIsStopping (cur (sys_of st1) t) (sys_of st1)")
    case True
    then show ?thesis using loop ts' by (simp add: WakeupService_Update_def)
  next
    case False
    then show ?thesis using loop ok(2) by (auto simp: WakeupService_Update_def)
  qed
qed

text \<open>
  The wake-up service can end up with more than one timer.  When its timer has fired and the update
  is still to be handled, adding a service sets a timer, and the update then sets another one
  without looking: both are live, and each of them will set its successor.
\<close>

lemma update_timers_multiply:
  assumes "interval_ok ws" "status_IsOK (ws_status ws)" "timer_expired (ws_timer ws) st"
    and "wheel_inv (cur_time (timer_srv st)) (timer_srv st)" "conn_srvs ws = []"
    and "ServiceSleepTime s st = 0" "GrabService (Some t) h (sys_of st) = Some (Some s)"
    and "\<not> ServiceIsStopping (cur (sys_of st) t) (sys_of st)"
  shows "\<exists>ws1 st1 ws2 st2. WakeupService_AddService t h ms ws st = Some (ws1, st1) \<and>
    WakeupService_Update t ws1 st1 = Some (ws2, st2) \<and>
    (let th = next_timer (timer_srv st) in pending (timer_srv st2) th \<noteq> None \<and> pending (timer_srv st2) (Suc th) \<noteq> None)"
proof -
  define ms' where "ms' = (if ms < min_interval_ms then min_interval_ms else ms)"
  define ws0 where "ws0 = (if ms' < interval_ms ws then ws\<lparr>interval_ms := ms'\<rparr> else ws)
    \<lparr>conn_srvs := [\<lparr>srv_handle = h, max_sleep_time = ms'\<rparr>]\<rparr>"
  have ok: "interval_ok ws0"
    using assms(1) by (auto simp: interval_ok_def ws0_def ms'_def min_interval_ms_def not_less)
  have "conn_srvs ws0 = [\<lparr>srv_handle = h, max_sleep_time = ms'\<rparr>]" "ws_timer ws0 = ws_timer ws"
    "ws_status ws0 = ws_status ws" by (simp_all add: ws0_def)
  note ws0 = this
  have add: "WakeupService_AddService t h ms ws st = WakeupService_AddTimer t ws0 st"
    using assms(3,5) ws0(2) by (simp add: WakeupService_AddService_def Let_def ws0_def ms'_def)
  let ?ts = "timer_srv st" let ?th = "next_timer ?ts"
  obtain ts1 where 1: "WakeupService_AddTimer t ws0 st = Some (ws0\<lparr>ws_timer := Some ?th\<rparr>, st\<lparr>timer_srv := ts1\<rparr>)"
    "wheel_inv (cur_time ts1) ts1" "next_timer ts1 = Suc ?th" "pending ts1 ?th \<noteq> None" "cur_time ts1 = cur_time ?ts"
    by (rule WakeupService_AddTimer_live [OF ok assms(4)]) (rule that)
  let ?ws1 = "ws0\<lparr>ws_timer := Some ?th\<rparr>" and ?st1 = "st\<lparr>timer_srv := ts1\<rparr>"
  have sleep: "ServiceSleepTime s ?st1 = 0"
    using assms(6) 1(5) by (simp add: ServiceSleepTime_def DurationSince_def Let_def split: if_splits)
  have loop: "Update_loop t (conn_srvs ?ws1) ?st1 = Some (conn_srvs ?ws1, ?st1)"
    using ws0(1) assms(7) sleep by simp
  have ok1: "interval_ok ?ws1" "wheel_inv (cur_time (timer_srv ?st1)) (timer_srv ?st1)"
    using ok 1(2) by (simp_all add: interval_ok_def)
  obtain ts2 where 2: "WakeupService_AddTimer t ?ws1 ?st1 =
      Some (?ws1\<lparr>ws_timer := Some (next_timer (timer_srv ?st1))\<rparr>, ?st1\<lparr>timer_srv := ts2\<rparr>)"
    "pending ts2 (next_timer (timer_srv ?st1)) \<noteq> None"
    "\<And>th. pending (timer_srv ?st1) th \<noteq> None \<Longrightarrow> pending ts2 th \<noteq> None"
    by (rule WakeupService_AddTimer_live [OF ok1]) (rule that)
  have "WakeupService_Update t ?ws1 ?st1 = Some (?ws1\<lparr>ws_timer := Some (next_timer ts1)\<rparr>, ?st1\<lparr>timer_srv := ts2\<rparr>)"
    unfolding WakeupService_Update_def loop using 2(1) assms(2,8) ws0(3) by simp
  then show ?thesis using add 1 2(2,3) by (simp add: Let_def)
qed

end
