(* ===== verification/Rpc.thy ===== *)
theory Rpc
  imports Rpc_Codec Tcp_Server
begin

text \<open>
  Remote procedure calls: the controller (\<open>src/src/RpcController.h\<close>), the closures
  (\<open>src/src/RpcClosure.h\<close>), the client's channel (\<open>src/src/RpcChannel.h\<close>,
  \<open>src/src/RpcChannel.cpp\<close>) and the server (\<open>src/src/RpcServer.h\<close>, \<open>src/src/RpcServer.cpp\<close>).

  Parameters are what the protocol-buffer library generates: the serialisation of messages
  (\<open>pb\<close>) and of the arguments and results of a method, and the descriptor of a service.
\<close>

section \<open>Controllers and closures\<close>

text \<open>A controller is its \<open>status_\<close>.  The three methods that only assert do nothing in a release build.\<close>

type_synonym controller = status

definition Controller_Reset :: "controller \<Rightarrow> controller" where
  "Controller_Reset ctl = Status_OK"

definition Controller_Failed :: "controller \<Rightarrow> bool" where
  "Controller_Failed ctl \<longleftrightarrow> \<not> status_IsOK ctl"

definition Controller_ErrorText :: "controller \<Rightarrow> string" where
  "Controller_ErrorText ctl = error_text ctl"

definition Controller_SetFailed :: "string \<Rightarrow> controller \<Rightarrow> controller" where
  "Controller_SetFailed reason ctl = Status_of kFailed reason"

definition Controller_IsCanceled :: "controller \<Rightarrow> bool" where
  "Controller_IsCanceled ctl = False"

lemma SetFailed_Failed [simp]: "Controller_Failed (Controller_SetFailed reason ctl)"
  by (simp add: Controller_Failed_def Controller_SetFailed_def status_IsOK_def Status_of_def)

lemma Reset_not_Failed [simp]: "\<not> Controller_Failed (Controller_Reset ctl)"
  by (simp add: Controller_Failed_def Controller_Reset_def status_IsOK_iff)

text \<open>
  A closure object holds the function to call, \<open>None\<close> once it has been deleted: running it a
  second time uses freed memory.
\<close>

definition RpcClosure_Run :: "('w \<Rightarrow> 'w) option \<Rightarrow> 'w \<Rightarrow> (('w \<Rightarrow> 'w) option \<times> 'w) option" where
  "RpcClosure_Run c w = do { f \<leftarrow> c; Some (None, f w) }"

definition NullClosure_Run :: "'w \<Rightarrow> 'w" where "NullClosure_Run w = w"

section \<open>The channel\<close>

record rpc_channel =
  chan_conn :: "tcp_connection option"
  chan_addr :: string
  chan_port :: u16

text \<open>The constructor leaves \<open>port_\<close> uninitialised: \<open>garbage\<close> is what the memory held.\<close>

definition RpcChannel :: "u16 \<Rightarrow> tcp_connection option \<Rightarrow> rpc_channel" where
  "RpcChannel garbage conn = \<lparr>chan_conn = conn, chan_addr = [], chan_port = garbage\<rparr>"

text \<open>Dropping the channel's pointer, the only one there is, destroys the connection.\<close>

definition conn_reset :: "'w os \<Rightarrow> rpc_channel \<Rightarrow> 'w \<Rightarrow> rpc_channel \<times> 'w" where
  "conn_reset os ch w =
     (ch\<lparr>chan_conn := None\<rparr>,
      case chan_conn ch of Some conn \<Rightarrow> TcpConnectionBase_destroy os conn w | None \<Rightarrow> w)"

definition SetConnectParameter :: "'w os \<Rightarrow> string \<Rightarrow> u16 \<Rightarrow> rpc_channel \<Rightarrow> 'w \<Rightarrow> rpc_channel \<times> 'w" where
  "SetConnectParameter os addr port ch w = conn_reset os (ch\<lparr>chan_addr := addr, chan_port := port\<rparr>) w"

definition c_str :: "string \<Rightarrow> string" where "c_str s = takeWhile (\<lambda>c. c \<noteq> CHR 0x00) s"

definition SetConnectParameter_str ::
  "'w os \<Rightarrow> string \<Rightarrow> rpc_channel \<Rightarrow> 'w \<Rightarrow> bool \<times> rpc_channel \<times> 'w" where
  "SetConnectParameter_str os host_port_str ch w =
     (case ParseIPAddress host_port_str of
        None \<Rightarrow> (False, ch, w)
      | Some (host, port) \<Rightarrow> (True, SetConnectParameter os (c_str host) port ch w))"

text \<open>The virtual functions of the connection: a service gets a \<open>TcpConnection\<close>, a thread the base class.\<close>

definition conn_read :: "'w os \<Rightarrow> 'w svc option \<Rightarrow> tcp_connection \<Rightarrow> 'w reader" where
  "conn_read os srv conn = (case srv of Some sv \<Rightarrow> Read sv (sockfd conn) | None \<Rightarrow> Base_Read os (sockfd conn))"

definition conn_write :: "'w os \<Rightarrow> 'w svc option \<Rightarrow> tcp_connection \<Rightarrow> 'w writer" where
  "conn_write os srv conn = (case srv of Some sv \<Rightarrow> Write sv (sockfd conn) | None \<Rightarrow> Base_Write os (sockfd conn))"

text \<open>
  The client's side of a call: the channel, the controller, the response message (\<open>None\<close> while it
  has not been parsed) and how often \<open>done\<close> was run.
\<close>

record 'r rpc_call =
  call_channel :: rpc_channel
  call_controller :: controller
  call_response :: "'r option"
  done_runs :: nat

definition done_Run :: "'r rpc_call \<Rightarrow> 'r rpc_call" where
  "done_Run c = c\<lparr>done_runs := Suc (done_runs c)\<rparr>"

text \<open>The exchange over a connection: the status and, if all went well, the parsed response.\<close>

definition rpc_exchange ::
  "'w reader \<Rightarrow> 'w writer \<Rightarrow> RpcRequest pb \<Rightarrow> RpcResponse pb \<Rightarrow> string \<Rightarrow> string \<Rightarrow> string option \<Rightarrow>
   (string \<Rightarrow> 'r option) \<Rightarrow> 'w \<Rightarrow> (status \<times> 'r option \<times> 'w) option" where
  "rpc_exchange rd wr rqpb rspb service method argument parse w =
     (case argument of
        None \<Rightarrow> Some (Status_OK, None, w)
      | Some bytes \<Rightarrow> do {
          (s, w) \<leftarrow> WriteRequestMessage wr rqpb
                      \<lparr>req_service = service, req_method = method, argument_bytes = bytes\<rparr> w;
          if \<not> status_IsOK s then Some (s, None, w)
          else do {
            (s, rpc_res, w) \<leftarrow> ReadResponeMessage rd rspb w;
            if \<not> status_IsOK s then Some (s, None, w)
            else do { res \<leftarrow> rpc_res; Some (s, parse (response_message res), w) }
          }
        })"

text \<open>
  \<open>CallMethod\<close>: \<open>argument\<close> is the serialised request, \<open>None\<close> if it does not serialise, and
  \<open>parse\<close> is the parser of the response message.
\<close>

definition RpcChannel_CallMethod ::
  "'w os \<Rightarrow> 'w svc option \<Rightarrow> RpcRequest pb \<Rightarrow> RpcResponse pb \<Rightarrow> string \<Rightarrow> string \<Rightarrow> string option \<Rightarrow>
   (string \<Rightarrow> 'r option) \<Rightarrow> 'r rpc_call \<Rightarrow> 'w \<Rightarrow> ('r rpc_call \<times> 'w) option" where
  "RpcChannel_CallMethod os srv rqpb rspb service method argument parse c w =
     (let ch = call_channel c;
          (res, w) = (case chan_conn ch of
                        Some conn \<Rightarrow> (Result_value (Some conn), w)
                      | None \<Rightarrow> TcpConnector_Connect os srv (chan_addr ch) (chan_port ch) w)
      in if \<not> Result_bool res
         then Some (done_Run (c\<lparr>call_controller :=
                Controller_SetFailed (error_text (res_state res)) (call_controller c)\<rparr>), w)
         else do {
           conn \<leftarrow> Result_get res;
           let ch = ch\<lparr>chan_conn := Some conn\<rparr>;
           (s, response, w) \<leftarrow> rpc_exchange (conn_read os srv conn) (conn_write os srv conn) rqpb rspb
                                 service method argument parse w;
           (case response of
              Some r \<Rightarrow> Some (done_Run (c\<lparr>call_channel := ch, call_response := Some r\<rparr>), w)
            | None \<Rightarrow>
                let (ch, w) = conn_reset os ch w;
                    ctl = (if \<not> status_IsOK s then Controller_SetFailed (error_text s) (call_controller c)
                           else Controller_SetFailed ''CallMethod SerializeToString failed'' (call_controller c))
                in Some (done_Run (c\<lparr>call_channel := ch, call_controller := ctl\<rparr>), w))
         })"

section \<open>The server\<close>

text \<open>
  A service of the protocol-buffer library, as far as its descriptor goes: its name, its methods
  and the parsers of their requests.
\<close>

record 'q pb_service =
  srv_name :: string
  find_method :: "string \<Rightarrow> nat option"
  parse_request :: "nat \<Rightarrow> string \<Rightarrow> 'q option"

type_synonym 'q rpc_item = "int \<times> 'q pb_service"

definition GetRpcServiceItem :: "(string \<rightharpoonup> 'q rpc_item) \<Rightarrow> string \<Rightarrow> 'q rpc_item option" where
  "GetRpcServiceItem rpc_services name = rpc_services name"

text \<open>
  \<open>AddService\<close>: \<open>launch\<close> launches the internal service and gives its handle, \<open>None\<close> if that
  failed.  \<open>emplace\<close> does not replace an entry that is there.
\<close>

definition RpcServer_AddService ::
  "('w \<Rightarrow> int option \<times> 'w) \<Rightarrow> 'q pb_service \<Rightarrow> (string \<rightharpoonup> 'q rpc_item) \<Rightarrow> 'w \<Rightarrow>
   int option \<times> (string \<rightharpoonup> 'q rpc_item) \<times> 'w" where
  "RpcServer_AddService launch rpc_srv rpc_services w =
     (let name = srv_name rpc_srv;
          (h, w) = launch w
      in case h of
           Some i \<Rightarrow> (h, if rpc_services name = None then rpc_services(name \<mapsto> (i, rpc_srv)) else rpc_services, w)
         | None \<Rightarrow> (h, rpc_services, w))"

text \<open>
  \<open>InternalRpcService::CallMethod\<close>: the method gets a new closure object; the user's method runs
  it now or later.
\<close>

definition InternalRpcService_CallMethod ::
  "(('w \<Rightarrow> 'w) option \<Rightarrow> 'w \<Rightarrow> 'a) \<Rightarrow> ('w \<Rightarrow> 'w) \<Rightarrow> 'w \<Rightarrow> 'a" where
  "InternalRpcService_CallMethod user_method call_closure w = user_method (Some call_closure) w"

text \<open>
  \<open>CallServiceMethod\<close>.  \<open>call\<close> is the blocking \<open>CallMethodWithClosure\<close> to the internal service with
  a given handle: its status, the response and the controller as the method left them.
\<close>

definition CallServiceMethod ::
  "(int \<Rightarrow> nat \<Rightarrow> 'q \<Rightarrow> controller \<Rightarrow> 'w \<Rightarrow> status \<times> 'r \<times> controller \<times> 'w) \<Rightarrow>
   (string \<rightharpoonup> 'q rpc_item) \<Rightarrow> RpcRequest \<Rightarrow> controller \<Rightarrow> 'w \<Rightarrow> 'r option \<times> controller \<times> 'w" where
  "CallServiceMethod call rpc_services rpc_request ctl w =
     (case GetRpcServiceItem rpc_services (req_service rpc_request) of
        None \<Rightarrow> (None, Controller_SetFailed (''can't find service'' @ req_service rpc_request) ctl, w)
      | Some (h, service) \<Rightarrow>
          let ctl = Controller_Reset ctl
          in case find_method service (req_method rpc_request) of
               None \<Rightarrow> (None, Controller_SetFailed (''can't find method'' @ req_method rpc_request) ctl, w)
             | Some method \<Rightarrow>
                 (case parse_request service method (argument_bytes rpc_request) of
                    Some request \<Rightarrow>
                      let (s, response, ctl, w) = call h method request ctl w
                      in if \<not> status_IsOK s then (None, Controller_SetFailed (error_text s) ctl, w)
                         else (Some response, ctl, w)
                  | None \<Rightarrow> (None, Controller_SetFailed ''ParseFromString error'' ctl, w)))"

text \<open>
  The function a connection's service runs: requests are answered one after the other until the
  service is stopped or something fails.  \<open>serialize\<close> is \<open>SerializeToArray\<close> of a response; when
  that fails, nothing is sent.
\<close>

partial_function (option) serve_loop ::
  "('w \<Rightarrow> bool) \<Rightarrow> 'w reader \<Rightarrow> 'w writer \<Rightarrow> RpcRequest pb \<Rightarrow> RpcResponse pb \<Rightarrow> ('r \<Rightarrow> string option) \<Rightarrow>
   (RpcRequest \<Rightarrow> controller \<Rightarrow> 'w \<Rightarrow> 'r option \<times> controller \<times> 'w) \<Rightarrow> controller \<Rightarrow> 'w \<Rightarrow> 'w option" where
  "serve_loop is_stopping rd wr rqpb rspb serialize call_service ctl w =
     (if is_stopping w then Some w
      else do {
        (s, req, w) \<leftarrow> ReadRequestMessage rd rqpb w;
        if \<not> status_IsOK s then Some w
        else do {
          rpc_request \<leftarrow> req;
          let (response, ctl, w) = call_service rpc_request (Controller_Reset ctl) w;
          case response of
            None \<Rightarrow> Some w
          | Some response \<Rightarrow>
              if Controller_Failed ctl then Some w
              else (case serialize response of
                      Some buffer \<Rightarrow> do {
                        (s, w) \<leftarrow> WriteResponeMessage wr rspb \<lparr>response_message = buffer\<rparr> w;
                        if \<not> status_IsOK s then Some w
                        else serve_loop is_stopping rd wr rqpb rspb serialize call_service ctl w
                      }
                    | None \<Rightarrow> serve_loop is_stopping rd wr rqpb rspb serialize call_service ctl w)
        }
      })"

definition serve_connection ::
  "'w svc \<Rightarrow> tcp_connection \<Rightarrow> RpcRequest pb \<Rightarrow> RpcResponse pb \<Rightarrow> ('r \<Rightarrow> string option) \<Rightarrow>
   (int \<Rightarrow> nat \<Rightarrow> 'q \<Rightarrow> controller \<Rightarrow> 'w \<Rightarrow> status \<times> 'r \<times> controller \<times> 'w) \<Rightarrow>
   (string \<rightharpoonup> 'q rpc_item) \<Rightarrow> 'w \<Rightarrow> 'w option" where
  "serve_connection sv conn rqpb rspb serialize call rpc_services w =
     serve_loop (svc_stopping sv) (Read sv (sockfd conn)) (Write sv (sockfd conn)) rqpb rspb serialize
       (CallServiceMethod call rpc_services) Status_OK w"

end
