(* ===== verification/Rpc_Properties.thy ===== *)
theory Rpc_Properties
  imports Rpc
begin

text \<open>
  What the two ends of a remote procedure call promise: a call over a channel always completes and
  runs its closure once, and a server answers the requests of a connection one by one, in order.
\<close>

section \<open>The client\<close>

text \<open>
  The kernel under a connection: it keeps the contracts of \<open>recv\<close> and \<open>send\<close> and does not answer
  \<open>EAGAIN\<close> or \<open>EINTR\<close> for ever; a service's waits do not undo that.
\<close>

definition kernel_ok ::
  "'w os \<Rightarrow> 'w svc option \<Rightarrow> (int \<Rightarrow> 'w \<Rightarrow> string) \<Rightarrow> (int \<Rightarrow> 'w \<Rightarrow> string) \<Rightarrow> ('w \<Rightarrow> nat) \<Rightarrow> bool" where
  "kernel_ok os srv inbox outbox patience \<longleftrightarrow>
     recv_law os inbox \<and> send_law os outbox \<and> recv_patient os patience \<and> send_patient os patience \<and>
     (case srv of Some sv \<Rightarrow> svc_os sv = os \<and> svc_respects sv (\<lambda>w w'. patience w' \<le> patience w) | None \<Rightarrow> True)"

text \<open>A connection whose calls return.\<close>

definition returns :: "'w reader \<Rightarrow> 'w writer \<Rightarrow> bool" where
  "returns rd wr \<longleftrightarrow> (\<forall>n w. rd n w \<noteq> None) \<and> (\<forall>buf w. wr buf w \<noteq> None)"

lemma kernel_spinning:
  assumes "kernel_ok os None inbox outbox patience"
  shows "kernel_ok (svc_os (spinning os)) (Some (spinning os)) inbox outbox patience"
proof -
  have calls: "os_recv (svc_os (spinning os)) = os_recv os" "os_send (svc_os (spinning os)) = os_send os"
    by (simp_all add: spinning_def)
  have "svc_respects (spinning os) (\<lambda>w w'. patience w' \<le> patience w)"
    by (intro spinning_respects) (auto simp: reflp_def transp_def)
  then show ?thesis
    using assms by (simp add: kernel_ok_def recv_law_def send_law_def recv_patient_def send_patient_def calls)
qed

lemma service_returns:
  assumes "kernel_ok os (Some sv) inbox outbox patience"
  shows "returns (Read sv fd) (Write sv fd)"
proof -
  from assms have k: "recv_law (svc_os sv) inbox" "recv_patient (svc_os sv) patience"
    "send_law (svc_os sv) outbox" "send_patient (svc_os sv) patience"
    "svc_respects sv (\<lambda>w w'. patience w' \<le> patience w)" by (simp_all add: kernel_ok_def)
  have "\<exists>res. Read_loop sv fd n [] w = Some res" for n w by (rule Read_loop_terminates [OF k(1,2,5)])
  moreover have "\<exists>res. Write_loop sv fd buf (length buf) w = Some res" for buf w
    by (rule Write_loop_terminates [OF k(3-5)]) simp
  ultimately show ?thesis by (auto simp: returns_def Read_def Write_def)
qed

lemma connection_returns:
  assumes "kernel_ok os srv inbox outbox patience"
  shows "returns (conn_read os srv conn) (conn_write os srv conn)"
proof (cases srv)
  case None
  have "returns (Read (spinning os) (sockfd conn)) (Write (spinning os) (sockfd conn))"
    using service_returns [OF kernel_spinning] assms None by blast
  then show ?thesis by (simp add: None conn_read_def conn_write_def Base_eq returns_def)
next
  case (Some sv)
  then show ?thesis using service_returns [of os sv] assms by (simp add: conn_read_def conn_write_def)
qed

lemma ReadMessage_returns:
  assumes "\<forall>n w. rd n w \<noteq> None"
  shows "\<exists>s m w'. ReadMessage rd pb ty w = Some (s, m, w') \<and> (status_IsOK s \<longleftrightarrow> m \<noteq> None)"
proof -
  obtain s buf w1 where 1: "rd 3 w = Some (s, buf, w1)" using assms by (metis not_None_eq prod_cases3)
  let ?n = "unat (drop_bit 8 (packet_head buf) AND 0xFFFF)"
  obtain s2 buf2 w2 where 2: "rd ?n w1 = Some (s2, buf2, w2)" using assms by (metis not_None_eq prod_cases3)
  have failed: "\<not> status_IsOK (Status_of kInvailArgument t)" "\<not> status_IsOK (Status_of kFailed t)" for t
    by (simp_all add: status_IsOK_def Status_of_def)
  show ?thesis
    using 1 2 failed by (auto simp: ReadMessage_def Let_def status_IsOK_iff split: option.split)
qed

lemma ReadMessage_keeps:
  assumes "\<forall>n u. \<exists>s b u'. rd n u = Some (s, b, u') \<and> f u' = f u" "ReadMessage rd pb ty w = Some (s, m, w')"
  shows "f w' = f w"
proof -
  from assms(1) obtain s1 buf w1 where 1: "rd 3 w = Some (s1, buf, w1)" "f w1 = f w" by blast
  let ?n = "unat (drop_bit 8 (packet_head buf) AND 0xFFFF)"
  from assms(1) obtain s2 buf2 w2 where 2: "rd ?n w1 = Some (s2, buf2, w2)" "f w2 = f w1" by blast
  show ?thesis
    using assms(2) 1 2 by (auto simp: ReadMessage_def Let_def split: if_splits option.splits)
qed

lemma WriteMessage_returns:
  assumes "\<forall>buf w. wr buf w \<noteq> None" "\<forall>bytes. pb_append pb m = Some bytes \<longrightarrow> length bytes < 0xFFFF"
  shows "\<exists>s w'. WriteMessage wr pb ty m w = Some (s, w')"
proof (cases "pb_append pb m")
  case (Some bytes)
  let ?buf = "char_of (MessageType_code ty) # char_of (length bytes AND 0xFF)
    # char_of (drop_bit 16 (length bytes) AND 0xFF) # bytes"
  obtain s w1 where "wr ?buf w = Some (s, w1)" using assms(1) by (metis not_None_eq prod.exhaust)
  then show ?thesis using Some assms(2) by (auto simp: WriteMessage_def Let_def)
qed (simp add: WriteMessage_def)

text \<open>What an exchange did when it has a response, and its status when it has none.\<close>

definition answered ::
  "'w reader \<Rightarrow> 'w writer \<Rightarrow> RpcRequest pb \<Rightarrow> RpcResponse pb \<Rightarrow> RpcRequest \<Rightarrow> (string \<Rightarrow> 'r option) \<Rightarrow>
   'w \<Rightarrow> 'r \<Rightarrow> 'w \<Rightarrow> bool" where
  "answered rd wr rqpb rspb req parse w r w' \<longleftrightarrow>
     (\<exists>w1 res. WriteRequestMessage wr rqpb req w = Some (Status_OK, w1) \<and>
        ReadResponeMessage rd rspb w1 = Some (Status_OK, Some res, w') \<and> parse (response_message res) = Some r)"

abbreviation request_of :: "string \<Rightarrow> string \<Rightarrow> string \<Rightarrow> RpcRequest" where
  "request_of service method bytes \<equiv> \<lparr>req_service = service, req_method = method, argument_bytes = bytes\<rparr>"

lemma rpc_exchange_returns:
  assumes "returns rd wr"
    and "\<forall>arg bytes. argument = Some arg \<longrightarrow> pb_append rqpb (request_of service method arg) = Some bytes \<longrightarrow>
      length bytes < 0xFFFF"
  shows "\<exists>s r w'. rpc_exchange rd wr rqpb rspb service method argument parse w = Some (s, r, w') \<and>
    (\<forall>x. r = Some x \<longrightarrow> (\<exists>arg. argument = Some arg \<and>
       answered rd wr rqpb rspb (request_of service method arg) parse w x w'))"
proof (cases argument)
  case (Some arg)
  obtain s w1 where 1: "WriteRequestMessage wr rqpb (request_of service method arg) w = Some (s, w1)"
    using WriteMessage_returns [of wr rqpb "request_of service method arg" Codec_kRequest w] assms Some
    by (auto simp: returns_def WriteRequestMessage_def)
  obtain s2 m w2 where 2: "ReadResponeMessage rd rspb w1 = Some (s2, m, w2)" "status_IsOK s2 \<longleftrightarrow> m \<noteq> None"
    using ReadMessage_returns [of rd rspb Codec_KResponse w1] assms(1)
    by (auto simp: returns_def ReadResponeMessage_def)
  show ?thesis
    using 1 2 Some by (auto simp: rpc_exchange_def answered_def status_IsOK_iff)
qed (simp add: rpc_exchange_def)

lemma Connect_result:
  "TcpConnector_Connect os srv addr port w = (res, w') \<Longrightarrow> Result_bool res \<Longrightarrow> \<exists>conn. Result_get res = Some conn"
  by (auto simp: TcpConnector_Connect_def TcpConnector_Connect_srv_def TcpConnector_Connect_thread_def Let_def
      Result_bool_def Result_status_def Result_value_def Result_get_def split: if_splits option.splits prod.splits)


text \<open>For the witnesses: messages of one field, serialised as that field.\<close>

definition request_pb :: "RpcRequest pb" where
  "request_pb = \<lparr>pb_append = (\<lambda>r. if req_service r = ''srv'' \<and> req_method r = ''m'' then Some (argument_bytes r) else None),
     pb_parse = (\<lambda>bytes. Some (request_of ''srv'' ''m'' bytes))\<rparr>"

definition response_pb :: "RpcResponse pb" where
  "response_pb = \<lparr>pb_append = (\<lambda>r. Some (response_message r)), pb_parse = (\<lambda>bytes. Some \<lparr>response_message = bytes\<rparr>)\<rparr>"

lemma script_kernel: "kernel_ok script_os None script_in script_out (\<lambda>w. length (fst w))"
  using script_laws by (simp add: kernel_ok_def)


section \<open>The server\<close>

text \<open>
  A connection on which writing always succeeds and the two directions do not touch each other, and
  a service call that leaves both alone.
\<close>

definition serving :: "'w reader \<Rightarrow> 'w writer \<Rightarrow> ('w \<Rightarrow> string) \<Rightarrow> ('w \<Rightarrow> string) \<Rightarrow> bool" where
  "serving rd wr inb outb \<longleftrightarrow> reliable rd inb \<and>
     (\<forall>n u. \<exists>s b u'. rd n u = Some (s, b, u') \<and> outb u' = outb u) \<and>
     (\<forall>b u. \<exists>u'. wr b u = Some (Status_OK, u') \<and> inb u' = inb u)"

text \<open>
  What a request asks for: \<open>answers \<dots> req bytes\<close> says that the request names a service and one of
  its methods, that its argument parses, and that calling the method gives a response whose packet
  carries \<open>bytes\<close>.
\<close>

definition answers ::
  "(int \<Rightarrow> nat \<Rightarrow> 'q \<Rightarrow> controller \<Rightarrow> 'w \<Rightarrow> status \<times> 'r \<times> controller \<times> 'w) \<Rightarrow> (string \<rightharpoonup> 'q rpc_item) \<Rightarrow>
   ('r \<Rightarrow> string option) \<Rightarrow> RpcResponse pb \<Rightarrow> ('w \<Rightarrow> string) \<Rightarrow> ('w \<Rightarrow> string) \<Rightarrow> RpcRequest \<Rightarrow> string \<Rightarrow> bool" where
  "answers call rpc_services serialize rspb inb outb req bytes \<longleftrightarrow>
     (\<exists>h service method q r buf. rpc_services (req_service req) = Some (h, service) \<and>
        find_method service (req_method req) = Some method \<and>
        parse_request service method (argument_bytes req) = Some q \<and>
        serialize r = Some buf \<and> pb_append rspb \<lparr>response_message = buf\<rparr> = Some bytes \<and> length bytes < 0xFFFF \<and>
        (\<forall>u. \<exists>u'. call h method q Status_OK u = (Status_OK, r, Status_OK, u') \<and> inb u' = inb u \<and> outb u' = outb u))"

text \<open>A request and its serialisation.\<close>

definition sends :: "RpcRequest pb \<Rightarrow> RpcRequest \<Rightarrow> string \<Rightarrow> bool" where
  "sends rqpb req bytes \<longleftrightarrow> pb_append rqpb req = Some bytes \<and> 0 < length bytes \<and> length bytes < 256"

lemma CallServiceMethod_answers:
  assumes "answers call rpc_services serialize rspb inb outb req bytes"
  obtains r buf u' where "CallServiceMethod call rpc_services req (Controller_Reset ctl) u = (Some r, Status_OK, u')"
    "serialize r = Some buf" "pb_append rspb \<lparr>response_message = buf\<rparr> = Some bytes" "length bytes < 0xFFFF"
    "inb u' = inb u" "outb u' = outb u"
proof -
  from assms obtain h service mth q r buf where a: "rpc_services (req_service req) = Some (h, service)"
    "find_method service (req_method req) = Some mth" "parse_request service mth (argument_bytes req) = Some q"
    "serialize r = Some buf" "pb_append rspb \<lparr>response_message = buf\<rparr> = Some bytes" "length bytes < 0xFFFF"
    "\<forall>u. \<exists>u'. call h mth q Status_OK u = (Status_OK, r, Status_OK, u') \<and> inb u' = inb u \<and> outb u' = outb u"
    unfolding answers_def by blast
  from a(7) obtain u' where "call h mth q Status_OK u = (Status_OK, r, Status_OK, u')" "inb u' = inb u" "outb u' = outb u"
    by blast
  then show thesis
    using that a by (simp add: CallServiceMethod_def GetRpcServiceItem_def Controller_Reset_def status_IsOK_iff)
qed

context stream_connection
begin

text \<open>One round of the server: a request packet is consumed and a response packet is sent.\<close>

lemma serve_round:
  assumes ok: "rd_ok e inb" "wr_ok e outb" "serving (rd e) (wr e) inb outb" "pb_law rqpb"
    and req: "sends rqpb req bytes" "answers call rpc_services serialize rspb inb outb req reply"
    and inb: "inb w = packet Codec_kRequest bytes @ rest" and stop: "\<not> halt w"
  obtains w' where "inb w' = rest" "outb w' = outb w @ packet Codec_KResponse reply"
    "serve_loop halt (rd e) (wr e) rqpb rspb serialize (CallServiceMethod call rpc_services) ctl w =
     serve_loop halt (rd e) (wr e) rqpb rspb serialize (CallServiceMethod call rpc_services) Status_OK w'"
proof -
  have rel: "reliable (rd e) inb" using ok(3) by (simp add: serving_def)
  have b: "pb_append rqpb req = Some bytes" "length bytes < 0xFFFF" "length bytes = length bytes mod 256" "length bytes \<noteq> 0"
    using req(1) by (auto simp: sends_def)
  have parse: "pb_parse rqpb bytes = Some req" using ok(4) b(1) by (simp add: pb_law_def)
  obtain w1 where w1: "inb w1 = rest" "ReadMessage (rd e) rqpb Codec_kRequest w = Some (Status_OK, Some req, w1)"
    using read_packet [OF ok(1) rel inb b(2-4), of rqpb] parse by auto
  have out1: "outb w1 = outb w"
    using ReadMessage_keeps [OF _ w1(2), of outb] ok(3) by (simp add: serving_def)
  obtain r buf w2 where w2: "CallServiceMethod call rpc_services req (Controller_Reset ctl) w1 = (Some r, Status_OK, w2)"
    "serialize r = Some buf" "pb_append rspb \<lparr>response_message = buf\<rparr> = Some reply" "length reply < 0xFFFF"
    "inb w2 = inb w1" "outb w2 = outb w1" by (rule CallServiceMethod_answers [OF req(2)])
  have "\<exists>w3. wr e (packet Codec_KResponse reply) w2 = Some (Status_OK, w3) \<and> inb w3 = inb w2"
    using ok(3) by (simp add: serving_def)
  then obtain w3 where w3: "wr e (packet Codec_KResponse reply) w2 = Some (Status_OK, w3)" "inb w3 = inb w2" by blast
  have wm: "WriteMessage (wr e) rspb Codec_KResponse \<lparr>response_message = buf\<rparr> w2 = Some (Status_OK, w3)"
    using w2(3,4) w3(1) by (simp add: WriteMessage_def packet_def Let_def)
  have "outb w3 = outb w2 @ packet Codec_KResponse reply" by (rule wr_all [OF ok(2) w3(1)])
  moreover have "serve_loop halt (rd e) (wr e) rqpb rspb serialize (CallServiceMethod call rpc_services) ctl w =
     serve_loop halt (rd e) (wr e) rqpb rspb serialize (CallServiceMethod call rpc_services) Status_OK w3"
    using stop w1(2) w2(1,2) wm
    by (subst serve_loop.simps)
      (simp add: ReadRequestMessage_def WriteResponeMessage_def status_IsOK_iff Controller_Failed_def)
  ultimately show thesis using that w1(1) w2(5,6) w3(2) out1 by simp
qed

text \<open>All requests of a stream, and then the end of it.\<close>

lemma serve_stream:
  assumes ok: "rd_ok e inb" "wr_ok e outb" "serving (rd e) (wr e) inb outb" "pb_law rqpb" "\<And>u. \<not> halt u"
    and req: "\<forall>(req, bytes, reply)\<in>set reqs. sends rqpb req bytes \<and>
      answers call rpc_services serialize rspb inb outb req reply"
    and inb: "inb w = concat (map (\<lambda>(req, bytes, reply). packet Codec_kRequest bytes) reqs)"
  shows "\<exists>w'. serve_loop halt (rd e) (wr e) rqpb rspb serialize (CallServiceMethod call rpc_services) ctl w = Some w' \<and>
    outb w' = outb w @ concat (map (\<lambda>(req, bytes, reply). packet Codec_KResponse reply) reqs)"
  using req inb
proof (induction reqs arbitrary: w ctl)
  case Nil
  obtain s b w1 where rd: "rd e 3 w = Some (s, b, w1)" "outb w1 = outb w"
    using ok(3) unfolding serving_def by blast
  have "s \<noteq> Status_OK" using rd_stream [OF ok(1) rd(1)] Nil.prems(2) by auto
  then show ?case
    using rd ok(5) by (subst serve_loop.simps) (simp add: ReadRequestMessage_def ReadMessage_def status_IsOK_iff)
next
  case (Cons x reqs)
  obtain req bytes reply where x: "x = (req, bytes, reply)" by (rule prod_cases3)
  have 1: "sends rqpb req bytes" "answers call rpc_services serialize rspb inb outb req reply"
    "inb w = packet Codec_kRequest bytes @ concat (map (\<lambda>(req, bytes, reply). packet Codec_kRequest bytes) reqs)"
    using Cons.prems by (simp_all add: x)
  obtain w1 where w1: "inb w1 = concat (map (\<lambda>(req, bytes, reply). packet Codec_kRequest bytes) reqs)"
    "outb w1 = outb w @ packet Codec_KResponse reply"
    "serve_loop halt (rd e) (wr e) rqpb rspb serialize (CallServiceMethod call rpc_services) ctl w =
     serve_loop halt (rd e) (wr e) rqpb rspb serialize (CallServiceMethod call rpc_services) Status_OK w1"
    by (rule serve_round [OF ok(1-4) 1 ok(5)])
  then show ?case using Cons.IH [of w1 Status_OK] Cons.prems(1) by (simp add: x)
qed

end

text \<open>
  C40 (functional).  The server answers the requests of a connection in order, each once.  When the
  bytes of a connection are the packets of a sequence of requests (of 1 to 255 bytes each) for
  methods of registered services, then the function that serves the connection returns at the end of
  the stream and has sent exactly the packets of the methods' responses, in the order of the requests.
\<close>

theorem server_answers_in_order:
  assumes "svc_reads (sv, sockfd conn) inb" "svc_writes (sv, sockfd conn) outb"
    and "serving (Read sv (sockfd conn)) (Write sv (sockfd conn)) inb outb" "pb_law rqpb"
    and "\<forall>u. \<not> svc_stopping sv u"
    and "\<forall>(req, bytes, reply)\<in>set reqs. sends rqpb req bytes \<and>
      answers call rpc_services serialize rspb inb outb req reply"
    and "inb w = concat (map (\<lambda>(req, bytes, reply). packet Codec_kRequest bytes) reqs)"
  shows "\<exists>w'. serve_connection sv conn rqpb rspb serialize call rpc_services w = Some w' \<and>
    outb w' = outb w @ concat (map (\<lambda>(req, bytes, reply). packet Codec_KResponse reply) reqs)"
  using svc_conn.serve_stream [OF assms(1,2) _ assms(4) _ assms(6,7), of "svc_stopping sv" Status_OK] assms(3,5)
  unfolding serve_connection_def by simp

text \<open>For the witness: on the kernel of scripts, reading does not touch what was sent.\<close>

lemma script_Read_loop:
  "\<exists>st b s'. Read_loop (spinning script_os) 7 n acc (s, out) = Some (st, b, (s', out))"
proof (induction "n + length s" arbitrary: n s acc rule: less_induct)
  case less
  show ?case
  proof (cases "n = 0 \<or> s = []")
    case True
    then show ?thesis by (subst Read_loop.simps) (auto simp: Recv_def script_os_def)
  next
    case n: False
    then obtain c s' where s: "s = c # s'" by (cases s) auto
    show ?thesis
    proof (cases "c = None \<or> c = Some []")
      case True
      from less [of n s' acc] show ?thesis
        using True n by (subst Read_loop.simps) (auto simp: s Recv_def script_os_def)
    next
      case False
      then obtain d where d: "c = Some d" "d \<noteq> []" by auto
      let ?s = "Some (drop n d) # s'"
      have "n - length (take n d) + length ?s < n + length s" using d n by (auto simp: s)
      from less [OF this, of "acc @ take n d"] show ?thesis
        using d n by (subst Read_loop.simps) (auto simp: s Recv_def script_os_def)
    qed
  qed
qed

lemma script_serving:
  "serving (Read (spinning script_os) 7) (Write (spinning script_os) 7) (script_in 7) (script_out 7)"
proof -
  have "\<exists>s b u'. Read (spinning script_os) 7 n u = Some (s, b, u') \<and> script_out 7 u' = script_out 7 u" for n u
    using script_Read_loop [of n "[]" "fst u" "snd u"] by (auto simp: Read_def script_out_def)
  moreover have "\<exists>u'. Write (spinning script_os) 7 b u = Some (Status_OK, u') \<and> script_in 7 u' = script_in 7 u" for b u
    using script_write [of b "fst u" "snd u"] by (auto simp: script_in_def)
  ultimately show ?thesis using script_reliable by (simp add: serving_def)
qed

text \<open>A service whose only method returns its argument.\<close>

definition echo_services :: "string \<rightharpoonup> string rpc_item" where
  "echo_services = [''srv'' \<mapsto> (20, \<lparr>srv_name = ''srv'', find_method = (\<lambda>m. if m = ''m'' then Some 0 else None),
     parse_request = (\<lambda>_ bytes. Some bytes)\<rparr>)]"

definition echo_call :: "int \<Rightarrow> nat \<Rightarrow> string \<Rightarrow> controller \<Rightarrow> script \<Rightarrow> status \<times> string \<times> controller \<times> script" where
  "echo_call h method q ctl w = (Status_OK, q, ctl, w)"

theorem server_answers_in_order_witness:
  "\<exists>w'. serve_connection (spinning script_os) (TcpConnectionBase 7) request_pb response_pb Some echo_call echo_services
      ([None, Some (packet Codec_kRequest ''hello'' @ packet Codec_kRequest ''you'')], []) = Some w' \<and>
    script_out 7 w' = packet Codec_KResponse ''hello'' @ packet Codec_KResponse ''you''"
proof -
  let ?r = "\<lambda>x. (request_of ''srv'' ''m'' x, x, x)"
  let ?w = "([None, Some (packet Codec_kRequest ''hello'' @ packet Codec_kRequest ''you'')], [])"
  have law: "pb_law request_pb" by (auto simp: pb_law_def request_pb_def)
  have run: "\<forall>u. \<not> svc_stopping (spinning script_os) u" by (simp add: spinning_def)
  have "sends request_pb (request_of ''srv'' ''m'' x) x \<and>
      answers echo_call echo_services Some response_pb (script_in 7) (script_out 7) (request_of ''srv'' ''m'' x) x"
    if "x \<in> {''hello'', ''you''}" for x
    using that by (auto simp: sends_def answers_def request_pb_def response_pb_def echo_services_def echo_call_def)
  then have reqs: "\<forall>(req, bytes, reply)\<in>set [?r ''hello'', ?r ''you'']. sends request_pb req bytes \<and>
      answers echo_call echo_services Some response_pb (script_in 7) (script_out 7) req reply" by simp
  have inb: "script_in 7 ?w = concat (map (\<lambda>(req, bytes, reply). packet Codec_kRequest bytes) [?r ''hello'', ?r ''you''])"
    by (simp add: script_in_def)
  have fd: "sockfd (TcpConnectionBase 7) = 7" by (simp add: TcpConnectionBase_def)
  from server_answers_in_order [of "spinning script_os" "TcpConnectionBase 7" "script_in 7" "script_out 7",
      unfolded fd, OF script_streams(2,1) script_serving law run reqs inb]
  show ?thesis by (simp add: script_out_def)
qed

end
