(* ===== verification/Tcp_Service.thy ===== *)
theory Tcp_Service
  imports Tcp_Server Wakeup_Service
begin

text \<open>
  The TCP server (\<open>src/src/TcpServer.h\<close>, \<open>src/src/TcpServer.cpp\<close>): an acceptor in a service of its
  own, and a service for every connection.  It works on the operating system's world \<open>w\<close> and on the
  system \<open>st\<close>.  What a connection's service runs is the user's function; that a service was launched
  for the connection is recorded in the table \<open>owner\<close>, from handles to connections.
\<close>

record tcp_server =
  has_callback :: bool
  acceptor_handle :: handle
  connection_idle_timeout_ms :: u32
  acceptor_fd :: int
  owner :: "handle \<rightharpoonup> tcp_connection"

definition TcpServer :: tcp_server where
  "TcpServer = \<lparr>has_callback = False, acceptor_handle = Handle_default, connection_idle_timeout_ms = 0,
     acceptor_fd = -1, owner = Map.empty\<rparr>"

definition SetOnNewConnection :: "tcp_server \<Rightarrow> tcp_server" where
  "SetOnNewConnection srv = srv\<lparr>has_callback := True\<rparr>"

definition TcpServer_Stop ::
  "nat option \<Rightarrow> tcp_server \<Rightarrow> 'g srv_method calls \<Rightarrow> 'g srv_method calls option" where
  "TcpServer_Stop self srv st =
     (if Handle_bool (acceptor_handle srv)
      then do { (_, sys) \<leftarrow> StopService self (acceptor_handle srv) (sys_of st); Some (st\<lparr>sys_of := sys\<rparr>) }
      else Some st)"

text \<open>
  The callback for a new connection, in worker thread \<open>t\<close>.  The connection object belongs to the new
  service; where the service is dropped, it closes the descriptor.
\<close>

definition TcpServer_on_connection ::
  "'w os \<Rightarrow> nat \<Rightarrow> int \<Rightarrow> sockaddr_in \<Rightarrow> tcp_server \<Rightarrow> 'w \<Rightarrow> 'g srv_method calls \<Rightarrow>
   (tcp_server \<times> 'w \<times> 'g srv_method calls) option" where
  "TcpServer_on_connection os t fd peer srv w st =
     (if fd < 0 then Some (srv, w, st)
      else
        let conn = TcpConnectionBase fd;
            (s, loc, w) = GetLocalAddress os fd InetAddress w;
            conn = (if status_IsOK s then conn\<lparr>local_addr := loc\<rparr> else conn);
            conn = conn\<lparr>peer_addr := peer\<rparr>;
            (s, w) = TcpConnection_SetNonBlocking os conn w
        in if \<not> status_IsOK s then Some (srv, TcpConnectionBase_destroy os conn w, st)
           else
             let (connh, sys) = LaunchService kUserThreadService (sys_of st);
                 st = st\<lparr>sys_of := sys\<rparr>
             in case connh of
                  None \<Rightarrow> Some (srv, TcpConnectionBase_destroy os conn w, st)
                | Some h \<Rightarrow>
                    let srv = srv\<lparr>owner := (owner srv)(h \<mapsto> conn)\<rparr>
                    in if connection_idle_timeout_ms srv > 0
                       then do {
                         (s, st) \<leftarrow> WakeupIfWaitTimeout (Some t) h (connection_idle_timeout_ms srv) st;
                         if \<not> status_IsOK s
                         then do { (_, sys) \<leftarrow> StopService (Some t) h (sys_of st); Some (srv, w, st\<lparr>sys_of := sys\<rparr>) }
                         else Some (srv, w, st)
                       }
                       else Some (srv, w, st))"

definition TcpServer_Start ::
  "'w os \<Rightarrow> nat option \<Rightarrow> string \<Rightarrow> u32 \<Rightarrow> tcp_server \<Rightarrow> 'w \<Rightarrow> 'g srv_method calls \<Rightarrow>
   (bool \<times> tcp_server \<times> 'w \<times> 'g srv_method calls) option" where
  "TcpServer_Start os self host_port_str timeout_ms srv w st =
     (if \<not> has_callback srv then Some (False, srv, w, st)
      else
        let (ok, fd, w) = Acceptor_Initialize os host_port_str (-1) w
        in if \<not> ok
           then do { st \<leftarrow> TcpServer_Stop self srv st; Some (False, srv, Acceptor_destroy os fd w, st) }
           else
             let srv = srv\<lparr>connection_idle_timeout_ms := timeout_ms\<rparr>;
                 (h, sys) = LaunchService kUserThreadService (sys_of st);
                 srv = srv\<lparr>acceptor_handle := (case h of Some i \<Rightarrow> i | None \<Rightarrow> Handle_default)\<rparr>;
                 st = st\<lparr>sys_of := sys\<rparr>
             in if \<not> Handle_bool (acceptor_handle srv)
                then do { st \<leftarrow> TcpServer_Stop self srv st; Some (False, srv, Acceptor_destroy os fd w, st) }
                else Some (True, srv\<lparr>acceptor_fd := fd\<rparr>, w, st))"

definition TcpServer_Start_port ::
  "'w os \<Rightarrow> nat option \<Rightarrow> u16 \<Rightarrow> u32 \<Rightarrow> tcp_server \<Rightarrow> 'w \<Rightarrow> 'g srv_method calls \<Rightarrow>
   (bool \<times> tcp_server \<times> 'w \<times> 'g srv_method calls) option" where
  "TcpServer_Start_port os self port timeout_ms srv w st =
     TcpServer_Start os self (''*:'' @ to_string (unat port)) timeout_ms srv w st"

section \<open>A connection is owned or closed\<close>

text \<open>The calls the callback makes lead from reachable states of the scheduler to reachable ones.\<close>

lemma worker_num_calls [simp]:
  "worker_num (snd (Wakeup_Locked s e sys)) = worker_num sys"
  "worker_num (snd (LaunchService ty sys)) = worker_num sys"
  "SendMessage self h msg sys = Some (b, sys') \<Longrightarrow> worker_num sys' = worker_num sys"
proof -
  show w: "worker_num (snd (Wakeup_Locked s e sys)) = worker_num sys" for s e and sys :: "'m system"
    by (simp add: Wakeup_Locked_def PutReadyService_def Let_def)
  show "worker_num (snd (LaunchService ty sys)) = worker_num sys"
    unfolding LaunchService_eq Let_def by (simp add: w AddService_def)
  assume "SendMessage self h msg sys = Some (b, sys')"
  then show "worker_num sys' = worker_num sys"
    by (auto simp: SendMessage_def Let_def w split: Option.bind_splits option.splits if_splits)
qed

lemma send_reachable:
  assumes "sys_reachable (sys_of st)" "t < worker_num (sys_of st)" "msg_destination m \<noteq> idle_service_index"
  obtains s sys' where "send (Some t) m st = Some (s, st\<lparr>sys_of := sys'\<rparr>)" "sys_reachable sys'"
    "services sys' = services (sys_of st)" "worker_num sys' = worker_num (sys_of st)"
proof -
  from SendMessage_outside [OF assms(3), where self = "Some t" and msg = m and sys = "sys_of st" and e = 0]
  obtain b sys' where 1: "SendMessage (Some t) (msg_destination m) m (sys_of st) = Some (b, sys')"
    "keeps 0 (sys_of st) sys'" by blast
  have "sys_reachable sys'"
    by (rule reachable_perform [OF assms(1), of "CallSend (Some t) (msg_destination m) m"])
      (use assms(2) 1(1) in \<open>simp_all add: self_ok_def\<close>)
  then show thesis using that 1 by (simp add: send_def keeps_def)
qed

lemma stop_reachable:
  assumes "sys_reachable sys" "t < worker_num sys" "h \<noteq> idle_service_index"
  obtains b sys' where "StopService (Some t) h sys = Some (b, sys')" "sys_reachable sys'" "services sys' = services sys"
proof -
  from StopService_outside [OF assms(3), where self = "Some t" and sys = sys and e = 0]
  obtain b sys' where 1: "StopService (Some t) h sys = Some (b, sys')" "keeps 0 sys sys'" by blast
  have "sys_reachable sys'"
    by (rule reachable_perform [OF assms(1), of "CallStopService (Some t) h"])
      (use assms(2) 1(1) in \<open>simp_all add: self_ok_def\<close>)
  then show thesis using that 1 by (simp add: keeps_def)
qed

lemma launch_reachable:
  assumes "sys_reachable sys" "LaunchService ty sys = (h, sys')"
  shows "sys_reachable sys'" "worker_num sys' = worker_num sys"
    "h = Some i \<Longrightarrow> services sys' i = Some (LaunchedService i) \<and> 16 < i"
proof -
  show sys': "sys_reachable sys'"
    by (rule reachable_perform [OF assms(1), of "CallLaunch ty"]) (simp_all add: assms(2))
  show "worker_num sys' = worker_num sys" using worker_num_calls(2) [of ty sys] assms(2) by simp
  have "16 \<le> service_index_alloc sys"
    using sys_reachable_inv [OF assms(1)] by (simp add: sys_inv_def table_inv_def)
  then have "services sys' i \<noteq> None \<and> 16 < i" if "h = Some i"
    using assms(2) that unfolding LaunchService_eq Let_def by (auto simp: AddService_def split: if_splits)
  then show "services sys' i = Some (LaunchedService i) \<and> 16 < i" if "h = Some i"
    using sys_reachable_inv [OF sys'] that unfolding sys_inv_def table_inv_def by (metis option.exhaust)
qed

text \<open>The call for the idle timeout, and the stop of the service when it fails.\<close>

lemma idle_timeout_runs:
  assumes "sys_reachable (sys_of st)" "t < worker_num (sys_of st)" "16 < wakeup_srv_handle st"
    and "services (sys_of st) h = Some (LaunchedService h)" "16 < h"
  shows "\<exists>s st'. WakeupIfWaitTimeout (Some t) h ms st = Some (s, st') \<and> sys_reachable (sys_of st') \<and>
    services (sys_of st') = services (sys_of st) \<and> worker_num (sys_of st') = worker_num (sys_of st)"
proof -
  let ?m = "MakeMethodCallMessage (caller (Some t) (sys_of st)) (wakeup_srv_handle st) WakeupService_class
    (WakeupService_AddService_call h ms) NoClosure"
  have "msg_destination ?m \<noteq> idle_service_index"
    using assms(3) by (simp add: MakeMethodCallMessage_def idle_service_index_def)
  from send_reachable [OF assms(1,2) this]
  obtain s sys' where "send (Some t) ?m st = Some (s, st\<lparr>sys_of := sys'\<rparr>)" "sys_reachable sys'"
    "services sys' = services (sys_of st)" "worker_num sys' = worker_num (sys_of st)" .
  moreover have "GrabService (Some t) h (sys_of st) = Some (Some (LaunchedService h))"
    using assms(4,5) by (simp add: GrabService_outside idle_service_index_def)
  ultimately show ?thesis
    using assms(3) by (simp add: WakeupIfWaitTimeout_def WakeupIfWaitTimeout_ptr_def AsyncCallMethod_def Handle_bool_def)
qed

lemma owned_service_runs:
  assumes "sys_reachable (sys_of st)" "t < worker_num (sys_of st)" "16 < wakeup_srv_handle st"
    and "services (sys_of st) h = Some (LaunchedService h)" "16 < h"
  shows "\<exists>s st1 b sys. WakeupIfWaitTimeout (Some t) h ms st = Some (s, st1) \<and> sys_reachable (sys_of st1) \<and>
    services (sys_of st1) h = Some (LaunchedService h) \<and>
    StopService (Some t) h (sys_of st1) = Some (b, sys) \<and> sys_reachable sys \<and>
    services sys h = Some (LaunchedService h)"
proof -
  obtain s st' where st': "WakeupIfWaitTimeout (Some t) h ms st = Some (s, st')"
    "sys_reachable (sys_of st')" "services (sys_of st') = services (sys_of st)"
    "worker_num (sys_of st') = worker_num (sys_of st)"
    using idle_timeout_runs [OF assms] by blast
  have "t < worker_num (sys_of st')" "h \<noteq> idle_service_index"
    using st'(4) assms(2,5) by (simp_all add: idle_service_index_def)
  from stop_reachable [OF st'(2) this]
  obtain b sys where "StopService (Some t) h (sys_of st') = Some (b, sys)" "sys_reachable sys"
    "services sys = services (sys_of st')" .
  then show ?thesis using st' assms(4) by auto
qed

text \<open>
  C25 (safety).  Every connection the acceptor hands over is owned or closed.  In every reachable
  state of a system whose wake-up service was launched, the callback for a new connection returns,
  no \<open>CHECK\<close> fails and the scheduler is in a reachable state again.  Then either a service that is in
  the table of services owns a connection on the descriptor, which stays open, or no service owns it
  and the descriptor, and no other, is closed: whether the socket could not be configured or the
  system is stopping.
\<close>

theorem new_connection_owned_or_closed:
  assumes laws: "close_law os fds" "options_law os fds" and fd: "0 \<le> fd" "fds w = insert fd F" "fd \<notin> F"
    and reach: "sys_reachable (sys_of st)" and t: "t < worker_num (sys_of st)" and ws: "16 < wakeup_srv_handle st"
  shows "\<exists>srv' w' st'. TcpServer_on_connection os t fd peer srv w st = Some (srv', w', st') \<and>
    sys_reachable (sys_of st') \<and>
    ((\<exists>h conn. owner srv' = (owner srv)(h \<mapsto> conn) \<and> sockfd conn = fd \<and>
        services (sys_of st') h = Some (LaunchedService h) \<and> fds w' = insert fd F) \<or>
     owner srv' = owner srv \<and> fds w' = F)"
proof -
  obtain s1 loc w1 where 1: "GetLocalAddress os fd InetAddress w = (s1, loc, w1)" by (rule prod_cases3)
  define conn where "conn = (if status_IsOK s1 then (TcpConnectionBase fd)\<lparr>local_addr := loc\<rparr> else TcpConnectionBase fd)
    \<lparr>peer_addr := peer\<rparr>"
  obtain s2 w2 where 2: "TcpConnection_SetNonBlocking os conn w1 = (s2, w2)" by (rule prod.exhaust)
  obtain connh sys where 3: "LaunchService kUserThreadService (sys_of st) = (connh, sys)" by (rule prod.exhaust)
  note sys = launch_reachable [OF reach 3]
  note body = TcpServer_on_connection_def Let_def 1 case_prod_conv conn_def [symmetric] 2 3
  have sock: "sockfd conn = fd" by (simp add: conn_def TcpConnectionBase_def)
  have "fds w1 = insert fd F" using options_keep(8) [OF laws(2), of fd InetAddress w] 1 fd by simp
  then have w2: "fds w2 = insert fd F" using options_keep(9) [OF laws(2), of conn w1] 2 by simp
  have closed: "fds (TcpConnectionBase_destroy os conn w2) = F"
    using laws(1) w2 fd sock by (auto simp: TcpConnectionBase_destroy_def close_law_def)
  show ?thesis
  proof (cases "\<not> status_IsOK s2 \<or> connh = None")
    case True
    then show ?thesis using reach sys(1) fd(1) closed unfolding body by auto
  next
    case False
    then obtain h where h: "connh = Some h" by auto
    have "\<exists>st'. TcpServer_on_connection os t fd peer srv w st =
        Some (srv\<lparr>owner := (owner srv)(h \<mapsto> conn)\<rparr>, w2, st') \<and> sys_reachable (sys_of st') \<and>
        services (sys_of st') h = Some (LaunchedService h)"
      using owned_service_runs [of "st\<lparr>sys_of := sys\<rparr>" t h "connection_idle_timeout_ms srv"] sys(1,2) sys(3) [OF h]
        t ws False fd(1) unfolding body by (auto simp: h)
    then show ?thesis using w2 sock by auto
  qed
qed

text \<open>For the witness: the user thread service 18 accepts, the wake-up service is service 17.\<close>

definition accepting :: "nat srv_method calls" where
  "accepting =
     \<lparr>sys_of = the (run_actions [ResumePrevious 0, ResumeCurrent 0, CallLaunch kMessageDrivenService,
         CallLaunch kUserThreadService, IdleLoop False 0, GetReady 0, Switch 0, ResumePrevious 0,
         ResumeCurrent 0] (System_Start 1)),
      timer_srv = TimerService, wakeup_srv_handle = 17, done_flag = (\<lambda>_. False), user_log = []\<rparr>"

theorem new_connection_owned_or_closed_witness:
  "\<exists>srv' w' st'. TcpServer_on_connection table_os 0 2 InetAddress TcpServer (3, {0, 1, 2}) accepting
     = Some (srv', w', st') \<and> sys_reachable (sys_of st')"
proof -
  let ?fds = "\<lambda>(n, F). {x \<in> F. x < int n}"
  have laws: "close_law table_os ?fds" "options_law table_os ?fds"
    by (auto simp: close_law_def options_law_def table_os_def quiet_os_def)
  have fd: "(0 :: int) \<le> 2" "?fds (3, {0, 1, 2}) = insert 2 {0, 1}" "(2 :: int) \<notin> {0, 1}" by auto
  have "sys_reachable (sys_of accepting)"
    unfolding accepting_def calls.simps by (rule reachable_the_run [OF start]) code_simp
  moreover have "0 < worker_num (sys_of accepting)" "16 < wakeup_srv_handle accepting" by code_simp+
  ultimately show ?thesis
    using new_connection_owned_or_closed [OF laws fd, of accepting 0 InetAddress TcpServer] by auto
qed

text \<open>Starting leaks nothing: the listening socket is open exactly when the server has started.\<close>

lemma start_owns_listener:
  assumes laws: "close_law os fds" "options_law os fds" "socket_law os fds"
    and run: "TcpServer_Start os self host_port_str ms srv w st = Some (ok, srv', w', st')"
  shows "if ok then acceptor_fd srv' \<notin> fds w \<and> fds w' = insert (acceptor_fd srv') (fds w) else fds w' = fds w"
proof -
  obtain b fd w1 where 1: "Acceptor_Initialize os host_port_str (-1) w = (b, fd, w1)" by (rule prod_cases3)
  obtain h sys where 2: "LaunchService kUserThreadService (sys_of st) = (h, sys)" by (rule prod.exhaust)
  have init: "if b then fd \<notin> fds w \<and> fd \<noteq> -1 \<and> fds w1 = insert fd (fds w) else fd = -1 \<and> fds w1 = fds w"
    using acceptor_initialize_owns [OF laws, of host_port_str "-1" w] 1 by (auto split: if_splits)
  have closed: "fds (Acceptor_destroy os fd w1) = fds w"
    using init laws(1) by (auto simp: Acceptor_destroy_def close_law_def split: if_splits)
  show ?thesis
    using run init closed unfolding TcpServer_Start_def Let_def 1 case_prod_conv 2
    by (auto split: if_splits Option.bind_splits)
qed

end
