(* ===== verification/Rpc_Service.thy ===== *)
theory Rpc_Service
  imports Rpc_Properties Tcp_Service
begin

text \<open>
  The RPC server as a whole (\<open>src/src/RpcServer.h\<close>, \<open>src/src/RpcServer.cpp\<close>): the table of services of
  theory \<open>Rpc\<close> on top of the TCP server of theory \<open>Tcp_Service\<close>.  The callback it installs is
  \<^const>\<open>serve_connection\<close>.
\<close>

record 'q rpc_server =
  rpc_services :: "string \<rightharpoonup> 'q rpc_item"
  rpc_tcp_server :: tcp_server
  rpc_codec_set :: bool

definition RpcServer :: "'q rpc_server" where
  "RpcServer = \<lparr>rpc_services = Map.empty, rpc_tcp_server = TcpServer, rpc_codec_set = False\<rparr>"

definition SetRpcCodec :: "'q rpc_server \<Rightarrow> 'q rpc_server" where
  "SetRpcCodec rs = rs\<lparr>rpc_codec_set := True\<rparr>"

definition RpcServer_Start ::
  "'w os \<Rightarrow> nat option \<Rightarrow> string \<Rightarrow> u32 \<Rightarrow> 'q rpc_server \<Rightarrow> 'w \<Rightarrow> 'g srv_method calls \<Rightarrow>
   (bool \<times> 'q rpc_server \<times> 'w \<times> 'g srv_method calls) option" where
  "RpcServer_Start os self host_port_str timeout_ms rs w st =
     (let rs = (if \<not> rpc_codec_set rs then rs\<lparr>rpc_codec_set := True\<rparr> else rs);
          rs = rs\<lparr>rpc_tcp_server := SetOnNewConnection (rpc_tcp_server rs)\<rparr>
      in do {
        (ok, tcp, w, st) \<leftarrow> TcpServer_Start os self host_port_str timeout_ms (rpc_tcp_server rs) w st;
        Some (ok, rs\<lparr>rpc_tcp_server := tcp\<rparr>, w, st)
      })"

definition RpcServer_Start_port ::
  "'w os \<Rightarrow> nat option \<Rightarrow> u16 \<Rightarrow> u32 \<Rightarrow> 'q rpc_server \<Rightarrow> 'w \<Rightarrow> 'g srv_method calls \<Rightarrow>
   (bool \<times> 'q rpc_server \<times> 'w \<times> 'g srv_method calls) option" where
  "RpcServer_Start_port os self port timeout_ms rs w st =
     RpcServer_Start os self (''*:'' @ to_string (unat port)) timeout_ms rs w st"

definition RpcServer_Stop ::
  "nat option \<Rightarrow> 'q rpc_server \<Rightarrow> 'g srv_method calls \<Rightarrow> 'g srv_method calls option" where
  "RpcServer_Stop self rs st = TcpServer_Stop self (rpc_tcp_server rs) st"

text \<open>
  Every way to start gives a server with a codec and a callback, keeps the registered services, and
  holds the listening socket exactly when it has started.
\<close>

lemma rpc_start_owns_listener:
  assumes laws: "close_law os fds" "options_law os fds" "socket_law os fds"
    and run: "RpcServer_Start os self host_port_str ms rs w st = Some (ok, rs', w', st')"
  shows "rpc_codec_set rs' \<and> rpc_services rs' = rpc_services rs"
    and "if ok then acceptor_fd (rpc_tcp_server rs') \<notin> fds w \<and>
             fds w' = insert (acceptor_fd (rpc_tcp_server rs')) (fds w)
         else fds w' = fds w"
proof -
  from run obtain tcp where tcp: "rs' = rs\<lparr>rpc_codec_set := True, rpc_tcp_server := tcp\<rparr>"
    "TcpServer_Start os self host_port_str ms (SetOnNewConnection (rpc_tcp_server rs)) w st
       = Some (ok, tcp, w', st')"
    by (auto simp: RpcServer_Start_def Let_def bind_eq_Some_conv split: if_splits)
  from tcp(1) show "rpc_codec_set rs' \<and> rpc_services rs' = rpc_services rs" by simp
  from start_owns_listener [OF laws tcp(2)] tcp(1)
  show "if ok then acceptor_fd (rpc_tcp_server rs') \<notin> fds w \<and>
             fds w' = insert (acceptor_fd (rpc_tcp_server rs')) (fds w)
         else fds w' = fds w" by simp
qed

end
