(* ===== verification/Mpsc_Queue.thy ===== *)
theory Mpsc_Queue
  imports Mcast_Prelude
begin

text \<open>
  The wait-free queue of many producers and one consumer (\<open>src/src/util/MPSCQueue.h\<close>).  Nodes are
  addresses, given by the callers; the queue only links them.  A push is three atomic accesses: the
  counter, the exchange of the tail, and the store that links the old tail to the new node; other
  threads may run between any two of them.  The consumer's pop reads one link and then works on
  memory that is its own, so it is one step.
\<close>

section \<open>The queue\<close>

record 'v mpsc_queue =
  node_next :: "nat \<Rightarrow> nat option"
  node_value :: "nat \<Rightarrow> 'v"
  mq_tail :: nat
  mq_head :: nat
  mq_size :: u64

definition MPSCQueue :: "nat \<Rightarrow> (nat \<Rightarrow> 'v) \<Rightarrow> 'v mpsc_queue" where
  "MPSCQueue stub values =
     \<lparr>node_next = (\<lambda>_. None), node_value = values, mq_tail = stub, mq_head = stub, mq_size = 0\<rparr>"

definition Node_Set :: "nat \<Rightarrow> 'v \<Rightarrow> 'v mpsc_queue \<Rightarrow> 'v mpsc_queue" where
  "Node_Set node x q = q\<lparr>node_value := (node_value q)(node := x)\<rparr>"

text \<open>The steps of \<open>Push\<close>; the exchange yields the old tail.\<close>

definition Push_count :: "'v mpsc_queue \<Rightarrow> 'v mpsc_queue" where
  "Push_count q = q\<lparr>mq_size := mq_size q + 1\<rparr>"

definition Push_exchange :: "nat \<Rightarrow> 'v mpsc_queue \<Rightarrow> nat \<times> 'v mpsc_queue" where
  "Push_exchange node q = (mq_tail q, q\<lparr>mq_tail := node\<rparr>)"

definition Push_link :: "nat \<Rightarrow> nat \<Rightarrow> 'v mpsc_queue \<Rightarrow> 'v mpsc_queue" where
  "Push_link old_tail node q = q\<lparr>node_next := (node_next q)(old_tail := Some node)\<rparr>"

definition MPSCQueue_Push :: "nat \<Rightarrow> 'v mpsc_queue \<Rightarrow> 'v mpsc_queue" where
  "MPSCQueue_Push node q = (let (old_tail, q) = Push_exchange node (Push_count q) in Push_link old_tail node q)"

text \<open>\<open>Pop\<close>: the value of the next node moves into the head, which is handed back to the caller.\<close>

definition MPSCQueue_Pop :: "'v mpsc_queue \<Rightarrow> nat option \<times> 'v mpsc_queue" where
  "MPSCQueue_Pop q =
     (case node_next q (mq_head q) of
        None \<Rightarrow> (None, q)
      | Some next \<Rightarrow>
          let q = q\<lparr>node_value := (node_value q)(mq_head q := node_value q next)\<rparr>;
              old_head = mq_head q
          in (Some old_head, q\<lparr>mq_head := next, mq_size := mq_size q - 1\<rparr>))"

partial_function (option) MPSCQueue_Clear :: "'v mpsc_queue \<Rightarrow> 'v mpsc_queue option" where
  "MPSCQueue_Clear q = (case MPSCQueue_Pop q of (Some _, q) \<Rightarrow> MPSCQueue_Clear q | (None, q) \<Rightarrow> Some q)"

definition MPSCQueue_Empty :: "'v mpsc_queue \<Rightarrow> bool" where "MPSCQueue_Empty q \<longleftrightarrow> mq_tail q = mq_head q"

definition MPSCQueue_Size :: "'v mpsc_queue \<Rightarrow> u64" where "MPSCQueue_Size q = mq_size q"

section \<open>First in, first out\<close>

text \<open>
  The runs: producers start a push (counter and exchange) and later link it; the consumer pops.  The
  state carries what the proof talks about: the nodes from head to tail in the order of the
  exchanges, the links still to be stored, and the values pushed and popped so far.
\<close>

record 'v mpsc_run =
  queue_of :: "'v mpsc_queue"
  chain :: "nat list"
  links :: "(nat \<times> nat) set"
  mq_pushed :: "'v list"
  mq_popped :: "'v list"

inductive mpsc_step :: "'v mpsc_run \<Rightarrow> 'v mpsc_run \<Rightarrow> bool" where
  start: "node \<notin> set (chain s) \<Longrightarrow> node_next (queue_of s) node = None \<Longrightarrow>
    Push_exchange node (Push_count (Node_Set node v (queue_of s))) = (old_tail, q) \<Longrightarrow>
    mpsc_step s (s\<lparr>queue_of := q, chain := chain s @ [node], links := insert (old_tail, node) (links s),
                  mq_pushed := mq_pushed s @ [v]\<rparr>)"
| link: "(old_tail, node) \<in> links s \<Longrightarrow>
    mpsc_step s (s\<lparr>queue_of := Push_link old_tail node (queue_of s), links := links s - {(old_tail, node)}\<rparr>)"
| pop: "MPSCQueue_Pop (queue_of s) = (Some node, q) \<Longrightarrow>
    mpsc_step s (s\<lparr>queue_of := q, chain := tl (chain s), mq_popped := mq_popped s @ [node_value q node]\<rparr>)"

definition mpsc_start :: "nat \<Rightarrow> (nat \<Rightarrow> 'v) \<Rightarrow> 'v mpsc_run" where
  "mpsc_start stub values =
     \<lparr>queue_of = MPSCQueue stub values, chain = [stub], links = {}, mq_pushed = [], mq_popped = []\<rparr>"

text \<open>Along the chain every node is linked to its successor or its link is still to be stored.\<close>

fun chained :: "(nat \<Rightarrow> nat option) \<Rightarrow> (nat \<times> nat) set \<Rightarrow> nat list \<Rightarrow> bool" where
  "chained nx L [] = False"
| "chained nx L [a] = (nx a = None)"
| "chained nx L (a # b # c) =
     ((if (a, b) \<in> L then nx a = None else nx a = Some b) \<and> chained nx L (b # c))"

definition mpsc_inv :: "'v mpsc_run \<Rightarrow> bool" where
  "mpsc_inv s \<longleftrightarrow> chained (node_next (queue_of s)) (links s) (chain s) \<and> distinct (chain s) \<and>
     links s \<subseteq> set (zip (chain s) (tl (chain s))) \<and>
     mq_head (queue_of s) = hd (chain s) \<and> mq_tail (queue_of s) = last (chain s) \<and>
     mq_pushed s = mq_popped s @ map (node_value (queue_of s)) (tl (chain s))"

lemma chained_nonempty: "chained nx L c \<Longrightarrow> c \<noteq> []"
  by auto

lemma chained_snoc:
  "chained nx L (c @ [t]) \<Longrightarrow> node \<notin> set (c @ [t]) \<Longrightarrow> nx node = None \<Longrightarrow>
   chained nx (insert (t, node) L) (c @ [t, node])"
proof (induction c)
  case (Cons a c)
  then show ?case by (cases c) (auto split: if_splits)
qed simp

lemma chained_irrelevant:
  "a \<notin> set c \<Longrightarrow> chained (nx(a := x)) (L - {(a, b)}) c = chained nx L c"
proof (induction c)
  case (Cons d c)
  then show ?case by (cases c) auto
qed simp

lemma chained_link:
  "chained nx L c \<Longrightarrow> distinct c \<Longrightarrow> (a, b) \<in> set (zip c (tl c)) \<Longrightarrow>
   chained (nx(a := Some b)) (L - {(a, b)}) c"
proof (induction c)
  case (Cons d c)
  then obtain e c' where c: "c = e # c'" by (cases c) auto
  show ?case
  proof (cases "d = a")
    case True
    with Cons.prems(2,3) have "e = b" by (auto simp: c dest: set_zip_leftD)
    then show ?thesis using True Cons.prems chained_irrelevant [of a c nx "Some b" L b] by (auto simp: c fun_upd_def)
  next
    case False
    then have "(a, b) \<in> set (zip c (tl c))" using Cons.prems(3) by (auto simp: c)
    then show ?thesis using Cons.IH Cons.prems(1,2) False by (auto simp: c)
  qed
qed simp

lemma zip_tl_snoc: "c \<noteq> [] \<Longrightarrow> zip (c @ [x]) (tl (c @ [x])) = zip c (tl c) @ [(last c, x)]"
proof (induction c)
  case (Cons a c)
  then show ?case by (cases c) auto
qed simp

lemma mpsc_step_inv:
  assumes "mpsc_step s s'" "mpsc_inv s"
  shows "mpsc_inv s'"
  using assms(1)
proof cases
  case (start node v old_tail q)
  let ?c = "chain s" and ?q = "queue_of s"
  from assms(2) have c: "?c = butlast ?c @ [last ?c]"
    using chained_nonempty by (metis append_butlast_last_id mpsc_inv_def)
  from assms(2) have ne: "?c \<noteq> []" by (auto simp: mpsc_inv_def)
  have q: "old_tail = last ?c" "q = (Push_count (Node_Set node v ?q))\<lparr>mq_tail := node\<rparr>"
    using start(4) assms(2) by (auto simp: Push_exchange_def mpsc_inv_def Push_count_def Node_Set_def)
  have "chained (node_next ?q) (insert (last ?c, node) (links s)) (?c @ [node])"
    using chained_snoc [of "node_next ?q" "links s" "butlast ?c" "last ?c" node] assms(2) start(2,3) c
    by (metis append.assoc append_Cons append_Nil mpsc_inv_def)
  moreover have "set (zip (?c @ [node]) (tl (?c @ [node]))) = insert (last ?c, node) (set (zip ?c (tl ?c)))"
    unfolding zip_tl_snoc [OF ne] by simp
  moreover have "map (node_value (Node_Set node v ?q)) (tl (?c @ [node])) = map (node_value ?q) (tl ?c) @ [v]"
    using start(2) ne by (cases ?c) (auto simp: Node_Set_def)
  moreover have "hd (?c @ [node]) = hd ?c" using ne by simp
  ultimately show ?thesis
    using assms(2) start(1,2) by (auto simp: mpsc_inv_def q Push_count_def Node_Set_def)
next
  case (link old_tail node)
  then show ?thesis
    using assms(2) chained_link [of "node_next (queue_of s)" "links s" "chain s" old_tail node]
    by (auto simp: mpsc_inv_def Push_link_def)
next
  case (pop node q)
  from assms(2) obtain h c where c: "chain s = h # c" "mq_head (queue_of s) = h"
    by (cases "chain s") (auto simp: mpsc_inv_def)
  from pop(2) obtain n where n: "node_next (queue_of s) h = Some n" "node = h"
    "q = (queue_of s)\<lparr>node_value := (node_value (queue_of s))(h := node_value (queue_of s) n), mq_head := n,
       mq_size := mq_size (queue_of s) - 1\<rparr>"
    by (auto simp: MPSCQueue_Pop_def c Let_def split: option.splits)
  with assms(2) obtain c' where c': "c = n # c'" "(h, n) \<notin> links s"
    by (cases c) (auto simp: mpsc_inv_def c split: if_splits)
  then show ?thesis using assms(2) n c by (auto simp: mpsc_inv_def pop(1))
qed

lemma mpsc_reachable_inv: "mpsc_step\<^sup>*\<^sup>* (mpsc_start stub values) s \<Longrightarrow> mpsc_inv s"
proof (induction rule: rtranclp_induct)
  case base
  show ?case by (simp add: mpsc_start_def mpsc_inv_def MPSCQueue_def)
qed (blast intro: mpsc_step_inv)

text \<open>
  C24: the queue is first in, first out, in the order of the exchanges, under every interleaving of
  the steps of producers and consumer.  What has been popped is a prefix of what has been pushed; the
  queue is empty (as \<open>Empty\<close> says) exactly when nothing is owed; a pop that succeeds gives the oldest
  value owed; a pop that finds nothing although something is owed meets a push whose link is still
  to be stored.
\<close>

theorem mpsc_queue_is_fifo:
  assumes "mpsc_step\<^sup>*\<^sup>* (mpsc_start stub values) s"
  shows "\<exists>rest. mq_pushed s = mq_popped s @ rest \<and> (MPSCQueue_Empty (queue_of s) \<longleftrightarrow> rest = []) \<and>
    (\<forall>node q. MPSCQueue_Pop (queue_of s) = (Some node, q) \<longrightarrow> node_value q node = hd rest \<and> rest \<noteq> []) \<and>
    (fst (MPSCQueue_Pop (queue_of s)) = None \<longrightarrow> rest = [] \<or> (\<exists>node. (mq_head (queue_of s), node) \<in> links s))"
proof -
  have inv: "mpsc_inv s" by (rule mpsc_reachable_inv [OF assms])
  then obtain h c where c: "chain s = h # c" "mq_head (queue_of s) = h"
    by (cases "chain s") (auto simp: mpsc_inv_def)
  have "MPSCQueue_Empty (queue_of s) \<longleftrightarrow> c = []"
    using inv by (auto simp: MPSCQueue_Empty_def mpsc_inv_def c)
  then show ?thesis
    using inv
    by (intro exI [of _ "map (node_value (queue_of s)) c"])
      (cases c; auto simp: mpsc_inv_def c MPSCQueue_Pop_def Let_def split: option.splits if_splits)
qed

text \<open>
  The state of the witness: two pushes have exchanged the tail and the second one has stored its link
  first.  A pop finds nothing although two values are owed.
\<close>

definition exchanged :: "nat \<Rightarrow> 'v \<Rightarrow> 'v mpsc_run \<Rightarrow> 'v mpsc_run" where
  "exchanged node v s =
     (let (old_tail, q) = Push_exchange node (Push_count (Node_Set node v (queue_of s)))
      in s\<lparr>queue_of := q, chain := chain s @ [node], links := insert (old_tail, node) (links s),
           mq_pushed := mq_pushed s @ [v]\<rparr>)"

definition linked :: "nat \<Rightarrow> nat \<Rightarrow> 'v mpsc_run \<Rightarrow> 'v mpsc_run" where
  "linked old_tail node s =
     s\<lparr>queue_of := Push_link old_tail node (queue_of s), links := links s - {(old_tail, node)}\<rparr>"

definition overtaken :: "string mpsc_run" where
  "overtaken = linked 1 2 (exchanged 2 ''b'' (exchanged 1 ''a'' (mpsc_start 0 (\<lambda>_. []))))"

lemmas overtaken_defs = overtaken_def linked_def exchanged_def mpsc_start_def MPSCQueue_def
  Push_exchange_def Push_count_def Push_link_def Node_Set_def

lemma exchanged_step:
  "node \<notin> set (chain s) \<Longrightarrow> node_next (queue_of s) node = None \<Longrightarrow> mpsc_step s (exchanged node v s)"
  by (cases "Push_exchange node (Push_count (Node_Set node v (queue_of s)))")
    (simp add: exchanged_def mpsc_step.start)

lemma overtaken_reachable: "mpsc_step\<^sup>*\<^sup>* (mpsc_start 0 (\<lambda>_. [])) overtaken"
proof -
  let ?s0 = "mpsc_start 0 (\<lambda>_. [])"
  let ?s1 = "exchanged 1 ''a'' ?s0"
  let ?s2 = "exchanged 2 ''b'' ?s1"
  have "mpsc_step ?s0 ?s1" "mpsc_step ?s1 ?s2"
    by (rule exchanged_step; simp add: overtaken_defs)+
  moreover have "mpsc_step ?s2 overtaken"
    using mpsc_step.link [of 1 2 ?s2] by (simp add: overtaken_defs)
  ultimately show ?thesis by (meson converse_rtranclp_into_rtranclp r_into_rtranclp)
qed

theorem mpsc_queue_is_fifo_witness:
  "fst (MPSCQueue_Pop (queue_of overtaken)) = None \<and> \<not> MPSCQueue_Empty (queue_of overtaken) \<and>
   (\<exists>node. (mq_head (queue_of overtaken), node) \<in> links overtaken)"
proof -
  have pop: "fst (MPSCQueue_Pop (queue_of overtaken)) = None"
    by (simp add: overtaken_defs MPSCQueue_Pop_def)
  have "mq_pushed overtaken \<noteq> mq_popped overtaken" by (simp add: overtaken_defs)
  with mpsc_queue_is_fifo [OF overtaken_reachable] pop show ?thesis by auto
qed

text \<open>When no push is under way, \<open>Clear\<close> returns and leaves an empty queue.\<close>

lemma Clear_returns:
  assumes "chained (node_next q) {} c" "mq_head q = hd c" "mq_tail q = last c"
  shows "\<exists>q'. MPSCQueue_Clear q = Some q' \<and> MPSCQueue_Empty q'"
  using assms
proof (induction c arbitrary: q)
  case (Cons a c)
  show ?case
  proof (cases c)
    case Nil
    then show ?thesis using Cons.prems by (subst MPSCQueue_Clear.simps) (simp add: MPSCQueue_Pop_def MPSCQueue_Empty_def)
  next
    case c: (Cons b c')
    obtain q1 where p: "MPSCQueue_Pop q = (Some a, q1)" "node_next q1 = node_next q" "mq_head q1 = b" "mq_tail q1 = mq_tail q"
      using Cons.prems by (simp add: c MPSCQueue_Pop_def Let_def)
    then have "\<exists>q'. MPSCQueue_Clear q1 = Some q' \<and> MPSCQueue_Empty q'" using Cons.IH [of q1] Cons.prems by (simp add: c)
    then show ?thesis using p(1) by (subst MPSCQueue_Clear.simps) simp
  qed
qed simp

text \<open>
  A node that was popped still points to its old successor.  Pushing it again without clearing that
  pointer, which only the queue can do, makes the consumer read a value twice: of the two pushes
  below the consumer pops three values.
\<close>

lemma repushed_node_pops_again:
  "let q = MPSCQueue_Push 1 (Node_Set 1 ''a'' (MPSCQueue 0 (\<lambda>_. '''')));
       (r1, q) = MPSCQueue_Pop q;
       q = MPSCQueue_Push (the r1) (Node_Set (the r1) ''b'' q);
       (r2, q) = MPSCQueue_Pop q; v2 = node_value q (the r2);
       (r3, q) = MPSCQueue_Pop q
   in r1 = Some 0 \<and> r2 = Some 1 \<and> v2 = ''b'' \<and> r3 \<noteq> None"
  by code_simp

end
