(* ===== verification/Block_Queue.thy ===== *)
theory Block_Queue
  imports Util Fifo_Spec
begin

text \<open>
  Two more queues of the utilities: \<open>Queue\<close> (\<open>src/src/util/Queue.h\<close>), which keeps its objects in
  blocks of memory from the object cache, and \<open>BlockingQueue\<close> (\<open>src/src/util/BlockingQueue.h\<close>).
\<close>

section \<open>The queue in blocks\<close>

text \<open>
  A position is a block and an index in it.  \<open>bq_mem\<close> holds the objects that have been constructed
  and not destroyed.  The map of blocks, a circular buffer, is the list of its elements.  \<open>n\<close> is
  the number of objects of a block.
\<close>

definition EstimateNumOfObjectsPerBlock :: "int \<Rightarrow> int" where
  "EstimateNumOfObjectsPerBlock aligned_objsize =
     (if aligned_objsize * 32 \<le> kPageSize then kPageSize div aligned_objsize else 32)"

record 'v block_queue =
  bq_map :: "nat list"
  bq_begin :: "nat \<times> nat"
  bq_end :: "nat \<times> nat"
  bq_size :: nat
  bq_mem :: "nat \<times> nat \<rightharpoonup> 'v"
  bq_next :: nat

definition NewBlock :: "'v block_queue \<Rightarrow> nat \<times> 'v block_queue" where
  "NewBlock q = (bq_next q, q\<lparr>bq_next := Suc (bq_next q)\<rparr>)"

definition Queue :: "'v block_queue" where
  "Queue = \<lparr>bq_map = [0], bq_begin = (0, 0), bq_end = (0, 0), bq_size = 0, bq_mem = Map.empty, bq_next = 1\<rparr>"

definition Queue_Push :: "nat \<Rightarrow> 'v \<Rightarrow> 'v block_queue \<Rightarrow> 'v block_queue" where
  "Queue_Push n x q =
     (let q = (if snd (bq_end q) \<ge> n
               then let (b, q) = NewBlock q in q\<lparr>bq_map := bq_map q @ [b], bq_end := (b, 0)\<rparr>
               else q)
      in q\<lparr>bq_mem := (bq_mem q)(bq_end q \<mapsto> x), bq_end := (fst (bq_end q), Suc (snd (bq_end q))),
           bq_size := Suc (bq_size q)\<rparr>)"

text \<open>\<open>None\<close> is a read outside the block, or of memory without an object.\<close>

definition Queue_Front :: "nat \<Rightarrow> 'v block_queue \<Rightarrow> 'v option" where
  "Queue_Front n q = (if snd (bq_begin q) < n then bq_mem q (bq_begin q) else None)"

text \<open>\<open>None\<close>: there is no second block to go to, or no object to destroy.\<close>

definition Queue_Pop :: "nat \<Rightarrow> 'v block_queue \<Rightarrow> 'v block_queue option" where
  "Queue_Pop n q = do {
     q \<leftarrow> (if snd (bq_begin q) \<ge> n
           then (case tl (bq_map q) of
                   b # bs \<Rightarrow> Some (q\<lparr>bq_map := b # bs, bq_begin := (b, 0)\<rparr>)
                 | [] \<Rightarrow> None)
           else Some q);
     _ \<leftarrow> bq_mem q (bq_begin q);
     Some (q\<lparr>bq_mem := (bq_mem q)(bq_begin q := None), bq_begin := (fst (bq_begin q), Suc (snd (bq_begin q))),
             bq_size := bq_size q - 1\<rparr>)
   }"

definition Queue_Size :: "'v block_queue \<Rightarrow> nat" where "Queue_Size q = bq_size q"

definition Queue_Empty :: "'v block_queue \<Rightarrow> bool" where "Queue_Empty q \<longleftrightarrow> Queue_Size q = 0"

definition Queue_Capacity :: "nat \<Rightarrow> 'v block_queue \<Rightarrow> nat" where
  "Queue_Capacity n q = length (bq_map q) * n"

text \<open>\<open>Clear\<close> destroys position by position; \<open>None\<close> is a destructor run on memory without an object.\<close>

primrec destroy_slots :: "(nat \<times> nat) list \<Rightarrow> (nat \<times> nat \<rightharpoonup> 'v) \<Rightarrow> (nat \<times> nat \<rightharpoonup> 'v) option" where
  "destroy_slots [] mem = Some mem"
| "destroy_slots (s # ss) mem =
     (case mem s of None \<Rightarrow> None | Some _ \<Rightarrow> destroy_slots ss (mem(s := None)))"

primrec Clear_loop :: "nat \<Rightarrow> nat list \<Rightarrow> 'v block_queue \<Rightarrow> 'v block_queue option" where
  "Clear_loop n [] q = Some q"
| "Clear_loop n (b # bs) q = do {
     mem \<leftarrow> destroy_slots (map (Pair b) [0..<(if b = fst (bq_end q) then snd (bq_end q) else n)]) (bq_mem q);
     Clear_loop n bs (q\<lparr>bq_mem := mem, bq_map := tl (bq_map q)\<rparr>)
   }"

definition Queue_Clear :: "nat \<Rightarrow> 'v block_queue \<Rightarrow> 'v block_queue option" where
  "Queue_Clear n q = do {
     mem \<leftarrow> destroy_slots (map (Pair (fst (bq_begin q))) [snd (bq_begin q)..<n]) (bq_mem q);
     q \<leftarrow> Clear_loop n (tl (bq_map q)) (q\<lparr>bq_mem := mem\<rparr>);
     Some (q\<lparr>bq_size := 0, bq_begin := (hd (bq_map q), 0), bq_end := (hd (bq_map q), 0)\<rparr>)
   }"

text \<open>The positions in use, from begin to end.\<close>

fun slots :: "nat \<Rightarrow> nat \<Rightarrow> nat \<Rightarrow> nat list \<Rightarrow> (nat \<times> nat) list" where
  "slots n p e [] = []"
| "slots n p e [b] = map (Pair b) [p..<e]"
| "slots n p e (b # c # bs) = map (Pair b) [p..<n] @ slots n 0 e (c # bs)"

definition bq_slots :: "nat \<Rightarrow> 'v block_queue \<Rightarrow> (nat \<times> nat) list" where
  "bq_slots n q = slots n (snd (bq_begin q)) (snd (bq_end q)) (bq_map q)"

definition bq_items :: "nat \<Rightarrow> 'v block_queue \<Rightarrow> 'v list" where
  "bq_items n q = map (\<lambda>s. the (bq_mem q s)) (bq_slots n q)"

definition bq_inv :: "nat \<Rightarrow> 'v block_queue \<Rightarrow> bool" where
  "bq_inv n q \<longleftrightarrow> 0 < n \<and> bq_map q \<noteq> [] \<and> distinct (bq_map q) \<and> (\<forall>b\<in>set (bq_map q). b < bq_next q) \<and>
     fst (bq_begin q) = hd (bq_map q) \<and> fst (bq_end q) = last (bq_map q) \<and>
     snd (bq_begin q) \<le> n \<and> snd (bq_end q) \<le> n \<and>
     (length (bq_map q) = 1 \<longrightarrow> snd (bq_begin q) \<le> snd (bq_end q)) \<and>
     (\<forall>s\<in>set (bq_slots n q). bq_mem q s \<noteq> None) \<and> bq_size q = length (bq_slots n q)"

lemma slots_Suc:
  "m \<noteq> [] \<Longrightarrow> (length m = 1 \<longrightarrow> p \<le> e) \<Longrightarrow> slots n p (Suc e) m = slots n p e m @ [(last m, e)]"
proof (induction m arbitrary: p)
  case (Cons b m)
  then show ?case by (cases m) auto
qed simp

lemma slots_new_block:
  "m \<noteq> [] \<Longrightarrow> slots n p 0 (m @ [b]) = slots n p n m"
proof (induction m arbitrary: p)
  case (Cons a m)
  then show ?case by (cases m) auto
qed simp

lemma slots_blocks: "s \<in> set (slots n p e m) \<Longrightarrow> fst s \<in> set m"
  by (induction n p e m rule: slots.induct) auto

lemma slots_below_end: "distinct m \<Longrightarrow> (last m, e) \<notin> set (slots n p e m)"
proof (induction m arbitrary: p)
  case (Cons b m)
  then show ?case by (cases m) auto
qed simp

lemma slots_distinct: "distinct m \<Longrightarrow> distinct (slots n p e m)"
proof (induction n p e m rule: slots.induct)
  case (3 n p e b c bs)
  have "map (Pair b) [p..<n] @ slots n 0 e (c # bs) = slots n p e (b # c # bs)" by simp
  moreover have "set (map (Pair b) [p..<n]) \<inter> set (slots n 0 e (c # bs)) = {}"
    using 3(2) slots_blocks [of _ n 0 e "c # bs"] by fastforce
  ultimately show ?case using 3 by (simp add: distinct_map inj_on_def)
qed (auto simp: distinct_map inj_on_def)

lemma bq_inv_Queue: "0 < n \<Longrightarrow> bq_inv n Queue" "bq_items n Queue = []"
  by (simp_all add: bq_inv_def Queue_def bq_slots_def bq_items_def)

text \<open>Making room at the end changes neither the objects nor the invariant.\<close>

lemma Queue_grow:
  assumes "bq_inv n q" "snd (bq_end q) = n"
  defines "q' \<equiv> q\<lparr>bq_next := Suc (bq_next q), bq_map := bq_map q @ [bq_next q], bq_end := (bq_next q, 0)\<rparr>"
  shows "bq_inv n q'" "bq_slots n q' = bq_slots n q"
proof -
  have ne: "bq_map q \<noteq> []" using assms(1) by (simp add: bq_inv_def)
  show sl: "bq_slots n q' = bq_slots n q"
    unfolding bq_slots_def q'_def using slots_new_block [OF ne] assms(2) by simp
  have mem: "\<forall>s\<in>set (bq_slots n q'). bq_mem q' s \<noteq> None" "bq_size q' = length (bq_slots n q')"
    unfolding sl using assms(1) by (simp_all add: bq_inv_def q'_def)
  have fresh: "bq_next q \<notin> set (bq_map q)" "\<forall>b\<in>set (bq_map q). b < Suc (bq_next q)"
    using assms(1) by (auto simp: bq_inv_def)
  show "bq_inv n q'"
    unfolding bq_inv_def using assms(1) mem fresh ne by (simp add: bq_inv_def q'_def)
qed

lemma Queue_Push_append:
  assumes "bq_inv n q"
  shows "bq_inv n (Queue_Push n x q) \<and> bq_items n (Queue_Push n x q) = bq_items n q @ [x]"
proof -
  define q1 where "q1 = (if snd (bq_end q) \<ge> n
    then q\<lparr>bq_next := Suc (bq_next q), bq_map := bq_map q @ [bq_next q], bq_end := (bq_next q, 0)\<rparr> else q)"
  have q1: "bq_inv n q1" "bq_slots n q1 = bq_slots n q" "snd (bq_end q1) < n" "bq_mem q1 = bq_mem q"
    using assms Queue_grow [OF assms] by (auto simp: q1_def bq_inv_def)
  let ?s = "(last (bq_map q1), snd (bq_end q1))"
  have e: "bq_end q1 = ?s" using q1(1) by (simp add: bq_inv_def prod_eq_iff)
  define q2 where "q2 = q1\<lparr>bq_mem := (bq_mem q1)(?s \<mapsto> x), bq_end := (last (bq_map q1), Suc (snd (bq_end q1))),
    bq_size := Suc (bq_size q1)\<rparr>"
  have push: "Queue_Push n x q = q2"
    using assms by (simp add: Queue_Push_def NewBlock_def q2_def Let_def e [symmetric])
      (simp add: q1_def bq_inv_def)
  have sl: "bq_slots n q2 = bq_slots n q1 @ [?s]"
    using slots_Suc [of "bq_map q1" "snd (bq_begin q1)" "snd (bq_end q1)" n] q1(1)
    by (simp add: bq_slots_def q2_def bq_inv_def)
  have "?s \<notin> set (bq_slots n q1)"
    using slots_below_end q1(1) by (auto simp: bq_slots_def bq_inv_def)
  then have "bq_items n q2 = bq_items n q @ [x]"
    using q1(2,4) by (auto simp: bq_items_def sl) (auto simp: q2_def)
  moreover have "bq_inv n q2"
    unfolding bq_inv_def sl using q1(1,3) by (auto simp: bq_inv_def q2_def)
  ultimately show ?thesis using push by simp
qed

lemma slots_Cons:
  "m \<noteq> [] \<Longrightarrow> p < n \<Longrightarrow> (length m = 1 \<longrightarrow> p < e) \<Longrightarrow> slots n p e m = (hd m, p) # slots n (Suc p) e m"
  by (cases m; cases "tl m") (auto simp: upt_conv_Cons)

lemma slots_empty_block: "bq_inv n q \<Longrightarrow> bq_items n q \<noteq> [] \<Longrightarrow> snd (bq_begin q) = n \<Longrightarrow>
   \<exists>b c bs. bq_map q = b # c # bs"
  by (cases "bq_map q"; cases "tl (bq_map q)") (auto simp: bq_inv_def bq_items_def bq_slots_def)

text \<open>Leaving an exhausted block changes neither the objects nor the invariant.\<close>

lemma Queue_advance:
  assumes "bq_inv n q" "bq_items n q \<noteq> []" "snd (bq_begin q) = n"
  obtains c bs where "tl (bq_map q) = c # bs"
    "bq_inv n (q\<lparr>bq_map := c # bs, bq_begin := (c, 0)\<rparr>)"
    "bq_slots n (q\<lparr>bq_map := c # bs, bq_begin := (c, 0)\<rparr>) = bq_slots n q"
proof -
  obtain b c bs where m: "bq_map q = b # c # bs" using slots_empty_block [OF assms] by blast
  let ?q = "q\<lparr>bq_map := c # bs, bq_begin := (c, 0)\<rparr>"
  have sl: "bq_slots n ?q = bq_slots n q" using assms(3) by (simp add: bq_slots_def m)
  have "bq_inv n ?q" unfolding bq_inv_def sl using assms(1) by (simp add: bq_inv_def m)
  then show thesis using that m sl by simp
qed

lemma Queue_drop_first:
  assumes "bq_inv n q" "bq_items n q \<noteq> []" "snd (bq_begin q) < n"
  defines "q' \<equiv> q\<lparr>bq_mem := (bq_mem q)(bq_begin q := None), bq_begin := (fst (bq_begin q), Suc (snd (bq_begin q))),
             bq_size := bq_size q - 1\<rparr>"
  shows "bq_mem q (bq_begin q) = Some (hd (bq_items n q))" "bq_inv n q'" "bq_items n q' = tl (bq_items n q)"
proof -
  let ?m = "bq_map q" and ?p = "snd (bq_begin q)" and ?e = "snd (bq_end q)"
  have m: "?m \<noteq> []" "bq_begin q = (hd ?m, ?p)" "distinct ?m" using assms(1) by (simp_all add: bq_inv_def prod_eq_iff)
  have one: "length ?m = 1 \<longrightarrow> ?p < ?e"
    using assms(2) by (cases ?m; cases "tl ?m") (auto simp: bq_items_def bq_slots_def)
  have sl: "bq_slots n q = (hd ?m, ?p) # bq_slots n q'"
    using slots_Cons [OF m(1) assms(3) one] by (simp add: bq_slots_def q'_def)
  have dist: "(hd ?m, ?p) \<notin> set (bq_slots n q')"
    using slots_distinct [OF m(3), of n ?p ?e] sl by (simp add: bq_slots_def)
  have mem: "bq_mem q' s = bq_mem q s" if "s \<in> set (bq_slots n q')" for s
    using that dist m(2) by (auto simp: q'_def)
  show "bq_mem q (bq_begin q) = Some (hd (bq_items n q))"
    using assms(1) m(2) by (auto simp: bq_items_def sl bq_inv_def)
  show "bq_items n q' = tl (bq_items n q)" using mem by (simp add: bq_items_def sl)
  have "\<forall>s\<in>set (bq_slots n q'). bq_mem q' s \<noteq> None" using assms(1) mem sl by (auto simp: bq_inv_def)
  moreover have "bq_size q = length (bq_slots n q)" using assms(1) by (simp add: bq_inv_def)
  then have "bq_size q' = length (bq_slots n q')" unfolding sl by (simp add: q'_def)
  ultimately show "bq_inv n q'"
    unfolding bq_inv_def using assms(1,3) one by (simp add: bq_inv_def q'_def Suc_le_eq)
qed

text \<open>\<open>Pop\<close> removes the oldest object of a queue that is not empty.\<close>

lemma Queue_Pop_tail:
  assumes "bq_inv n q" "bq_items n q \<noteq> []"
  shows "\<exists>q'. Queue_Pop n q = Some q' \<and> bq_inv n q' \<and> bq_items n q' = tl (bq_items n q)"
proof (cases "snd (bq_begin q) < n")
  case True
  then show ?thesis using Queue_drop_first [OF assms True] by (simp add: Queue_Pop_def)
next
  case False
  then have p: "snd (bq_begin q) = n" using assms(1) by (simp add: bq_inv_def)
  from Queue_advance [OF assms p] obtain c bs where c: "tl (bq_map q) = c # bs"
    "bq_inv n (q\<lparr>bq_map := c # bs, bq_begin := (c, 0)\<rparr>)"
    "bq_slots n (q\<lparr>bq_map := c # bs, bq_begin := (c, 0)\<rparr>) = bq_slots n q" by blast
  let ?q = "q\<lparr>bq_map := c # bs, bq_begin := (c, 0)\<rparr>"
  have it: "bq_items n ?q = bq_items n q" using c(3) by (simp add: bq_items_def)
  have "snd (bq_begin ?q) < n" using assms(1) by (simp add: bq_inv_def)
  from Queue_drop_first [OF c(2) _ this] it assms(2) show ?thesis
    using p c(1) by (simp add: Queue_Pop_def)
qed

lemma Queue_Size_items: "bq_inv n q \<Longrightarrow> Queue_Size q = length (bq_items n q)"
  by (simp add: bq_inv_def bq_items_def Queue_Size_def)

text \<open>
  \<open>Front\<close> gives the oldest object, except when the first block has just been used up: \<open>Front\<close> does
  not go to the next block as \<open>Pop\<close> does, and reads behind the end of the first one.
\<close>

lemma Queue_Front_head:
  assumes "bq_inv n q" "bq_items n q \<noteq> []"
  shows "Queue_Front n q = (if snd (bq_begin q) < n then Some (hd (bq_items n q)) else None)"
  using Queue_drop_first(1) [OF assms] by (simp add: Queue_Front_def)

lemma Queue_Front_outside_block:
  "\<exists>q. Queue_Pop 2 (Queue_Push 2 ''c'' (Queue_Push 2 ''b'' (Queue_Push 2 ''a'' Queue))) = Some q \<and>
     (\<exists>q'. Queue_Pop 2 q = Some q' \<and> Queue_Size q' = 1 \<and> Queue_Front 2 q' = None)"
  by (simp add: Queue_def Queue_Push_def Queue_Pop_def Queue_Size_def Queue_Front_def NewBlock_def)

text \<open>A block holds at least 32 objects, and more only while they fit into a page.\<close>

lemma objects_per_block:
  assumes "0 < sz"
  shows "32 \<le> EstimateNumOfObjectsPerBlock sz"
    and "32 < EstimateNumOfObjectsPerBlock sz \<Longrightarrow> EstimateNumOfObjectsPerBlock sz * sz \<le> kPageSize"
proof -
  have "32 \<le> kPageSize div sz" if "sz * 32 \<le> kPageSize"
    using zdiv_mono1 [OF that assms] assms by simp
  moreover have "kPageSize div sz * sz \<le> kPageSize"
    using minus_mod_eq_div_mult [of kPageSize sz] pos_mod_sign [OF assms, of kPageSize] by linarith
  ultimately show "32 \<le> EstimateNumOfObjectsPerBlock sz"
    and "32 < EstimateNumOfObjectsPerBlock sz \<Longrightarrow> EstimateNumOfObjectsPerBlock sz * sz \<le> kPageSize"
    by (auto simp: EstimateNumOfObjectsPerBlock_def split: if_splits)
qed

subsection \<open>Clearing\<close>

lemma destroy_slots_append:
  "destroy_slots (ss @ ss') mem = Option.bind (destroy_slots ss mem) (destroy_slots ss')"
  by (induction ss arbitrary: mem) (simp_all split: option.splits)

lemma destroy_slots_total:
  "distinct ss \<Longrightarrow> \<forall>s\<in>set ss. mem s \<noteq> None \<Longrightarrow> \<exists>mem'. destroy_slots ss mem = Some mem'"
proof (induction ss arbitrary: mem)
  case (Cons s ss)
  then have "\<forall>t\<in>set ss. (mem(s := None)) t \<noteq> None" by auto
  with Cons show ?case by auto
qed simp

lemma Clear_loop_destroys:
  assumes "distinct bs" "bs \<noteq> []" "last bs = fst (bq_end q)"
  shows "Clear_loop n bs q = do {
    mem \<leftarrow> destroy_slots (slots n 0 (snd (bq_end q)) bs) (bq_mem q);
    Some (q\<lparr>bq_mem := mem, bq_map := drop (length bs) (bq_map q)\<rparr>) }"
  using assms
proof (induction bs arbitrary: q)
  case (Cons b bs)
  show ?case
  proof (cases bs)
    case Nil
    with Cons.prems show ?thesis by (simp add: drop_Suc)
  next
    case bs: (Cons c cs)
    have "b \<noteq> fst (bq_end q)" using Cons.prems last_in_set [of bs] bs by (auto simp del: last_in_set)
    moreover have "Clear_loop n bs (q\<lparr>bq_mem := mem, bq_map := tl (bq_map q)\<rparr>) = do {
        mem \<leftarrow> destroy_slots (slots n 0 (snd (bq_end q)) bs) mem;
        Some (q\<lparr>bq_mem := mem, bq_map := drop (length bs) (tl (bq_map q))\<rparr>) }" for mem
      using Cons.IH [of "q\<lparr>bq_mem := mem, bq_map := tl (bq_map q)\<rparr>"] Cons.prems bs by simp
    ultimately show ?thesis
      by (simp add: bs destroy_slots_append drop_Suc bind_assoc)
  qed
qed simp

lemma drop_length_last: "drop (length xs) (x # xs) = [last (x # xs)]"
  by (induction xs arbitrary: x) simp_all

text \<open>
  \<open>Clear\<close> empties a queue whose first block has been filled.  As long as it has not, the first loop
  runs destructors on memory that never held an object; so does the destructor of the empty queue.
\<close>

lemma Queue_Clear_empties:
  assumes "bq_inv n q" "1 < length (bq_map q)"
  shows "\<exists>q'. Queue_Clear n q = Some q' \<and> bq_inv n q' \<and> bq_items n q' = []"
proof -
  obtain b c cs where m: "bq_map q = b # c # cs"
    using assms(2) by (cases "bq_map q"; cases "tl (bq_map q)") auto
  have inv: "fst (bq_begin q) = b" "last (c # cs) = fst (bq_end q)" "distinct (c # cs)"
    using assms(1) by (simp_all add: bq_inv_def m)
  obtain mem' where mem': "destroy_slots (bq_slots n q) (bq_mem q) = Some mem'"
    using destroy_slots_total [of "bq_slots n q" "bq_mem q"] slots_distinct assms(1)
    by (auto simp: bq_inv_def bq_slots_def)
  then obtain mem where mem:
    "destroy_slots (map (Pair b) [snd (bq_begin q)..<n]) (bq_mem q) = Some mem"
    "destroy_slots (slots n 0 (snd (bq_end q)) (c # cs)) mem = Some mem'"
    by (auto simp: bq_slots_def m destroy_slots_append bind_eq_Some_conv)
  obtain l where l: "drop (length (c # cs)) (bq_map q) = [l]" "l \<in> set (bq_map q)"
  proof
    show "drop (length (c # cs)) (bq_map q) = [last (bq_map q)]"
      using drop_length_last [of "c # cs" b] by (simp add: m)
    show "last (bq_map q) \<in> set (bq_map q)" by (rule last_in_set) (simp add: m)
  qed
  have "Queue_Clear n q = Some (q\<lparr>bq_mem := mem', bq_map := [l], bq_size := 0,
      bq_begin := (l, 0), bq_end := (l, 0)\<rparr>)"
    using Clear_loop_destroys [of "c # cs" "q\<lparr>bq_mem := mem\<rparr>" n] inv mem l(1)
    by (simp add: Queue_Clear_def m del: Clear_loop.simps)
  then show ?thesis using assms(1) l(2) by (simp add: bq_inv_def bq_items_def bq_slots_def)
qed

lemma Queue_Clear_of_empty: "0 < n \<Longrightarrow> Queue_Clear n Queue = None"
  by (cases n) (simp_all add: Queue_Clear_def Queue_def upt_conv_Cons del: upt_Suc)

section \<open>The blocking queue\<close>

text \<open>
  The queue with its mutex: every operation is one step.  \<open>pop\<close> waits until the queue has an element
  or its thread is interrupted; \<open>None\<close> says that it still waits.  Notifications only wake waiting
  threads up to look again.
\<close>

definition BlockingQueue_push :: "'v \<Rightarrow> 'v list \<Rightarrow> 'v list" where
  "BlockingQueue_push x q = q @ [x]"

definition pushAndFetchSize :: "'v \<Rightarrow> 'v list \<Rightarrow> nat \<times> 'v list" where
  "pushAndFetchSize x q = (let q = q @ [x] in (length q, q))"

definition BlockingQueue_pop :: "bool \<Rightarrow> 'v list \<Rightarrow> (bool \<times> 'v option \<times> 'v list) option" where
  "BlockingQueue_pop interrupted q =
     (if q \<noteq> [] \<or> interrupted
      then (if interrupted then Some (False, None, q) else Some (True, Some (hd q), tl q))
      else None)"

definition BlockingQueue_empty :: "'v list \<Rightarrow> bool" where "BlockingQueue_empty q \<longleftrightarrow> q = []"

definition BlockingQueue_size :: "'v list \<Rightarrow> nat" where "BlockingQueue_size q = length q"

lemma BlockingQueue_fifo:
  "BlockingQueue_pop False (BlockingQueue_push x q) = Some (True, Some (hd (q @ [x])), tl (q @ [x]))"
  "BlockingQueue_pop True q = Some (False, None, q)"
  "pushAndFetchSize x q = (Suc (BlockingQueue_size q), BlockingQueue_push x q)"
  by (simp_all add: BlockingQueue_pop_def BlockingQueue_push_def pushAndFetchSize_def BlockingQueue_size_def)

text \<open>Without interrupts the blocking queue keeps the contract of a queue.\<close>

definition BlockingQueue_take :: "'v list \<Rightarrow> ('v \<times> 'v list) option" where
  "BlockingQueue_take q =
     (case BlockingQueue_pop False q of Some (True, Some x, q) \<Rightarrow> Some (x, q) | _ \<Rightarrow> None)"

interpretation blocking: fifo_queue "\<lambda>_. True" "\<lambda>q. q" limit BlockingQueue_push BlockingQueue_take
  by unfold_locales (auto simp: BlockingQueue_push_def BlockingQueue_take_def BlockingQueue_pop_def)

end
