(* ===== verification/Thread_Exit.thy ===== *)
theory Thread_Exit
  imports Mcast_Prelude
begin

text \<open>
  Threads and their exit callbacks: \<open>src/src/util/Thread.h\<close>.  A callback is a function on the
  state \<open>'w\<close> of the program.  The last section is about the handles of threads, \<open>Thread\<close>, over
  \<open>std::thread\<close> as the standard describes it.
\<close>

section \<open>The thread object\<close>

record 'w thread_impl =
  thr_interrupted :: bool
  thr_atexit :: "('w \<Rightarrow> 'w) list"

definition ThreadImpl :: "'w thread_impl" where
  "ThreadImpl = \<lparr>thr_interrupted = False, thr_atexit = []\<rparr>"

definition ThreadImpl_Interrupt :: "'w thread_impl \<Rightarrow> 'w thread_impl" where
  "ThreadImpl_Interrupt th = th\<lparr>thr_interrupted := True\<rparr>"

definition ThreadImpl_IsInterrupted :: "'w thread_impl \<Rightarrow> bool" where
  "ThreadImpl_IsInterrupted th = thr_interrupted th"

definition ThreadImpl_AtExit :: "('w \<Rightarrow> 'w) \<Rightarrow> 'w thread_impl \<Rightarrow> 'w thread_impl" where
  "ThreadImpl_AtExit cb th = th\<lparr>thr_atexit := thr_atexit th @ [cb]\<rparr>"

text \<open>The loop that calls the callbacks, in the order of the vector.\<close>

primrec run_atexit :: "('w \<Rightarrow> 'w) list \<Rightarrow> 'w \<Rightarrow> 'w" where
  "run_atexit [] w = w"
| "run_atexit (cb # cbs) w = run_atexit cbs (cb w)"

section \<open>The current thread\<close>

text \<open>
  \<open>s_self\<close> is null outside the threads of the library; \<open>s_at_thread_exit\<close> is the object whose
  destructor runs the callbacks of the other threads.
\<close>

record 'w thread_data =
  s_self :: "'w thread_impl option"
  s_at_thread_exit :: "('w \<Rightarrow> 'w) list"

definition AtThreadExitCaller_AtExit :: "('w \<Rightarrow> 'w) \<Rightarrow> 'w thread_data \<Rightarrow> 'w thread_data" where
  "AtThreadExitCaller_AtExit cb td = td\<lparr>s_at_thread_exit := s_at_thread_exit td @ [cb]\<rparr>"

definition AtThreadExitCaller_destroy :: "'w thread_data \<Rightarrow> 'w \<Rightarrow> 'w thread_data \<times> 'w" where
  "AtThreadExitCaller_destroy td w =
     (td\<lparr>s_at_thread_exit := []\<rparr>, run_atexit (s_at_thread_exit td) w)"

definition this_thread_AtExit :: "('w \<Rightarrow> 'w) \<Rightarrow> 'w thread_data \<Rightarrow> 'w thread_data" where
  "this_thread_AtExit cb td =
     (case s_self td of
        Some th \<Rightarrow> td\<lparr>s_self := Some (ThreadImpl_AtExit cb th)\<rparr>
      | None \<Rightarrow> AtThreadExitCaller_AtExit cb td)"

text \<open>\<open>None\<close> is the null dereference outside the threads of the library.\<close>

definition this_thread_IsInterrupted :: "'w thread_data \<Rightarrow> bool option" where
  "this_thread_IsInterrupted td = map_option ThreadImpl_IsInterrupted (s_self td)"

definition this_thread_Interrupt :: "'w thread_data \<Rightarrow> 'w thread_data option" where
  "this_thread_Interrupt td =
     (case s_self td of
        None \<Rightarrow> None
      | Some th \<Rightarrow> Some (td\<lparr>s_self := Some (ThreadImpl_Interrupt th)\<rparr>))"

text \<open>
  \<open>ThreadMain\<close>: the thread's function runs with \<open>s_self\<close> set, then the callbacks it has registered.
  Only \<open>ThreadMain\<close> assigns \<open>s_self\<close>, so the function leaves it set.
\<close>

definition Thread_ThreadMain ::
  "'w thread_impl \<Rightarrow> ('w thread_data \<times> 'w \<Rightarrow> 'w thread_data \<times> 'w) \<Rightarrow>
   'w thread_data \<times> 'w \<Rightarrow> ('w thread_data \<times> 'w) option" where
  "Thread_ThreadMain impl f st =
     (let (td, w) = f ((fst st)\<lparr>s_self := Some impl\<rparr>, snd st)
      in case s_self td of
           None \<Rightarrow> None
         | Some th \<Rightarrow>
             Some (td\<lparr>s_self := Some (th\<lparr>thr_atexit := []\<rparr>)\<rparr>, run_atexit (thr_atexit th) w))"

section \<open>Facts\<close>

lemma run_atexit_append: "run_atexit (cbs @ cbs') w = run_atexit cbs' (run_atexit cbs w)"
  by (induction cbs arbitrary: w) simp_all

lemma registered_self:
  assumes "s_self td = Some th"
  shows "fold this_thread_AtExit cbs td =
    td\<lparr>s_self := Some (th\<lparr>thr_atexit := thr_atexit th @ cbs\<rparr>)\<rparr>"
  using assms
proof (induction cbs arbitrary: td th)
  case Nil
  then show ?case by (cases td) simp
next
  case (Cons cb cbs)
  have "s_self (this_thread_AtExit cb td) = Some (ThreadImpl_AtExit cb th)"
    using Cons.prems by (simp add: this_thread_AtExit_def)
  from Cons.IH [OF this] show ?case
    using Cons.prems by (simp add: this_thread_AtExit_def ThreadImpl_AtExit_def)
qed

lemma registered_other:
  assumes "s_self td = None"
  shows "fold this_thread_AtExit cbs td = td\<lparr>s_at_thread_exit := s_at_thread_exit td @ cbs\<rparr>"
  using assms
  by (induction cbs arbitrary: td) (simp_all add: this_thread_AtExit_def AtThreadExitCaller_AtExit_def)

text \<open>
  Callbacks registered by the running thread are called once each, in order, when its function has
  returned, whichever kind of thread it is.
\<close>

lemma thread_runs_callbacks:
  "\<exists>td'. Thread_ThreadMain ThreadImpl (\<lambda>(td, w). (fold this_thread_AtExit cbs td, g w)) (td, w)
     = Some (td', run_atexit cbs (g w))"
  by (simp add: Thread_ThreadMain_def ThreadImpl_def registered_self)

lemma foreign_thread_runs_callbacks:
  assumes "s_self td = None" and "s_at_thread_exit td = []"
  shows "snd (AtThreadExitCaller_destroy (fold this_thread_AtExit cbs td) w) = run_atexit cbs w"
  using assms by (simp add: AtThreadExitCaller_destroy_def registered_other)

lemma this_thread_interrupt:
  "this_thread_Interrupt td = Some td' \<Longrightarrow> this_thread_IsInterrupted td' = Some True"
  by (auto simp: this_thread_Interrupt_def this_thread_IsInterrupted_def ThreadImpl_Interrupt_def
      ThreadImpl_IsInterrupted_def split: option.splits)

section \<open>Handles of threads\<close>

text \<open>
  A \<open>ThreadImpl\<close> is shared by the \<open>Thread\<close> that owns it and by the running \<open>ThreadMain\<close>, which gives
  up its pointer last of all; \<open>joinable\<close> is the state of its \<open>std::thread\<close>.  The standard ends the
  program when a joinable \<open>std::thread\<close> is destroyed or assigned to, and throws when one that is not
  joinable is joined: the value \<open>None\<close>, as is the use of a null \<open>impl_\<close>.
\<close>

record shared_thread =
  owned :: bool
  in_main :: bool
  joinable :: bool

definition Thread :: shared_thread where
  "Thread = \<lparr>owned = True, in_main = False, joinable = False\<rparr>"

text \<open>The end of the last pointer destroys the \<open>ThreadImpl\<close> and its \<open>std::thread\<close>.\<close>

definition impl_released :: "shared_thread \<Rightarrow> shared_thread option" where
  "impl_released th = do { CHECK (owned th \<or> in_main th \<or> \<not> joinable th); Some th }"

definition Thread_Run :: "shared_thread \<Rightarrow> shared_thread option" where
  "Thread_Run th = do { CHECK (owned th \<and> \<not> joinable th); Some (th\<lparr>in_main := True, joinable := True\<rparr>) }"

text \<open>\<open>Join\<close> when it returns, which it does once the thread has ended.\<close>

definition Thread_Join :: "shared_thread \<Rightarrow> shared_thread option" where
  "Thread_Join th = do { CHECK (owned th \<and> joinable th); Some (th\<lparr>joinable := False\<rparr>) }"

definition Thread_Joinable :: "shared_thread \<Rightarrow> bool option" where
  "Thread_Joinable th = (if owned th then Some (joinable th) else None)"

text \<open>The end of \<open>ThreadMain\<close>, \<open>impl_ptr.reset()\<close>.\<close>

definition ThreadMain_reset :: "shared_thread \<Rightarrow> shared_thread option" where
  "ThreadMain_reset th = impl_released (th\<lparr>in_main := False\<rparr>)"

text \<open>The destructor of the owning \<open>Thread\<close>, or another thread being moved into it.\<close>

definition Thread_drop :: "shared_thread \<Rightarrow> shared_thread option" where
  "Thread_drop th = impl_released (th\<lparr>owned := False\<rparr>)"

text \<open>Moving hands the pointer over; the source is left with a null pointer.\<close>

definition Thread_move :: "'i option \<Rightarrow> 'i option \<times> 'i option" where
  "Thread_move other = (other, None)"

text \<open>What can happen to a thread and its handle, and when.\<close>

datatype thread_event = EvRun | EvEnd | EvJoin | EvDrop

fun thread_enabled :: "thread_event \<Rightarrow> shared_thread \<Rightarrow> bool" where
  "thread_enabled EvRun th \<longleftrightarrow> owned th \<and> \<not> joinable th \<and> \<not> in_main th"
| "thread_enabled EvEnd th \<longleftrightarrow> in_main th"
| "thread_enabled EvJoin th \<longleftrightarrow> owned th \<and> joinable th \<and> \<not> in_main th"
| "thread_enabled EvDrop th \<longleftrightarrow> owned th"

fun happens :: "thread_event \<Rightarrow> shared_thread \<Rightarrow> shared_thread option" where
  "happens EvRun = Thread_Run"
| "happens EvEnd = ThreadMain_reset"
| "happens EvJoin = Thread_Join"
| "happens EvDrop = Thread_drop"

text \<open>
  A handle that is dropped only when its thread is not joinable never ends the program, in whatever
  order the thread and its owner proceed.
\<close>

fun joined_before_drop :: "thread_event list \<Rightarrow> shared_thread \<Rightarrow> bool" where
  "joined_before_drop [] th = True"
| "joined_before_drop (e # es) th \<longleftrightarrow>
     thread_enabled e th \<and> (e = EvDrop \<longrightarrow> \<not> joinable th) \<and>
     (\<forall>th'. happens e th = Some th' \<longrightarrow> joined_before_drop es th')"

fun thread_events :: "thread_event list \<Rightarrow> shared_thread \<Rightarrow> shared_thread option" where
  "thread_events [] th = Some th"
| "thread_events (e # es) th = do { th \<leftarrow> happens e th; thread_events es th }"

lemma joined_handles_are_safe:
  assumes "joined_before_drop es th" "owned th \<or> \<not> joinable th"
  shows "\<exists>th'. thread_events es th = Some th' \<and> (owned th' \<or> \<not> joinable th')"
  using assms
proof (induction es arbitrary: th)
  case (Cons e es)
  have "\<exists>th'. happens e th = Some th' \<and> (owned th' \<or> \<not> joinable th')"
    using Cons.prems
    by (cases e) (auto simp: Thread_Run_def ThreadMain_reset_def Thread_Join_def Thread_drop_def impl_released_def)
  then show ?case using Cons.IH Cons.prems(1) by auto
qed simp

text \<open>
  A handle that is dropped while its thread runs: the thread destroys its own \<open>std::thread\<close> when
  \<open>ThreadMain\<close> gives up the last pointer, and the program ends.
\<close>

lemma dropped_thread_ends_program:
  "thread_events [EvRun, EvDrop] Thread \<noteq> None" "thread_events [EvRun, EvDrop, EvEnd] Thread = None"
  "thread_events [EvRun, EvEnd, EvDrop] Thread = None"
  "thread_events [EvRun, EvEnd, EvJoin, EvDrop] Thread \<noteq> None"
  by (simp_all add: Thread_def Thread_Run_def ThreadMain_reset_def Thread_Join_def Thread_drop_def impl_released_def)

end
