(* ===== verification/Time_Stamp.thy ===== *)
theory Time_Stamp
  imports Util "HOL-Library.Signed_Division" "HOL-Library.Sublist"
begin

text \<open>
  Time stamps from the cycle counter (\<open>src/src/util/Timer.h\<close>, \<open>src/src/util/Timer.cpp\<close>) and dates
  (\<open>src/src/util/DateTime.h\<close>).  The counter, the clocks, \<open>localtime_r\<close> and the contents of
  \<open>/proc/cpuinfo\<close> are arguments.
\<close>

section \<open>The frequency of the cycle counter\<close>

text \<open>\<open>memmem\<close> returns the haystack from the first occurrence of the needle on.\<close>

fun memmem :: "string \<Rightarrow> string \<Rightarrow> string option" where
  "memmem hay needle =
     (if prefix needle hay then Some hay
      else case hay of [] \<Rightarrow> None | _ # rest \<Rightarrow> memmem rest needle)"

declare memmem.simps [simp del]

definition newline :: char where "newline = CHR 0x0A"

text \<open>The loop over the characters of the number; \<open>result\<close>, \<open>seen_decpoint\<close>, \<open>ndigits\<close>.\<close>

fun mhz_digits :: "string \<Rightarrow> u64 \<Rightarrow> bool \<Rightarrow> nat \<Rightarrow> u64 \<times> nat" where
  "mhz_digits [] result seen_decpoint ndigits = (result, ndigits)"
| "mhz_digits (c # cs) result seen_decpoint ndigits =
     (if c = newline then (result, ndigits)
      else if is_digit c
      then mhz_digits cs (result * 10 + word_of_int (digit_value c)) seen_decpoint
             (if seen_decpoint then ndigits + 1 else ndigits)
      else if c = CHR ''.'' then mhz_digits cs result True ndigits
      else mhz_digits cs result seen_decpoint ndigits)"

text \<open>The loop that compensates for missing digits.\<close>

function mhz_compensate :: "nat \<Rightarrow> u64 \<Rightarrow> u64" where
  "mhz_compensate ndigits result =
     (if ndigits < 6 then mhz_compensate (ndigits + 1) (result * 10) else result)"
  by auto
termination by (relation "measure (\<lambda>(n, _). 6 - n)") auto

declare mhz_compensate.simps [simp del]

definition parse_mhz :: "string \<Rightarrow> u64" where
  "parse_mhz mhz =
     (let mhz = dropWhile (\<lambda>c. \<not> is_digit c \<and> c \<noteq> newline) mhz;
          (result, ndigits) = mhz_digits mhz 0 False 0
      in mhz_compensate ndigits result)"

text \<open>
  \<open>cpuinfo\<close> is \<open>None\<close> when the file cannot be opened, else what it holds; one \<open>read\<close> gets at most
  4096 bytes of it.  The results are the frequency and \<open>*invariant_tsc\<close>, given its value before.
\<close>

definition ReadCpuFrequency :: "string option \<Rightarrow> bool \<Rightarrow> u64 \<times> bool" where
  "ReadCpuFrequency cpuinfo invariant_tsc =
     (case cpuinfo of
        None \<Rightarrow> (0, invariant_tsc)
      | Some content \<Rightarrow>
          let buf = take 4096 content
          in if buf \<noteq> []
             then ((case memmem buf ''cpu MHz'' of None \<Rightarrow> 0 | Some mhz \<Rightarrow> parse_mhz mhz),
                   (case memmem buf ''flags'' of
                      None \<Rightarrow> False
                    | Some flags_pos \<Rightarrow> memmem flags_pos ''constant_tsc'' \<noteq> None
                        \<and> memmem flags_pos ''nonstop_tsc'' \<noteq> None))
             else (0, invariant_tsc))"

definition ReadInvariantCpuFrequency :: "string option \<Rightarrow> u64" where
  "ReadInvariantCpuFrequency cpuinfo =
     (let (freq, invariant_tsc) = ReadCpuFrequency cpuinfo False
      in if invariant_tsc then freq else 0)"

section \<open>Time stamps\<close>

definition kMillisecondsPerSecond :: u64 where "kMillisecondsPerSecond = 1000"
definition kMicrosecondsPerSecond :: u64 where
  "kMicrosecondsPerSecond = kMillisecondsPerSecond * 1000"
definition kNonosecondsPerSecond :: u64 where
  "kNonosecondsPerSecond = kMicrosecondsPerSecond * 1000"

lemmas per_second = kMillisecondsPerSecond_def kMicrosecondsPerSecond_def kNonosecondsPerSecond_def

definition CpuCycles :: "u32 \<Rightarrow> u32 \<Rightarrow> u64" where
  "CpuCycles low high = push_bit 32 (ucast high) OR ucast low"

text \<open>
  \<open>freq\<close> is \<open>g_invariant_cpu_freq\<close>, \<open>0\<close> when the counter cannot be used; \<open>cycles\<close> is the counter and
  \<open>ts\<close> the seconds and nanoseconds of the clock.
\<close>

definition Timestamp_Now :: "u64 \<Rightarrow> u64 \<Rightarrow> u64 \<times> u64 \<Rightarrow> u64" where
  "Timestamp_Now freq cycles ts =
     (if freq \<noteq> 0 then cycles else fst ts * kNonosecondsPerSecond + snd ts)"

definition ToNonoseconds :: "u64 \<Rightarrow> u64 \<Rightarrow> u64" where
  "ToNonoseconds freq time =
     (if freq \<noteq> 0
      then let cycles = time;
               sec = cycles div freq;
               nsec = (cycles - sec * kNonosecondsPerSecond) * kNonosecondsPerSecond div freq
           in sec * kNonosecondsPerSecond + nsec
      else time)"

definition ToMicroseconds :: "u64 \<Rightarrow> u64 \<Rightarrow> u64" where
  "ToMicroseconds freq time = ToNonoseconds freq time div 1000"

definition Timestamp_ToMilliseconds :: "u64 \<Rightarrow> u64 \<Rightarrow> u64" where
  "Timestamp_ToMilliseconds freq time = ToNonoseconds freq time div 1000000"

definition ToSeconds_Int :: "u64 \<Rightarrow> u64 \<Rightarrow> u64" where
  "ToSeconds_Int freq time = ToNonoseconds freq time div kNonosecondsPerSecond"

definition Timer_Start :: "u64 \<Rightarrow> u64 \<Rightarrow> u64 \<times> u64 \<Rightarrow> u64" where
  "Timer_Start freq cycles ts = Timestamp_Now freq cycles ts"

definition Timer_Elapsed :: "u64 \<Rightarrow> u64 \<Rightarrow> u64 \<times> u64 \<Rightarrow> u64 \<Rightarrow> u64" where
  "Timer_Elapsed freq cycles ts start = Timestamp_Now freq cycles ts - start"

section \<open>Dates\<close>

text \<open>The fields of \<open>struct tm\<close> that the code reads.\<close>

record tm =
  tm_year :: int
  tm_mon :: int
  tm_mday :: int
  tm_hour :: int
  tm_min :: int
  tm_sec :: int

text \<open>\<open>printf\<close> of an \<open>int\<close>: \<open>%d\<close> with a width, padded with blanks or with zeros.\<close>

definition printf_d :: "nat \<Rightarrow> int \<Rightarrow> string" where
  "printf_d w i =
     (let s = (if i < 0 then ''-'' else []) @ to_string (nat \<bar>i\<bar>)
      in replicate (w - length s) CHR '' '' @ s)"

definition printf_0d :: "nat \<Rightarrow> int \<Rightarrow> string" where
  "printf_0d w i =
     (let sign = (if i < 0 then ''-'' else []); s = to_string (nat \<bar>i\<bar>)
      in sign @ replicate (w - length sign - length s) CHR ''0'' @ s)"

definition print_tm :: "tm \<Rightarrow> string" where
  "print_tm t = printf_d 4 (tm_year t + 1900) @ ''-'' @ printf_0d 2 (tm_mon t + 1) @ ''-'' @
     printf_0d 2 (tm_mday t) @ '' '' @ printf_0d 2 (tm_hour t) @ '':'' @ printf_0d 2 (tm_min t)
     @ '':'' @ printf_0d 2 (tm_sec t)"

text \<open>\<open>snprintf\<close> into 64 bytes keeps 63 characters.\<close>

definition TimeToString :: "(int \<Rightarrow> tm) \<Rightarrow> int \<Rightarrow> string" where
  "TimeToString localtime_r time_s = take 63 (print_tm (localtime_r time_s))"

text \<open>
  \<open>r\<close> and \<open>now\<close> are the results of \<open>clock_gettime\<close>; \<open>None\<close> is the failing \<open>CHECK_EQ\<close>.  The numbers
  are the signed ones of the source, without overflow for every time a clock can show.
\<close>

definition NowMilliseconds :: "int \<Rightarrow> int \<times> int \<Rightarrow> int option" where
  "NowMilliseconds r now =
     (if r \<noteq> 0 then None else Some (fst now * 1000 + snd now sdiv 1000000))"

definition TimeMsToString :: "(int \<Rightarrow> tm) \<Rightarrow> int \<Rightarrow> string" where
  "TimeMsToString localtime_r ms = TimeToString localtime_r (ms sdiv 1000)"

definition NowSeconds :: "int \<Rightarrow> int \<times> int \<Rightarrow> int option" where
  "NowSeconds r now = map_option (\<lambda>ms. ms sdiv 1000) (NowMilliseconds r now)"

section \<open>Facts\<close>

lemma mhz_digits_run:
  assumes "\<forall>c \<in> set ds. is_digit c"
  shows "mhz_digits (ds @ rest) r seen n =
    mhz_digits rest (r * 10 ^ length ds + word_of_int (digits_value ds)) seen
      (if seen then n + length ds else n)"
  using assms
proof (induction ds arbitrary: r n)
  case Nil
  then show ?case by (simp add: digits_value_def)
next
  case (Cons d ds)
  have foldl_step: "foldl (\<lambda>a c. 10 * a + digit_value c) z ds =
      z * 10 ^ length ds + digits_value ds" for z
    unfolding digits_value_def
  proof (induction ds arbitrary: z)
    case (Cons e es)
    show ?case
      using Cons [of "10 * z + digit_value e"] Cons [of "digit_value e"]
      by (simp add: algebra_simps)
  qed simp
  have v: "digits_value (d # ds) = digit_value d * 10 ^ length ds + digits_value ds"
    using foldl_step [of "digit_value d"] by (simp add: digits_value_def)
  from Cons.prems have "d \<noteq> newline" by (auto simp: is_digit_def newline_def)
  moreover have "(r * 10 + word_of_int (digit_value d)) * 10 ^ length ds + word_of_int (digits_value ds)
      = r * 10 ^ length (d # ds) + word_of_int (digits_value (d # ds))"
    by (simp add: v distrib_right mult.assoc)
  ultimately show ?case
    using Cons.IH [of "r * 10 + word_of_int (digit_value d)" "if seen then n + 1 else n"] Cons.prems
    by (simp del: of_int_add)
qed

lemma mhz_compensate_value: "mhz_compensate n r = r * 10 ^ (6 - n)"
proof (induction n r rule: mhz_compensate.induct)
  case (1 n r)
  show ?case
  proof (cases "n < 6")
    case True
    then have "6 - n = Suc (6 - (n + 1))" by simp
    with 1 True show ?thesis by (subst mhz_compensate.simps) (simp add: ac_simps)
  next
    case False
    then show ?thesis by (subst mhz_compensate.simps) simp
  qed
qed

text \<open>
  A line with an integral part and at most six decimals is read as the frequency in hertz, modulo
  the 64 bits of the result.
\<close>

lemma parse_mhz_value:
  assumes "\<forall>c \<in> set pre. \<not> is_digit c \<and> c \<noteq> newline" and "ds \<noteq> []"
    and "\<forall>c \<in> set ds. is_digit c" and "\<forall>c \<in> set fs. is_digit c"
  shows "parse_mhz (pre @ ds @ CHR ''.'' # fs @ newline # rest) =
    (word_of_int (digits_value ds) * 10 ^ length fs + word_of_int (digits_value fs))
      * 10 ^ (6 - length fs)"
proof -
  obtain d ds' where ds: "ds = d # ds'" using assms(2) by (cases ds) auto
  have "dropWhile (\<lambda>c. \<not> is_digit c \<and> c \<noteq> newline) (pre @ ds @ CHR ''.'' # fs @ newline # rest)
      = ds @ CHR ''.'' # fs @ newline # rest"
    using assms(1,3) by (simp add: ds dropWhile_append2)
  moreover have "\<not> is_digit CHR ''.''" by (simp add: is_digit_def)
  ultimately show ?thesis
    by (simp add: parse_mhz_def mhz_digits_run assms(3,4) mhz_compensate_value newline_def)
qed

lemma frequency_needs_both_flags:
  assumes "memmem (take 4096 content) ''flags'' = Some fl"
    and "memmem fl ''constant_tsc'' = None \<or> memmem fl ''nonstop_tsc'' = None"
  shows "ReadInvariantCpuFrequency (Some content) = 0"
  using assms by (auto simp: ReadInvariantCpuFrequency_def ReadCpuFrequency_def Let_def)

text \<open>Without a usable counter the elapsed time is the difference of the clock, in nanoseconds.\<close>

lemma elapsed_without_counter:
  assumes "start = Timer_Start 0 c0 (s, n)"
  shows "ToNonoseconds 0 (Timer_Elapsed 0 c1 (s + ds, n + dn) start) = ds * 1000000000 + dn"
  using assms by (simp add: ToNonoseconds_def Timer_Elapsed_def Timer_Start_def Timestamp_Now_def
      per_second algebra_simps)

text \<open>
  The remainder is taken by the nanoseconds of a second instead of the cycles of one.  Below one
  second that makes no difference; at 2 GHz two and a half seconds come out as three and a half.
\<close>

lemma below_one_second:
  "time < freq \<Longrightarrow> ToNonoseconds freq time = time * 1000000000 div freq"
  by (auto simp: ToNonoseconds_def per_second word_less_nat_alt word_arith_nat_div)

lemma ToNonoseconds_wrong: "ToNonoseconds 2000000000 5000000000 = 3500000000"
  by (simp add: ToNonoseconds_def per_second)

lemma now_seconds:
  assumes "0 \<le> s" and "0 \<le> ns" and "ns < 1000000000"
  shows "NowSeconds 0 (s, ns) = Some s"
proof -
  have "(s * 1000 + ns sdiv 1000000) sdiv 1000 = s"
    using assms by (auto simp: signed_divide_int_def sgn_if not_less)
  then show ?thesis by (simp add: NowSeconds_def NowMilliseconds_def)
qed

lemma printf_0d_two_digits:
  assumes "0 \<le> i" and "i < 100"
  shows "length (printf_0d 2 i) = 2"
  using assms by (auto simp: printf_0d_def Let_def to_string.simps [of "nat i"]
      to_string.simps [of "nat i div 10"])

lemma date_has_19_characters:
  assumes "0 \<le> tm_year t + 1900" and "tm_year t + 1900 < 10000"
    and "0 \<le> tm_mon t" "tm_mon t < 12" and "0 \<le> tm_mday t" "tm_mday t < 32"
    and "0 \<le> tm_hour t" "tm_hour t < 24" and "0 \<le> tm_min t" "tm_min t < 60"
    and "0 \<le> tm_sec t" "tm_sec t \<le> 60"
  shows "length (TimeToString (\<lambda>_. t) s) = 19"
proof -
  have "length (to_string n) \<le> 4" if "n < 10000" for n
    using that by (simp add: to_string.simps [of n] to_string.simps [of "n div 10"]
        to_string.simps [of "n div 10 div 10"] to_string.simps [of "n div 10 div 10 div 10"])
  from this [of "nat (tm_year t + 1900)"] have "length (printf_d 4 (tm_year t + 1900)) = 4"
    using assms(1,2) by (simp add: printf_d_def Let_def nat_less_iff)
  then show ?thesis
    using assms by (simp add: TimeToString_def print_tm_def printf_0d_two_digits)
qed

end
