(* ===== verification/Logging.thy ===== *)
theory Logging
  imports Time_Stamp
begin

text \<open>
  Logging: \<open>src/src/util/Logging.h\<close> and \<open>src/src/util/Logging.cpp\<close>.  The thread number, the time of
  day and \<open>localtime_r\<close> are the argument \<open>log_env\<close>; standard output is a record of what has been
  handed to the C library and what has been flushed.  \<open>std::abort\<close> sets \<open>out_aborted\<close>: nothing runs
  after it.
\<close>

section \<open>Levels and streams\<close>

datatype LogLevel = kTrace | kInfo | kWarning | kFata | kNum

primrec LogLevel_code :: "LogLevel \<Rightarrow> nat" where
  "LogLevel_code kTrace = 1"
| "LogLevel_code kInfo = 2"
| "LogLevel_code kWarning = 3"
| "LogLevel_code kFata = 4"
| "LogLevel_code kNum = 5"

lemma LogLevel_code_inj: "LogLevel_code l = LogLevel_code l' \<Longrightarrow> l = l'"
  by (cases l; cases l') simp_all

instantiation LogLevel :: linorder
begin

definition less_eq_LogLevel :: "LogLevel \<Rightarrow> LogLevel \<Rightarrow> bool" where
  "less_eq_LogLevel l l' \<longleftrightarrow> LogLevel_code l \<le> LogLevel_code l'"

definition less_LogLevel :: "LogLevel \<Rightarrow> LogLevel \<Rightarrow> bool" where
  "less_LogLevel l l' \<longleftrightarrow> LogLevel_code l < LogLevel_code l'"

instance
  by standard (auto simp: less_eq_LogLevel_def less_LogLevel_def LogLevel_code_inj)

end

text \<open>
  A stream buffer of \<open>size\<close> characters is the list of the characters put so far.  Its put area ends
  one before the array; \<open>overflow\<close> drops the character.
\<close>

definition buffer_sputc :: "nat \<Rightarrow> string \<Rightarrow> char \<Rightarrow> string" where
  "buffer_sputc sz buf ch = (if length buf < sz - 1 then buf @ [ch] else buf)"

primrec buffer_sputn :: "nat \<Rightarrow> string \<Rightarrow> string \<Rightarrow> string" where
  "buffer_sputn sz buf [] = buf"
| "buffer_sputn sz buf (ch # chs) = buffer_sputn sz (buffer_sputc sz buf ch) chs"

definition avail :: "string \<Rightarrow> nat" where
  "avail buf = length buf"

definition nul :: char where "nul = CHR 0x00"

text \<open>The array after \<open>c_string\<close> has put the terminator, as far as it has been written.\<close>

definition c_string :: "nat \<Rightarrow> string \<Rightarrow> string" where
  "c_string sz buf =
     (let s = avail buf
      in if s > sz - 1 then buf[sz - 1 := nul] else buf @ [nul])"

text \<open>What a reader of a \<open>const char *\<close> sees of it.\<close>

definition cstr :: "string \<Rightarrow> string" where
  "cstr s = takeWhile (\<lambda>c. c \<noteq> nul) s"

definition LogStream_size :: nat where "LogStream_size = 1024"

section \<open>Printing a line\<close>

record log_env =
  env_tid :: nat
  env_timeofday :: "(int \<times> nat) option"
  env_localtime :: "int \<Rightarrow> tm"

record log_out =
  out_buffered :: string
  out_flushed :: string
  out_aborted :: bool

definition out_fwrite :: "string \<Rightarrow> log_out \<Rightarrow> log_out" where
  "out_fwrite s out = out\<lparr>out_buffered := out_buffered out @ s\<rparr>"

definition out_fflush :: "log_out \<Rightarrow> log_out" where
  "out_fflush out = out\<lparr>out_buffered := [], out_flushed := out_flushed out @ out_buffered out\<rparr>"

definition g_level_string :: "string list" where
  "g_level_string = [''X'', ''T'', ''I'', ''W'', ''F'']"

text \<open>\<open>snprintf\<close> into \<open>sz\<close> bytes; \<open>None\<close> is a failing \<open>gettimeofday\<close>.\<close>

definition log_Timestamp :: "log_env \<Rightarrow> nat \<Rightarrow> string" where
  "log_Timestamp env sz =
     (case env_timeofday env of
        None \<Rightarrow> []
      | Some (tv_sec, tv_usec) \<Rightarrow>
          take (sz - 1) (print_tm (env_localtime env tv_sec) @ ''.'' @ printf_0d 6 (int tv_usec)))"

definition log_line :: "log_env \<Rightarrow> LogLevel \<Rightarrow> string \<Rightarrow> string \<Rightarrow> string \<Rightarrow> string" where
  "log_line env lev file_name line cmsg =
     g_level_string ! LogLevel_code lev @ '' '' @ to_string (env_tid env) @ '' '' @
     log_Timestamp env 64 @ '' '' @ file_name @ '':'' @ line @ '' '' @ cstr cmsg @ [newline]"

definition DefaultLogPrint ::
  "log_env \<Rightarrow> LogLevel \<Rightarrow> string \<Rightarrow> string \<Rightarrow> string \<Rightarrow> nat \<Rightarrow> log_out \<Rightarrow> log_out" where
  "DefaultLogPrint env lev file_name line cmsg len out =
     (if len > 0 \<and> lev < kNum
      then let stream = buffer_sputn LogStream_size [] (log_line env lev file_name line cmsg);
               out = out_fwrite (take (avail stream) (c_string LogStream_size stream)) out
           in if kWarning \<le> lev
              then let out = out_fflush out
                   in if lev = kFata then out\<lparr>out_aborted := True\<rparr> else out
              else out
      else out)"

section \<open>Loggers\<close>

type_synonym printer = "LogLevel \<Rightarrow> string \<Rightarrow> string \<Rightarrow> string \<Rightarrow> nat \<Rightarrow> log_out \<Rightarrow> log_out"

record log_globals =
  s_level :: LogLevel
  s_printer :: printer

definition log_globals_init :: "log_env \<Rightarrow> log_globals" where
  "log_globals_init env = \<lparr>s_level = kInfo, s_printer = DefaultLogPrint env\<rparr>"

definition SetLogPrinter :: "printer \<Rightarrow> log_globals \<Rightarrow> printer \<times> log_globals" where
  "SetLogPrinter p g = (s_printer g, g\<lparr>s_printer := p\<rparr>)"

definition SetLogLevel :: "LogLevel \<Rightarrow> log_globals \<Rightarrow> LogLevel \<times> log_globals" where
  "SetLogLevel lev g = (s_level g, g\<lparr>s_level := lev\<rparr>)"

record logger =
  log_stream :: string
  log_level :: LogLevel
  log_file_name :: string
  log_line_str :: string

definition Logger :: "LogLevel \<Rightarrow> string \<Rightarrow> string \<Rightarrow> logger" where
  "Logger lev file_name line =
     \<lparr>log_stream = [], log_level = lev, log_file_name = file_name, log_line_str = line\<rparr>"

text \<open>
  \<open>stream() << s\<close>: the logger's own stream or the null stream, which swallows everything.
\<close>

definition Logger_stream_put :: "log_globals \<Rightarrow> string \<Rightarrow> logger \<Rightarrow> logger" where
  "Logger_stream_put g s l =
     (if log_level l = kFata \<or> s_level g \<le> log_level l
      then l\<lparr>log_stream := buffer_sputn LogStream_size (log_stream l) s\<rparr>
      else l)"

definition Logger_destroy :: "log_globals \<Rightarrow> logger \<Rightarrow> log_out \<Rightarrow> log_out" where
  "Logger_destroy g l out =
     (if log_level l = kFata \<or> s_level g \<le> log_level l
      then s_printer g (log_level l) (log_file_name l) (log_line_str l)
             (c_string LogStream_size (log_stream l)) (avail (log_stream l)) out
      else out)"

text \<open>A statement \<open>LOG_X << s1 << s2 ...;\<close> of the macros.\<close>

definition LOG :: "log_globals \<Rightarrow> LogLevel \<Rightarrow> string \<Rightarrow> string \<Rightarrow> string list \<Rightarrow> log_out \<Rightarrow> log_out" where
  "LOG g lev file line ss out =
     Logger_destroy g (fold (Logger_stream_put g) ss (Logger lev file line)) out"

section \<open>Facts\<close>

lemma buffer_sputn_take: "length buf \<le> sz - 1 \<Longrightarrow> buffer_sputn sz buf s = take (sz - 1) (buf @ s)"
proof (induction s arbitrary: buf)
  case (Cons ch chs)
  show ?case
  proof (cases "length buf < sz - 1")
    case True
    then have "length (buf @ [ch]) \<le> sz - 1" by simp
    from Cons.IH [OF this] True show ?thesis by (simp add: buffer_sputc_def)
  next
    case False
    with Cons.prems Cons.IH [of buf] show ?thesis by (simp add: buffer_sputc_def)
  qed
qed simp

lemma c_string_prefix: "length buf \<le> sz - 1 \<Longrightarrow> c_string sz buf = buf @ [nul]"
  by (simp add: c_string_def avail_def)

lemma cstr_c_string: "length buf \<le> sz - 1 \<Longrightarrow> cstr (c_string sz buf) = cstr buf"
  by (simp add: c_string_prefix cstr_def takeWhile_tail)

lemma take_take_append: "take n (take n xs @ ys) = take n (xs @ ys)"
  by (cases "n \<le> length xs") simp_all

lemma log_stream_put_all:
  assumes "lev = kFata \<or> s_level g \<le> lev" and "log_level l = lev"
    and "length (log_stream l) \<le> 1023"
  shows "fold (Logger_stream_put g) ss l = l\<lparr>log_stream := take 1023 (log_stream l @ concat ss)\<rparr>"
  using assms
proof (induction ss arbitrary: l)
  case (Cons s ss)
  have "Logger_stream_put g s l = l\<lparr>log_stream := take 1023 (log_stream l @ s)\<rparr>"
    using Cons.prems by (simp add: Logger_stream_put_def buffer_sputn_take LogStream_size_def)
  with Cons.IH [of "l\<lparr>log_stream := take 1023 (log_stream l @ s)\<rparr>"] Cons.prems show ?case
    by (simp add: take_take_append del: take_append)
qed simp

lemma fatal_stream:
  "fold (Logger_stream_put g) ss (Logger kFata file line) =
     (Logger kFata file line)\<lparr>log_stream := take 1023 (concat ss)\<rparr>"
  by (subst log_stream_put_all [where lev = kFata]) (simp_all add: Logger_def)

text \<open>A level below the configured one prints nothing, unless it is fatal.\<close>

lemma disabled_level_is_silent:
  assumes "lev \<noteq> kFata" and "\<not> s_level g \<le> lev"
  shows "LOG g lev file line ss out = out"
proof -
  have "fold (Logger_stream_put g) ss (Logger lev file line) = Logger lev file line"
    by (rule fold_invariant [where Q = "\<lambda>_. True"])
      (use assms in \<open>auto simp: Logger_stream_put_def Logger_def\<close>)
  with assms show ?thesis by (simp add: LOG_def Logger_destroy_def Logger_def)
qed

text \<open>
  A fatal message is printed and flushed whatever the configured level, then the process aborts;
  that is what makes a failing \<open>CHECK\<close> stop the program.  An empty message prints nothing and does
  not abort.
\<close>

lemma fatal_message_aborts:
  assumes "s_printer g = DefaultLogPrint env" and "concat ss \<noteq> []"
  shows "LOG g kFata file line ss out = out\<lparr>out_buffered := [], out_aborted := True,
     out_flushed := out_flushed out @ out_buffered out @
       take 1023 (log_line env kFata file line (take 1023 (concat ss)))\<rparr>"
proof -
  let ?l = "log_line env kFata file line"
  have arg: "?l (take 1023 (concat ss) @ [nul]) = ?l (take 1023 (concat ss))"
    by (simp add: log_line_def cstr_def takeWhile_tail)
  show ?thesis
    using assms unfolding LOG_def fatal_stream
    by (auto simp: Logger_destroy_def Logger_def DefaultLogPrint_def avail_def
        c_string_prefix buffer_sputn_take LogStream_size_def less_LogLevel_def less_eq_LogLevel_def
        out_fwrite_def out_fflush_def arg min_def)
qed

lemma empty_fatal_message_survives:
  "s_printer g = DefaultLogPrint env \<Longrightarrow> concat ss = [] \<Longrightarrow> LOG g kFata file line ss out = out"
  unfolding LOG_def fatal_stream by (simp add: Logger_destroy_def Logger_def DefaultLogPrint_def avail_def)

text \<open>The stream keeps 1023 characters: a longer line loses its end, the newline first.\<close>

lemma long_line_loses_newline:
  assumes "lev \<in> {kTrace, kInfo, kWarning}" and "0 < len"
    and "1023 < length (log_line env lev file line cmsg)"
  shows "out_buffered (DefaultLogPrint env lev file line cmsg len out) =
      (if lev = kWarning then [] else out_buffered out @ take 1023 (log_line env lev file line cmsg))"
    and "out_flushed (DefaultLogPrint env lev file line cmsg len out) =
      (if lev = kWarning
       then out_flushed out @ out_buffered out @ take 1023 (log_line env lev file line cmsg)
       else out_flushed out)"
  using assms by (auto simp: DefaultLogPrint_def avail_def c_string_prefix buffer_sputn_take
      LogStream_size_def less_LogLevel_def less_eq_LogLevel_def out_fwrite_def out_fflush_def Let_def)

end
