(* ===== verification/Rpc_End_To_End.thy ===== *)
theory Rpc_End_To_End
  imports Rpc_Properties
begin

text \<open>
  Both ends of a remote procedure call put together: the channel of \<open>src/src/RpcChannel.cpp\<close>, the
  codec of \<open>src/src/RpcCodec.cpp\<close> on both sides and the connection function of
  \<open>src/src/RpcServer.cpp\<close>, over a network that delivers the bytes of each side to the other.
\<close>

section \<open>The two ends\<close>

text \<open>The client's connection: a byte stream in each direction, on which what has arrived can be read.\<close>

definition client_end :: "'w svc \<Rightarrow> int \<Rightarrow> ('w \<Rightarrow> string) \<Rightarrow> ('w \<Rightarrow> string) \<Rightarrow> bool" where
  "client_end sv fd inb outb \<longleftrightarrow>
     svc_reads (sv, fd) inb \<and> svc_writes (sv, fd) outb \<and> reliable (Read sv fd) inb"

text \<open>The server's connection, with a service that is not being stopped.\<close>

definition server_end :: "'w svc \<Rightarrow> int \<Rightarrow> ('w \<Rightarrow> string) \<Rightarrow> ('w \<Rightarrow> string) \<Rightarrow> bool" where
  "server_end sv fd inb outb \<longleftrightarrow>
     svc_reads (sv, fd) inb \<and> svc_writes (sv, fd) outb \<and> serving (Read sv fd) (Write sv fd) inb outb \<and>
     (\<forall>u. \<not> svc_stopping sv u)"

text \<open>The request names a method of a registered service, and the method's result is \<open>r\<close>.\<close>

definition computes ::
  "(int \<Rightarrow> nat \<Rightarrow> 'q \<Rightarrow> controller \<Rightarrow> 'w \<Rightarrow> status \<times> 'r \<times> controller \<times> 'w) \<Rightarrow> (string \<rightharpoonup> 'q rpc_item) \<Rightarrow>
   ('w \<Rightarrow> string) \<Rightarrow> ('w \<Rightarrow> string) \<Rightarrow> RpcRequest \<Rightarrow> 'r \<Rightarrow> bool" where
  "computes call rpc_services inb outb req r \<longleftrightarrow>
     (\<exists>h service mth q. rpc_services (req_service req) = Some (h, service) \<and>
        find_method service (req_method req) = Some mth \<and>
        parse_request service mth (argument_bytes req) = Some q \<and>
        (\<forall>u. \<exists>u'. call h mth q Status_OK u = (Status_OK, r, Status_OK, u') \<and> inb u' = inb u \<and> outb u' = outb u))"

text \<open>The response and the bytes that carry it, one packet of at most 255.\<close>

definition replies :: "('r \<Rightarrow> string option) \<Rightarrow> (string \<Rightarrow> 'r option) \<Rightarrow> RpcResponse pb \<Rightarrow> 'r \<Rightarrow> string \<Rightarrow> bool" where
  "replies serialize parse rspb r bytes \<longleftrightarrow>
     (\<exists>buf. serialize r = Some buf \<and> parse buf = Some r \<and>
        pb_append rspb \<lparr>response_message = buf\<rparr> = Some bytes \<and> 0 < length bytes \<and> length bytes < 256)"

lemma computes_answers:
  assumes "computes call rpc_services inb outb req r" "replies serialize parse rspb r bytes"
  shows "answers call rpc_services serialize rspb inb outb req bytes"
proof -
  from assms(2) obtain buf where "serialize r = Some buf" "pb_append rspb \<lparr>response_message = buf\<rparr> = Some bytes"
    "length bytes < 0xFFFF" by (force simp: replies_def)
  then show ?thesis using assms(1) unfolding computes_def answers_def by blast
qed

section \<open>A call and its answer\<close>

text \<open>What the server sends for one request.\<close>

lemma server_answers_one:
  assumes "server_end sv (sockfd conn) inb outb" "pb_law rqpb" "sends rqpb req bytes"
    and "answers call rpc_services serialize rspb inb outb req reply" "inb v = packet Codec_kRequest bytes"
  shows "\<exists>v'. serve_connection sv conn rqpb rspb serialize call rpc_services v = Some v' \<and>
    outb v' = outb v @ packet Codec_KResponse reply"
  using svc_conn.serve_stream [of "(sv, sockfd conn)" inb outb rqpb "svc_stopping sv" "[(req, bytes, reply)]" call
      rpc_services serialize rspb v Status_OK] assms
  unfolding serve_connection_def server_end_def by simp

text \<open>What the client makes of the answer.\<close>

lemma exchange_gets_reply:
  assumes cl: "client_end sv fd inb outb" and law: "pb_law rspb"
    and req: "sends rqpb (request_of service mth arg) bytes"
    and wr: "Write sv fd (packet Codec_kRequest bytes) w = Some (Status_OK, w1)"
    and rep: "replies serialize parse rspb r reply" and inb: "inb w1 = packet Codec_KResponse reply"
  shows "\<exists>w2. rpc_exchange (Read sv fd) (Write sv fd) rqpb rspb service mth (Some arg) parse w =
      Some (Status_OK, Some r, w2) \<and> inb w2 = []"
proof -
  obtain buf where buf: "parse buf = Some r" "pb_append rspb \<lparr>response_message = buf\<rparr> = Some reply"
    "reply \<noteq> []" "length reply < 256" using rep by (auto simp: replies_def)
  have parse: "pb_parse rspb reply = Some \<lparr>response_message = buf\<rparr>" using law buf(2) by (simp add: pb_law_def)
  have "inb w1 = packet Codec_KResponse reply @ []" using inb by simp
  with cl buf(3,4) obtain w2 where w2: "inb w2 = []"
    "ReadMessage (Read sv fd) rspb Codec_KResponse w1 = Some (Status_OK, Some \<lparr>response_message = buf\<rparr>, w2)"
    using svc_conn.read_packet [of "(sv, fd)" inb w1 Codec_KResponse reply "[]" "length reply" rspb] parse
    by (auto simp: client_end_def)
  have "WriteMessage (Write sv fd) rqpb Codec_kRequest (request_of service mth arg) w = Some (Status_OK, w1)"
    using req wr by (simp add: sends_def WriteMessage_def packet_def Let_def)
  then show ?thesis
    using w2 buf(1)
    by (simp add: rpc_exchange_def WriteRequestMessage_def ReadResponeMessage_def status_IsOK_iff)
qed


text \<open>For the witness: an echo server and its client, each with a kernel of scripts.\<close>

lemma script_ends:
  "client_end (spinning script_os) 7 (script_in 7) (script_out 7)"
  "server_end (spinning script_os) 7 (script_in 7) (script_out 7)"
  using script_streams script_reliable script_serving
  by (simp_all add: client_end_def server_end_def spinning_def)


end
