(* ===== verification/System_Lifecycle.thy ===== *)
theory System_Lifecycle
  imports IO_Service Wakeup_Service
begin

text \<open>
  The life of a whole system (\<open>System::Start\<close> and \<open>System::Stop\<close> of \<open>src/src/System.cpp\<close>): the I/O
  service, the threads, the wait for the workers and the built-in services, on top of the scheduler,
  the calls and the wake-up service.
\<close>

section \<open>State\<close>

datatype sys_thread = TimerThread | IOThread | WorkerThread nat

text \<open>The members of \<open>System\<close> that outlive its threads, with the state the calls work on.\<close>

record 'g whole_system =
  ws_calls :: "'g srv_method calls"
  ws_io :: io_service
  worker_init_num :: int
  ws_threads :: "sys_thread list"

definition System_new :: "'g whole_system" where
  "System_new =
     \<lparr>ws_calls = \<lparr>sys_of = System_init, timer_srv = TimerService, wakeup_srv_handle = Handle_default,
        done_flag = (\<lambda>_. False), user_log = []\<rparr>,
      ws_io = IOService_init, worker_init_num = 0, ws_threads = []\<rparr>"

section \<open>Starting\<close>

text \<open>
  The loop that waits for the workers, which compares the counter with their number.  The list says
  which workers had counted themselves at each reading, in their order; \<open>c\<close> is the counter before
  the threads were started.  \<open>None\<close>: it is still waiting.
\<close>

fun await_workers :: "int \<Rightarrow> int \<Rightarrow> nat list list \<Rightarrow> nat list option" where
  "await_workers c n [] = None"
| "await_workers c n (inited # polls) =
     (if c + int (length inited) = n then Some inited else await_workers c n polls)"

text \<open>
  \<open>Start\<close> in a thread outside the system, whose call of the built-in service uses flag \<open>k\<close>.
  \<open>None\<close> is the failed \<open>CHECK\<close>, a wait that has not ended, or the call of \<open>Stop\<close>, which locks the
  mutex that \<open>Start\<close> holds.
\<close>

definition System_Start_whole ::
  "'w os \<Rightarrow> int \<Rightarrow> nat list list \<Rightarrow> nat \<Rightarrow> 'g whole_system \<Rightarrow> 'w \<Rightarrow> (status \<times> 'g whole_system \<times> 'w) option" where
  "System_Start_whole os thread_num polls k st w = do {
     CHECK (stopped (sys_of (ws_calls st)));
     let n = nat (if thread_num \<le> 0 then 2 else thread_num);
     let sys = (sys_of (ws_calls st))\<lparr>worker_num := n\<rparr>;
     let (s, io, w) = IOService_Initialize os (ws_io st) w;
     let st = st\<lparr>ws_calls := (ws_calls st)\<lparr>sys_of := sys\<rparr>, ws_io := io\<rparr>;
     if \<not> status_IsOK s then Some (s, st, w)
     else do {
       let st = st\<lparr>ws_threads := ws_threads st @ [TimerThread, IOThread] @ map WorkerThread [0..<n]\<rparr>;
       inited \<leftarrow> await_workers (worker_init_num st) (int n) polls;
       let sys = (fold ThreadMain inited sys)\<lparr>stopped := False\<rparr>;
       let st = st\<lparr>worker_init_num := worker_init_num st + int (length inited)\<rparr>;
       (s, calls) \<leftarrow> StartBuitinServices k ((ws_calls st)\<lparr>sys_of := sys\<rparr>);
       if \<not> status_IsOK s then None
       else Some (Status_OK, st\<lparr>ws_calls := calls\<rparr>, w)
     }
   }"

section \<open>Stopping\<close>

text \<open>
  \<open>Stop\<close> up to the joining of the threads, on the services in the order in which the table is
  walked; \<open>None\<close> when there is nothing to stop.  Then, when the threads have been joined, its end.
\<close>

definition System_Stop_whole ::
  "'w os \<Rightarrow> service list \<Rightarrow> 'g whole_system \<Rightarrow> 'w \<Rightarrow> ('g whole_system \<times> 'w) option" where
  "System_Stop_whole os ss st w =
     (let calls = ws_calls st
      in if stopped (sys_of calls) then None
         else Some (st\<lparr>ws_calls := calls\<lparr>sys_of := System_Stop ss (sys_of calls)\<rparr>\<rparr>, IOService_Stop os (ws_io st) w))"

definition System_Stop_end :: "'g whole_system \<Rightarrow> 'g whole_system option" where
  "System_Stop_end st = do {
     let st = st\<lparr>ws_threads := []\<rparr>;
     System_Stop_joined (sys_of (ws_calls st));
     Some st
   }"

section \<open>Waiting for the workers\<close>

text \<open>The readings a start with \<open>n\<close> workers can make: each of some workers, none counted twice.\<close>

definition readings :: "nat \<Rightarrow> nat list list \<Rightarrow> bool" where
  "readings n polls \<longleftrightarrow> (\<forall>inited \<in> set polls. distinct inited \<and> set inited \<subseteq> {..<n})"

lemma await_Some:
  "await_workers c n polls = Some inited \<Longrightarrow> inited \<in> set polls \<and> c + int (length inited) = n"
  by (induction polls) (auto split: if_splits)

lemma await_returns:
  "inited \<in> set polls \<Longrightarrow> c + int (length inited) = n \<Longrightarrow> \<exists>inited'. await_workers c n polls = Some inited'"
  by (induction polls) auto

lemma all_inited:
  assumes "distinct inited" "set inited \<subseteq> {..<n}" "length inited = n"
  shows "set inited = {..<n}"
proof -
  have "card (set inited) = n" using assms(1,3) by (simp add: distinct_card)
  then show ?thesis using card_subset_eq [of "{..<n}" "set inited"] assms(2) by simp
qed

text \<open>In whatever order all workers come, the state is that of \<open>System_Start\<close>.\<close>

lemma fold_ThreadMain_rest:
  "stopped (foldr ThreadMain ts sys) = stopped sys" "current_time (foldr ThreadMain ts sys) = current_time sys"
  by (induction ts) (simp_all add: ThreadMain_def set_thread_def set_context_def)

lemma foldr_ThreadMain_set:
  assumes "set ts = set us"
  shows "foldr ThreadMain ts sys = foldr ThreadMain us sys"
  by (rule system.equality) (auto simp: fun_eq_iff foldr_ThreadMain fold_ThreadMain_rest assms)

lemma first_await_starts_all:
  assumes "readings n polls" "await_workers 0 (int n) polls = Some inited"
  shows "fold ThreadMain inited sys = foldr ThreadMain [0..<n] sys" "length inited = n"
proof -
  from await_Some [OF assms(2)] have i: "inited \<in> set polls" and l: "length inited = n" by simp_all
  then have "set inited = {..<n}" using assms(1) by (intro all_inited) (auto simp: readings_def)
  then have "set (rev inited) = set [0..<n]" by (simp only: set_rev set_upt atLeast0LessThan)
  from foldr_ThreadMain_set [OF this, of sys] show "fold ThreadMain inited sys = foldr ThreadMain [0..<n] sys"
    by (simp only: foldr_conv_fold rev_rev_ident)
  show "length inited = n" by (rule l)
qed

text \<open>
  The counter is never reset.  After a first life of the system with \<open>c\<close> workers, a start that
  returns has not waited for all its workers, and one with fewer than \<open>c\<close> never returns.
\<close>

lemma restart_does_not_wait:
  assumes "0 < c" "await_workers c (int n) polls = Some inited"
  shows "length inited < n"
  using await_Some [OF assms(2)] assms(1) by linarith

lemma restart_with_fewer_hangs:
  assumes "int n < c"
  shows "await_workers c (int n) polls = None"
  using await_Some [of c "int n" polls] assms by (cases "await_workers c (int n) polls") auto

section \<open>The built-in services\<close>

text \<open>The message that starts the wake-up service.\<close>

abbreviation start_call :: "handle \<Rightarrow> nat \<Rightarrow> 'g srv_method message" where
  "start_call h k \<equiv>
     SetClosure (NotifyThread k) (MakeMethodCallMessage Handle_default h WakeupService_class WakeupService_Start_call NoClosure)"

text \<open>On a running system they start: the wake-up service is launched, has its first message, and is queued.\<close>

lemma builtin_services_start:
  assumes reach: "sys_reachable (sys_of st)" and run: "\<not> stopped (sys_of st)"
  defines "h \<equiv> service_index_alloc (sys_of st) + 1"
  shows "\<exists>st'. StartBuitinServices k st = Some (Status_OK, st') \<and> sys_reachable (sys_of st') \<and>
    \<not> stopped (sys_of st') \<and> wakeup_srv_handle st' = h \<and>
    services (sys_of st') h = Some (LaunchedService h) \<and>
    msg_queue (contexts (sys_of st') (LaunchedService h)) = [start_call h k] \<and>
    run_queue (sys_of st') = run_queue (sys_of st) @ [LaunchedService h] \<and> \<not> done_flag st' k \<and>
    worker_num (sys_of st') = worker_num (sys_of st)"
proof -
  let ?s = "LaunchedService h" and ?sys = "sys_of st"
  let ?c = "(ServiceContext_Create kMessageDrivenService :: 'a srv_method message service_context)
    \<lparr>status := kBlocked, wait_events := kMessage OR kServiceStop,
     blocked_time := current_time ?sys, wakeup_time := current_time ?sys\<rparr>"
  let ?sys1 = "set_context ?s ?c (AddService ?s (?sys\<lparr>service_index_alloc := h\<rparr>))"
  have l: "LaunchService kMessageDrivenService ?sys = (Some h, ?sys1)"
    unfolding LaunchService_eq Let_def using run by (simp add: h_def)
  have r1: "sys_reachable ?sys1"
    by (rule reachable_perform [OF reach, of "CallLaunch kMessageDrivenService"]) (simp_all add: l)
  have h16: "16 < h" using sys_reachable_inv [OF reach] by (simp add: sys_inv_def table_inv_def h_def)
  then have hs: "Handle_bool h" "h \<noteq> idle_service_index" by (simp_all add: Handle_bool_def idle_service_index_def)
  have "services ?sys1 h \<noteq> None" by (simp add: AddService_def)
  then have tab: "services ?sys1 h = Some ?s"
    using sys_reachable_inv [OF r1] unfolding sys_inv_def table_inv_def by (metis option.exhaust)
  let ?sys2 = "set_context ?s (enqueued (start_call h k) ?c) ?sys1"
  let ?sys3 = "snd (Wakeup_Locked ?s kMessage ?sys2)"
  have cc: "contexts ?sys1 ?s = ?c" by simp
  have "SendMessage None h (start_call h k) ?sys1 = Some (True, ?sys3)"
    using tab hs by (simp add: SendMessage_def GrabService_outside Let_def enqueued_def ServiceContext_Create_def
        kMessage_def kServiceStop_def)
  note sent = this
  have r3: "sys_reachable ?sys3"
    by (rule reachable_perform [OF r1, of "CallSend None h (start_call h k)"])
      (use sent hs in \<open>simp_all add: self_ok_def\<close>)
  have q: "run_queue ?sys3 = run_queue ?sys @ [?s]" "stopped ?sys3 = stopped ?sys" "services ?sys3 = services ?sys1"
    "msg_queue (contexts ?sys3 ?s) = [start_call h k]" "worker_num ?sys3 = worker_num ?sys"
    using hs(2) by (simp_all add: Wakeup_Locked_def Let_def enqueued_def ServiceContext_Create_def kMessage_def
        kServiceStop_def PutReadyService_def tsq_push_def AddService_def set_context_def)
  have "caller None ?sys1 = Handle_default" by (simp add: caller_def)
  then have "StartBuitinServices k st = Some (Status_OK, st\<lparr>sys_of := ?sys3, wakeup_srv_handle := h,
      done_flag := (done_flag st)(k := False)\<rparr>)"
    using sent hs by (simp add: StartBuitinServices_def l CallMethod_def send_def SetClosure_def
        MakeMethodCallMessage_def Handle_default_def Handle_bool_def)
  then show ?thesis using r3 q run tab by auto
qed

section \<open>A whole start\<close>


text \<open>For the witness: two workers that come in the other order, at the third reading.\<close>

definition epoll_os :: "(nat \<times> int set) os" where
  "epoll_os = table_os\<lparr>os_epoll_add := (\<lambda>efd fd dat ev w. ((0, Errno 0), w))\<rparr>"


section \<open>The end of a stop\<close>

text \<open>
  A worker leaves only when it finds the run queue empty, but nothing keeps it so.  In \<open>stranded17\<close>
  the only worker has returned while service 17 waits for the reply to a call, which \<open>StopService\<close>
  does not end.  When the closure of that call is then run by a thread outside the system, the
  service is queued, and the check at the end of \<open>Stop\<close> fails.
\<close>

definition stranded17 :: "nat system" where
  "stranded17 = the (run_actions
     [ResumePrevious 0, ResumeCurrent 0, CallLaunch kUserThreadService, IdleLoop False 0, GetReady 0, Switch 0,
      ResumePrevious 0, ResumeCurrent 0, CallWait 0 kResponse, GetReady 0, Switch 0, ResumePrevious 0, ResumeCurrent 0,
      SystemStop, CallStopService None 17, IdleLoop True 0] (System_Start 1))"

lemma stranded17_reachable: "sys_reachable stranded17"
  unfolding stranded17_def by (rule reachable_the_run [OF start]) code_simp

lemma late_reply_aborts_stop:
  "tpc stranded17 0 = Stopped" "worker_num stranded17 = 1" "System_Stop_joined stranded17 = Some ()"
  "Option.bind (WakeUp None 17 kResponse stranded17) (\<lambda>(_, sys). System_Stop_joined sys) = None"
  by code_simp+

end
