(* ===== verification/Service_Stack.thy ===== *)
theory Service_Stack
  imports Util
begin

text \<open>
  The stacks services run on (\<open>src/src/ServiceContext.h\<close>, \<open>src/src/ServiceContext.cpp\<close>): their sizes,
  their allocation by \<open>ServiceContext::Create\<close> and their release by the destructor.  Memory is the
  operating system's: \<open>mmap\<close> and \<open>munmap\<close> are parameters, with the ranges of mapped addresses as
  what is known of them; \<open>make_fcontext\<close> is a parameter, too.
\<close>

section \<open>Sizes\<close>

definition kStackAlignment :: int where "kStackAlignment = kPageSize"
definition kStackAlignmentMask :: int where "kStackAlignmentMask = kStackAlignment - 1"

definition kVerySmallStackSize :: int where "kVerySmallStackSize = 32 * 1024"
definition kSmallStackSize :: int where "kSmallStackSize = 128 * 1024"
definition kNormalStackSize :: int where "kNormalStackSize = 1024 * 1024"
definition kLargeStackSize :: int where "kLargeStackSize = 4 * 1024 * 1024"
definition kVeryLargeStackSize :: int where "kVeryLargeStackSize = 8 * 1024 * 1024"

definition AlignStackTop :: "u64 \<Rightarrow> u32 \<Rightarrow> u64" where
  "AlignStackTop addr align = (let mask = ucast (align - 1) in addr AND NOT mask)"

text \<open>The first line of \<open>Create\<close>; for sizes up to \<open>2 ^ 31 - 4096\<close> nothing overflows.\<close>

definition AlignStackSize :: "int \<Rightarrow> int" where
  "AlignStackSize stacksize = (stacksize + kStackAlignmentMask) AND NOT kStackAlignmentMask"

section \<open>Allocation and release\<close>

record service_stack =
  stk_base :: u64
  stk_size :: int
  stk_sp :: u64

text \<open>A failed \<open>mmap\<close> throws, a null context fails a \<open>CHECK\<close>.\<close>

datatype create_error = BadAlloc | NullContext

definition CreateStack ::
  "(int \<Rightarrow> 'w \<Rightarrow> u64 option \<times> 'w) \<Rightarrow> (u64 \<Rightarrow> int \<Rightarrow> bool) \<Rightarrow> int \<Rightarrow> 'w \<Rightarrow> (create_error + service_stack) \<times> 'w" where
  "CreateStack mmap make_fcontext stacksize w =
     (let stacksize = AlignStackSize stacksize;
          (page_addr, w) = mmap stacksize w
      in case page_addr of
           None \<Rightarrow> (Inl BadAlloc, w)
         | Some base \<Rightarrow>
             let sp = base + word_of_int stacksize;
                 rstack_size = uint (sp - base)
             in if \<not> make_fcontext sp rstack_size then (Inl NullContext, w)
                else (Inr \<lparr>stk_base = base, stk_size = stacksize, stk_sp = sp\<rparr>, w))"

text \<open>The destructor; a context without a stack has a null pointer.\<close>

definition DestroyStack :: "(u64 \<Rightarrow> int \<Rightarrow> 'w \<Rightarrow> 'w) \<Rightarrow> service_stack \<Rightarrow> 'w \<Rightarrow> 'w" where
  "DestroyStack munmap s w = (if stk_base s \<noteq> 0 then munmap (stk_base s) (stk_size s) w else w)"

section \<open>Alignment\<close>

lemma AlignStackSize_rounds_up:
  "kPageSize dvd AlignStackSize n" "n \<le> AlignStackSize n" "AlignStackSize n < n + kPageSize"
proof -
  have e: "AlignStackSize n = (n + (kPageSize - 1)) div kPageSize * kPageSize"
    using and_not_low_bits [of "n + 4095" 12]
    by (simp add: AlignStackSize_def kStackAlignmentMask_def kStackAlignment_def kPageSize_def)
  show "kPageSize dvd AlignStackSize n" unfolding e by simp
  show "n \<le> AlignStackSize n" "AlignStackSize n < n + kPageSize"
    unfolding e by (rule round_up_div; simp add: kPageSize_def)+
qed

text \<open>No intermediate result leaves the range of \<open>int\<close>, and the sizes of the system are whole pages already.\<close>

lemma AlignStackSize_fits:
  assumes "0 < n" "n \<le> 2 ^ 31 - kPageSize"
  shows "n + kStackAlignmentMask < 2 ^ 31" "0 < AlignStackSize n" "AlignStackSize n < 2 ^ 31"
  using AlignStackSize_rounds_up(2,3) [of n] assms
  by (simp_all add: kStackAlignmentMask_def kStackAlignment_def kPageSize_def)

lemma stack_sizes_are_pages:
  "n \<in> {kVerySmallStackSize, kSmallStackSize, kNormalStackSize, kLargeStackSize, kVeryLargeStackSize} \<Longrightarrow>
   AlignStackSize n = n"
  using and_not_low_bits [of "n + 4095" 12]
  by (auto simp: AlignStackSize_def kStackAlignmentMask_def kStackAlignment_def kPageSize_def
      kVerySmallStackSize_def kSmallStackSize_def kNormalStackSize_def kLargeStackSize_def kVeryLargeStackSize_def)

section \<open>The life of a stack\<close>

abbreviation addresses :: "u64 \<Rightarrow> int \<Rightarrow> int set" where
  "addresses base n \<equiv> {uint base ..< uint base + n}"

text \<open>What the manual pages say: a new mapping is page-aligned, not at address 0, and overlaps none.\<close>

definition mmap_law :: "(int \<Rightarrow> 'w \<Rightarrow> u64 option \<times> 'w) \<Rightarrow> ('w \<Rightarrow> int set) \<Rightarrow> bool" where
  "mmap_law mmap mapped \<longleftrightarrow> (\<forall>n w r w'. 0 < n \<longrightarrow> mmap n w = (r, w') \<longrightarrow>
     (case r of
        None \<Rightarrow> mapped w' = mapped w
      | Some base \<Rightarrow> base \<noteq> 0 \<and> kPageSize dvd uint base \<and> uint base + n < 2 ^ 64 \<and>
          addresses base n \<inter> mapped w = {} \<and> mapped w' = mapped w \<union> addresses base n))"

definition munmap_law :: "(u64 \<Rightarrow> int \<Rightarrow> 'w \<Rightarrow> 'w) \<Rightarrow> ('w \<Rightarrow> int set) \<Rightarrow> bool" where
  "munmap_law munmap mapped \<longleftrightarrow> (\<forall>base n w. mapped (munmap base n w) = mapped w - addresses base n)"

text \<open>
  A stack that was created has at least the size asked for, in whole pages that belong to no other
  mapping; its stack pointer is one past its last byte and page-aligned; destroying it gives back
  exactly its pages.  When the memory cannot be had, nothing is mapped.
\<close>

lemma stack_is_created_and_released:
  assumes laws: "mmap_law mmap mapped" "munmap_law munmap mapped" and n: "0 < n" "n \<le> 2 ^ 31 - kPageSize"
    and run: "CreateStack mmap make_fcontext n w = (r, w')"
  shows "case r of
      Inr s \<Rightarrow> n \<le> stk_size s \<and> kPageSize dvd stk_size s \<and> uint (stk_sp s) = uint (stk_base s) + stk_size s \<and>
        kPageSize dvd uint (stk_sp s) \<and> addresses (stk_base s) (stk_size s) \<inter> mapped w = {} \<and>
        addresses (stk_base s) (stk_size s) \<subseteq> mapped w' \<and> mapped (DestroyStack munmap s w') = mapped w
    | Inl e \<Rightarrow> e = BadAlloc \<and> mapped w' = mapped w \<or> e = NullContext"
proof -
  let ?n = "AlignStackSize n"
  note al = AlignStackSize_rounds_up(1,2) [of n] AlignStackSize_fits(2,3) [OF n]
  obtain p w1 where p: "mmap ?n w = (p, w1)" by (rule prod.exhaust)
  have law: "case p of
        None \<Rightarrow> mapped w1 = mapped w
      | Some base \<Rightarrow> base \<noteq> 0 \<and> kPageSize dvd uint base \<and> uint base + ?n < 2 ^ 64 \<and>
          addresses base ?n \<inter> mapped w = {} \<and> mapped w1 = mapped w \<union> addresses base ?n"
    using laws(1) al(3) p unfolding mmap_law_def by blast
  show ?thesis
  proof (cases p)
    case None
    then show ?thesis using run p law by (auto simp: CreateStack_def)
  next
    case (Some base)
    have sp: "uint (base + word_of_int ?n) = uint base + ?n"
    proof -
      have "uint (word_of_int ?n :: u64) = ?n" using al(3,4) by (simp add: word_of_int_inverse)
      then show ?thesis using law Some uint_plus_if' [of base "word_of_int ?n"] by simp
    qed
    have "mapped (munmap base ?n w1) = mapped w"
      using law Some laws(2) by (auto simp: munmap_law_def)
    then show ?thesis
      using run p law Some sp al(1,2) by (auto simp: CreateStack_def DestroyStack_def Let_def split: if_splits)
  qed
qed

text \<open>\<open>AlignStackTop\<close> rounds down.\<close>

lemma AlignStackTop_rounds_down:
  assumes "k < 32"
  shows "AlignStackTop addr (2 ^ k) = addr AND NOT (mask k)" "take_bit k (AlignStackTop addr (2 ^ k)) = 0"
    "AlignStackTop addr (2 ^ k) \<le> addr"
proof -
  have "(2 ^ k - 1 :: u32) = mask k" by (simp add: mask_eq_exp_minus_1)
  moreover have "ucast (mask k :: u32) = (mask k :: u64)"
    using assms by (intro bit_word_eqI) (auto simp: bit_simps)
  ultimately show e: "AlignStackTop addr (2 ^ k) = addr AND NOT (mask k)"
    by (simp add: AlignStackTop_def Let_def)
  show "take_bit k (AlignStackTop addr (2 ^ k)) = 0"
    unfolding e by (intro bit_word_eqI) (auto simp: bit_simps)
  show "AlignStackTop addr (2 ^ k) \<le> addr"
    unfolding e by (simp add: word_and_le2)
qed

end
