(* ===== verification/Spec2Isabelle.thy ===== *)
theory Spec2Isabelle
  imports Util Circular_Buffer Thread_Pool Service_Event Timer_Properties Scheduler_Properties
    Status Socket_Ops IO_Service Tcp Tcp_Server Rpc_Codec Object_Cache System_Call_Properties
    Wakeup_Service Rpc_Properties Tcp_Service Rpc_Service Mpsc_Queue Block_Queue Thread_Exit Time_Stamp
    Logging Rpc_End_To_End System_Lifecycle Service_Stack
begin

text \<open>
  \<^bold>\<open>A verification of mcast\<close>, an actor library in C++ (files under \<open>src/src\<close>).

  \<^bold>\<open>The program.\<close>  A \<open>System\<close> runs services, each with a stack of its own, on a few worker threads.
  A service is either a user thread (it has a \<open>Main\<close> and blocks where it likes) or driven by messages
  (it handles the messages of its queue, method calls among them).  Services block in
  \<open>System::Wait\<close> for a set of events and are made ready again by whoever delivers one: another
  service, the timer thread, the I/O thread.  On that rest sleeping, method calls between services,
  blocking sockets, a TCP server and remote procedure calls.  Underneath are small utilities: queues,
  a timing wheel, an object cache, a thread pool, statuses, logging.

  The default build defines \<open>NDEBUG\<close>, so \<open>assert\<close> is no code.  A failing \<open>CHECK\<close> ends the process
  and is the value \<open>None\<close> of an option; theory \<open>Logging\<close> shows that it does.  Null dereferences and
  accesses to memory without an object are \<open>None\<close> too.

  \<^bold>\<open>The theories\<close>, in the order of the layers, with the sources they model.

  \<^item> \<open>Mcast_Prelude\<close>: machine words, \<open>CHECK\<close>, shared lemmas.  \<open>Util\<close>: \<open>util/util.h\<close>,
    \<open>util/util_config.h\<close>, the sizes at the head of \<open>util/ObjectCache.h\<close>.
  \<^item> \<open>Fifo_Spec\<close>: the locale \<open>fifo_queue\<close>, the contract of a queue, interpreted by
    \<open>Circular_Buffer\<close> (\<open>util/CircularBuffer.h\<close>), \<open>Thread_Safe_Queue\<close> (\<open>util/ThreadSafeQueue.h\<close>) and
    the blocking queue of \<open>Block_Queue\<close> (\<open>util/BlockingQueue.h\<close>, \<open>util/Queue.h\<close>).  \<open>Mpsc_Queue\<close>:
    \<open>util/MPSCQueue.h\<close>.
  \<^item> \<open>Thread_Pool\<close>: \<open>util/ThreadPool.h\<close> as a step relation over the moves of all workers.
    \<open>Thread_Exit\<close>: \<open>util/Thread.h\<close>.  \<open>Object_Cache\<close>: \<open>util/ObjectCache.h\<close> with its caches per thread.
  \<^item> \<open>Timer_Service\<close>, \<open>Timer_Properties\<close>: \<open>TimerService.h\<close>, \<open>TimerService.cpp\<close>; the locale
    \<open>timer_facility\<close> is what clients see of the wheel.
  \<^item> \<open>Service_Event\<close>: \<open>ServiceEvent.h\<close>, \<open>ServiceEvent.cpp\<close>.
  \<^item> \<open>Scheduler\<close>: \<open>System.h\<close>, \<open>System.cpp\<close>, \<open>ServiceContext\<close>, \<open>Service\<close>.  The state \<open>system\<close> has the
    contexts of the services, the run queue and, per worker, its program counter \<open>thread_pc\<close>.  Each
    section under a service's mutex is one step, and so is each stretch of \<open>Schedule\<close>, \<open>SwitchTo\<close>,
    \<open>OnResume\<close> and the end of the main functions between two of them; \<open>sys_reachable\<close> are the states any interleaving can reach.
    \<open>Scheduler_Safety\<close> has the invariant and one preservation lemma per operation,
    \<open>Scheduler_Properties\<close> what follows for users.
  \<^item> \<open>System_Calls\<close>, \<open>System_Call_Properties\<close>: handles, messages, method calls, signals and sleeping
    (\<open>ServiceHandle.h\<close>, \<open>Message.h\<close>, \<open>Service.h\<close>, \<open>System.h\<close>), which join the scheduler and the timer
    service in the state \<open>calls\<close>.  \<open>Wakeup_Service\<close>: \<open>WakeupService.h\<close>, \<open>WakeupService.cpp\<close>, and how
    \<open>System\<close> starts its built-in services and stops.  \<open>System_Lifecycle\<close>: the whole of
    \<open>System::Start\<close> and \<open>System::Stop\<close>, with the I/O service and the wait for the workers.
    \<open>Service_Stack\<close>: how \<open>ServiceContext\<close> gets its stack and gives it back.
  \<^item> \<open>Status\<close>: \<open>util/Status.h\<close> over a heap of buffers, \<open>util/Result.h\<close>.  \<open>Socket_Ops\<close>:
    \<open>util/socketops.h\<close>, \<open>util/socketops.cpp\<close>.  \<open>IO_Service\<close>: \<open>IOService.h\<close>, \<open>IOService.cpp\<close>, \<open>WaitIO\<close>.
  \<^item> \<open>Tcp\<close>: the connections of services and of plain threads; the locale \<open>stream_connection\<close> is
    their common contract, interpreted by both.  \<open>Tcp_Server\<close>: \<open>TcpConnector.cpp\<close>, \<open>Acceptor.h\<close>,
    \<open>Acceptor.cpp\<close>.  \<open>Tcp_Service\<close>: \<open>TcpServer.h\<close>, \<open>TcpServer.cpp\<close>.
  \<^item> \<open>Rpc_Codec\<close>: \<open>RpcCodec.h\<close>, \<open>RpcCodec.cpp\<close>.  \<open>Rpc\<close>, \<open>Rpc_Properties\<close>, \<open>Rpc_Service\<close>: channel,
    controller, closures and server.  \<open>Rpc_End_To_End\<close>: client and server over a network.
  \<^item> \<open>Time_Stamp\<close>: \<open>util/Timer.h\<close>, \<open>util/Timer.cpp\<close>, \<open>util/DateTime.h\<close>.  \<open>Logging\<close>:
    \<open>util/Logging.h\<close>, \<open>util/Logging.cpp\<close>.

  \<^bold>\<open>What is outside.\<close>  The operating system is the record \<open>os\<close> of its calls on a world \<open>'w\<close>; what a
  proof needs of it is a named law (\<open>close_law\<close>, \<open>recv_law\<close>, \<open>options_law\<close>, ...), each shown to hold for a
  concrete instance by the witnesses.  The protocol-buffer library is a pair of functions with the
  law that what serialises parses back.  User code is an arbitrary action of its service.

  \<^bold>\<open>Loops.\<close>  Loops over data are structural recursions or have a termination proof.  The loops that
  talk to the operating system (reading, writing, accepting, serving) are partial functions into
  \<open>option\<close>: not returning is \<open>None\<close>, and that they return is proved.  The proofs measure the kernel's
  patience, the number of times it may still answer "try again", or the rest of the stream.  The
  timer thread recurs over the readings of its clock; the I/O thread runs until it is interrupted,
  and its claim is about one round.  No model uses fuel.

  \<^bold>\<open>What is shown.\<close>
  \<^item> Scheduler (C1 to C11): no abort, every service in one place, no lost wake-up, no forgotten ready
    service, well-typed states in which every thread can move, messages handled once and in order, the head of the queue gets to run.
  \<^item> Timers (C12 to C16): n ticks fire exactly the timers due, in order, once.
  \<^item> Queues and pool (C17, C19, C20, C24): the ring buffer and the wait-free queue are first in, first
    out; the pool loses no task.  Utilities (C21, C22).
  \<^item> The system as a whole (C23): its first start brings it up or leaves no trace.
  \<^item> Statuses (C26): memory-safe and equivalent to plain values.
  \<^item> I/O and TCP (C25, C27 to C33): a new connection is owned by a service or closed, no descriptor is leaked, reading and writing return and transfer the
    stream, both connection classes are equivalent, accepted connections are handed over in order.
  \<^item> RPC (C18, C34, C35, C39, C40): a call gets the response its method computed, packets round-trip (and which do not), calls complete on every path
    and run their closure once, servers answer in order.
  \<^item> Object cache (C36): memory that is handed out is free.  Calls (C37, C38): sleepers are woken,
    method calls are delivered once and answered.

  The lemmas of the theories without a claim of their own say the same kind of thing about the
  wake-up service, the stacks, the servers, the block queue, threads, time and logging.

  \<^bold>\<open>Not modelled.\<close>  The switch of machine contexts (\<open>libcontext\<close>, \<open>valgrind.h\<close>): a switch is the change of a thread's current service.  Generated code (\<open>*.pb.*\<close>),
  tests, examples, \<open>config.h\<close>.  The weak memory order of atomics: steps are sequentially consistent.
  What runs inside \<open>std::thread\<close>, and \<open>Timestamp::ToSeconds\<close>, a division of doubles.
\<close>

end
